(* ===== verification/Prelude.thy ===== *)
theory Prelude
  imports Main "HOL-Library.Word" "HOL-Library.List_Lexorder" "HOL-Library.Char_ord"
    "HOL-Library.Sublist"
begin

text \<open>
  Shared vocabulary of the development: the types that Go values are modelled by, the error
  values that the program passes around, the named collections that carry the proofs, and
  the generic facts on byte strings, maps and fixed-width integers that every component uses.

  A Go string or byte slice is a list of 8-bit characters, ordered bytewise as Go and the
  key-value store order keys. \<open>uint64\<close> is a 64-bit word read by \<open>unat\<close>;
  \<open>int\<close> and \<open>int64\<close> are 64-bit words read by \<open>sint\<close>, so that additions wrap
  exactly where the program's do.
\<close>

named_theorems go_defs "definitions that unfold one Go function"
named_theorems key_simps "equations on database keys"
named_theorems json_simps "equations on JSON values"

type_synonym bytes = "char list"
type_synonym uint64 = "64 word"
type_synonym int64 = "64 word"
type_synonym uint32 = "32 word"

section \<open>Errors\<close>

text \<open>
  The values behind Go's \<open>error\<close> interface. \<open>AppError\<close> is the program's own
  error type; the other constructors are errors that the standard library, the key-value
  store, the clock or the context return, kept apart as far as the program distinguishes them.
\<close>

datatype num_err = ErrSyntax | ErrRange

datatype goerr =
    AppError (app_code: string) (app_message: string)
  | ErrNotFound
  | FmtError string
  | NumError string string num_err
  | JsonError
  | ContextError string
  | IOError string
  | SqlError string
  | WrapError string goerr

type_synonym 'a res = "goerr + 'a"

section \<open>Lists and byte strings\<close>

lemma less_append_same [simp]: "(xs @ ys :: 'a::linorder list) < xs @ zs \<longleftrightarrow> ys < zs"
  by (induction xs) auto

lemma le_append_same [simp]: "(xs @ ys :: 'a::linorder list) \<le> xs @ zs \<longleftrightarrow> ys \<le> zs"
  by (simp add: less_append_same le_less)

lemma less_snoc_iff:
  "length xs = length ys \<Longrightarrow>
   (xs @ [a] :: 'a::linorder list) < ys @ [b] \<longleftrightarrow> xs < ys \<or> xs = ys \<and> a < b"
  by (induction xs ys rule: list_induct2) auto

lemma less_append_eq_length:
  "length xs = length ys \<Longrightarrow> xs < ys \<Longrightarrow> (xs @ us :: 'a::linorder list) < ys @ vs"
  by (induction xs ys rule: list_induct2) auto

text \<open>
  The half-open range between a string and the same string followed by a greatest byte
  contains only extensions of that string: this is what a prefix scan relies on.
\<close>

lemma prefix_range:
  fixes p k :: "'a::linorder list"
  assumes "p \<le> k" and "k < p @ [b]"
  shows "prefix p k"
  using assms
proof (induction p arbitrary: k)
  case Nil
  then show ?case by simp
next
  case (Cons x p)
  then show ?case by (cases k) (auto simp: le_less split: if_splits)
qed

lemma prefix_le: "prefix p k \<Longrightarrow> (p :: 'a::linorder list) \<le> k"
  by (metis append_Nil2 le_append_same prefixE Nil_le_Cons)

lemma append_separator_eq:
  assumes "c \<notin> set xs" and "c \<notin> set ys" and "xs @ c # us = ys @ c # vs"
  shows "xs = ys \<and> us = vs"
  using assms
proof (induction xs arbitrary: ys)
  case Nil
  then show ?case by (cases ys) auto
next
  case (Cons x xs)
  then show ?case by (cases ys) auto
qed

lemma sorted_le_last: "sorted xs \<Longrightarrow> x \<in> set xs \<Longrightarrow> x \<le> last xs"
  by (induction xs) auto

lemma restrict_map_cong:
  "(\<And>x. x \<in> dom m \<Longrightarrow> x \<in> A \<longleftrightarrow> x \<in> B) \<Longrightarrow> m |` A = m |` B"
proof
  fix x
  assume "\<And>x. x \<in> dom m \<Longrightarrow> x \<in> A \<longleftrightarrow> x \<in> B"
  then show "(m |` A) x = (m |` B) x" by (cases "x \<in> dom m") (auto simp: restrict_map_def domIff)
qed

section \<open>Sum and option results\<close>

lemma Inr_bind_split:
  "(case r of Inl e \<Rightarrow> Inl e | Inr x \<Rightarrow> f x) = Inr y \<longleftrightarrow> (\<exists>x. r = Inr x \<and> f x = Inr y)"
  by (cases r) auto

section \<open>Fixed-width integers\<close>

lemma sint_of_nat_small: "n < 2 ^ 63 \<Longrightarrow> sint (of_nat n :: 64 word) = int n"
  by (simp add: signed_of_nat signed_take_bit_int_eq_self)

lemma unat_less_2_64: "unat (w :: 64 word) < 2 ^ 64"
  using unsigned_less [of w] by simp

lemma unat_plus_one: "(w :: 64 word) \<noteq> - 1 \<Longrightarrow> unat (w + 1) = unat w + 1"
proof -
  assume "w \<noteq> - 1"
  then have "1 + w \<noteq> 0" by (metis add.commute eq_neg_iff_add_eq_0)
  then show ?thesis by (simp add: unatSuc add.commute)
qed

lemma word64_le_plus_one:
  "(w :: 64 word) \<noteq> - 1 \<Longrightarrow> w + 1 \<le> v \<longleftrightarrow> w < v"
  by (simp add: word_le_nat_alt word_less_nat_alt unat_plus_one Suc_le_eq)

lemma sint_range64: "- (2 ^ 63) \<le> sint (w :: 64 word)" "sint (w :: 64 word) < 2 ^ 63"
  using sint_ge [of w] sint_lt [of w] by simp_all

lemma sint_succ: "sint (w :: int64) < 2 ^ 63 - 1 \<Longrightarrow> sint (w + 1) = sint w + 1"
  using sint_range64(1) [of w] by (simp add: sint_word_ariths signed_take_bit_int_eq_self)

end
