(* ===== verification/GoLib.thy ===== *)
theory GoLib
  imports Prelude
begin

text \<open>
  The parts of Go's \<open>strconv\<close>, \<open>fmt\<close> and \<open>strings\<close> packages that the
  program calls: decimal formatting and parsing of 64-bit integers, the zero-padded
  \<open>%020d\<close> verb, and splitting and joining at a separator byte.
\<close>

section \<open>Decimal digits\<close>

definition digit :: "nat \<Rightarrow> char" where
  "digit d = char_of (48 + d)"

definition is_digit :: "char \<Rightarrow> bool" where
  "is_digit c \<longleftrightarrow> CHR ''0'' \<le> c \<and> c \<le> CHR ''9''"

definition digit_val :: "char \<Rightarrow> nat" where
  "digit_val c = of_char c - 48"

lemma of_char_digit: "d < 10 \<Longrightarrow> of_char (digit d) = (48 + d :: nat)"
  by (simp add: digit_def)

lemma is_digit_alt: "is_digit c \<longleftrightarrow> 48 \<le> (of_char c :: nat) \<and> (of_char c :: nat) \<le> 57"
  by (simp add: is_digit_def less_eq_char_def)

lemma is_digit_digit [simp]: "d < 10 \<Longrightarrow> is_digit (digit d)"
  by (simp add: is_digit_alt of_char_digit)

lemma digit_val_digit [simp]: "d < 10 \<Longrightarrow> digit_val (digit d) = d"
  by (simp add: digit_val_def of_char_digit)

lemma digit_less_iff: "a < 10 \<Longrightarrow> b < 10 \<Longrightarrow> digit a < digit b \<longleftrightarrow> a < b"
  by (simp add: less_char_def of_char_digit)

lemma digit_inj: "a < 10 \<Longrightarrow> b < 10 \<Longrightarrow> digit a = digit b \<longleftrightarrow> a = b"
  by (metis digit_val_digit)

lemma is_digit_not_special:
  "is_digit c \<Longrightarrow> c \<noteq> CHR ''/'' \<and> c \<noteq> CHR ''-'' \<and> c \<noteq> CHR ''+'' \<and> c \<noteq> CHR ''.''"
  by (auto simp: is_digit_alt)

section \<open>Formatting\<close>

text \<open>\<open>strconv.FormatUint(n, 10)\<close> on the value of an unsigned integer.\<close>

fun fmt_nat :: "nat \<Rightarrow> string" where
  "fmt_nat n = (if n < 10 then [digit n] else fmt_nat (n div 10) @ [digit (n mod 10)])"

declare fmt_nat.simps [simp del]

definition FormatUint :: "uint64 \<Rightarrow> string" where
  "FormatUint w = fmt_nat (unat w)"

definition fmt_int :: "int \<Rightarrow> string" where
  "fmt_int i = (if i < 0 then CHR ''-'' # fmt_nat (nat (- i)) else fmt_nat (nat i))"

definition FormatInt :: "int64 \<Rightarrow> string" where
  "FormatInt w = fmt_int (sint w)"

text \<open>Left padding with zeros to a width, as the flag \<open>0\<close> of a numeric verb does.\<close>

definition zero_pad :: "nat \<Rightarrow> string \<Rightarrow> string" where
  "zero_pad k s = replicate (k - length s) CHR ''0'' @ s"

text \<open>\<open>fmt.Sprintf("%020d", n)\<close> for an unsigned and for a signed argument.\<close>

definition fmt020u :: "uint64 \<Rightarrow> string" where
  "fmt020u w = zero_pad 20 (fmt_nat (unat w))"

definition fmt020d :: "int64 \<Rightarrow> string" where
  "fmt020d w =
     (if sint w < 0 then CHR ''-'' # zero_pad 19 (fmt_nat (nat (- sint w)))
      else zero_pad 20 (fmt_nat (nat (sint w))))"

section \<open>Parsing\<close>

definition digits_val :: "string \<Rightarrow> nat" where
  "digits_val s = foldl (\<lambda>a c. 10 * a + digit_val c) 0 s"

definition all_digits :: "string \<Rightarrow> bool" where
  "all_digits s \<longleftrightarrow> s \<noteq> [] \<and> list_all is_digit s"

text \<open>
  \<open>strconv.ParseUint(s, 10, 64)\<close>: digits only, no sign, no underscore; a value that does
  not fit is a range error.
\<close>

definition ParseUint :: "string \<Rightarrow> uint64 res" where
  "ParseUint s =
     (if \<not> all_digits s then Inl (NumError ''ParseUint'' s ErrSyntax)
      else if 2 ^ 64 \<le> digits_val s then Inl (NumError ''ParseUint'' s ErrRange)
      else Inr (of_nat (digits_val s)))"

text \<open>\<open>strconv.ParseInt(s, 10, 64)\<close>: an optional sign before the digits.\<close>

definition strip_sign :: "string \<Rightarrow> bool \<times> string" where
  "strip_sign s =
     (case s of [] \<Rightarrow> (False, [])
      | c # cs \<Rightarrow> if c = CHR ''-'' then (True, cs)
                  else if c = CHR ''+'' then (False, cs) else (False, c # cs))"

definition ParseInt :: "string \<Rightarrow> int64 res" where
  "ParseInt s =
     (case strip_sign s of (neg, ds) \<Rightarrow>
        if \<not> all_digits ds then Inl (NumError ''ParseInt'' s ErrSyntax)
        else if \<not> neg \<and> 2 ^ 63 \<le> digits_val ds then Inl (NumError ''ParseInt'' s ErrRange)
        else if neg \<and> 2 ^ 63 < digits_val ds then Inl (NumError ''ParseInt'' s ErrRange)
        else Inr (word_of_int (if neg then - int (digits_val ds) else int (digits_val ds))))"

section \<open>Splitting and joining\<close>

text \<open>\<open>strings.Split(s, sep)\<close> for a one-byte separator: never the empty list.\<close>

fun split_on :: "char \<Rightarrow> string \<Rightarrow> string list" where
  "split_on c [] = [[]]"
| "split_on c (x # xs) =
     (if x = c then [] # split_on c xs
      else (case split_on c xs of [] \<Rightarrow> [[x]] | p # ps \<Rightarrow> (x # p) # ps))"

text \<open>
  \<open>strings.Join(parts, sep)\<close> for a one-byte separator (on lists of any kind: the JSON
  printer joins bytes and its correctness proof joins tokens).
\<close>

fun join_with :: "'a \<Rightarrow> 'a list list \<Rightarrow> 'a list" where
  "join_with c [] = []"
| "join_with c [p] = p"
| "join_with c (p # q # ps) = p @ c # join_with c (q # ps)"

section \<open>Facts on digits and numbers\<close>

lemma fmt_nat_nonempty [simp]: "fmt_nat n \<noteq> []"
  by (subst fmt_nat.simps) simp

lemma fmt_nat_digits: "list_all is_digit (fmt_nat n)"
proof (induction n rule: fmt_nat.induct)
  case (1 n)
  then show ?case by (subst fmt_nat.simps) simp
qed

lemma digits_val_snoc [simp]: "digits_val (s @ [c]) = 10 * digits_val s + digit_val c"
  by (simp add: digits_val_def)

lemma digits_val_fmt_nat [simp]: "digits_val (fmt_nat n) = n"
proof (induction n rule: fmt_nat.induct)
  case (1 n)
  show ?case
  proof (cases "n < 10")
    case True
    then show ?thesis by (subst fmt_nat.simps) (simp add: digits_val_def)
  next
    case False
    with 1 show ?thesis by (subst fmt_nat.simps) simp
  qed
qed

lemma all_digits_fmt_nat [simp]: "all_digits (fmt_nat n)"
  by (simp add: all_digits_def fmt_nat_digits)

lemma length_fmt_nat_le: "n < 10 ^ k \<Longrightarrow> 0 < k \<Longrightarrow> length (fmt_nat n) \<le> k"
proof (induction k arbitrary: n)
  case 0
  then show ?case by simp
next
  case (Suc k)
  show ?case
  proof (cases "n < 10")
    case True
    then show ?thesis by (subst fmt_nat.simps) simp
  next
    case False
    with Suc.prems have "0 < k" by (cases k) auto
    moreover have "n div 10 < 10 ^ k" using Suc.prems by (simp add: less_mult_imp_div_less mult.commute)
    ultimately have "length (fmt_nat (n div 10)) \<le> k" by (rule Suc.IH [rotated])
    with False show ?thesis by (subst fmt_nat.simps) simp
  qed
qed

text \<open>
  A decimal of fixed width, most significant digit first: the shape that zero padding
  produces and whose bytewise order is the numeric order.
\<close>

fun fixed_width :: "nat \<Rightarrow> nat \<Rightarrow> string" where
  "fixed_width 0 n = []"
| "fixed_width (Suc k) n = fixed_width k (n div 10) @ [digit (n mod 10)]"

lemma length_fixed_width [simp]: "length (fixed_width k n) = k"
  by (induction k arbitrary: n) auto

lemma digit_0: "digit 0 = CHR ''0''"
  by code_simp

lemma fixed_width_zero: "fixed_width k 0 = replicate k CHR ''0''"
  by (induction k) (auto simp: digit_0 replicate_append_same)

lemma zero_pad_fixed_width:
  "n < 10 ^ k \<Longrightarrow> 0 < k \<Longrightarrow> zero_pad k (fmt_nat n) = fixed_width k n"
proof (induction k arbitrary: n)
  case 0
  then show ?case by simp
next
  case (Suc k)
  show ?case
  proof (cases "n < 10")
    case True
    then show ?thesis
      by (subst fmt_nat.simps) (simp add: zero_pad_def fixed_width_zero)
  next
    case False
    with Suc.prems have k: "0 < k" by (cases k) auto
    have "n div 10 < 10 ^ k"
      using Suc.prems by (simp add: less_mult_imp_div_less mult.commute)
    then have "zero_pad k (fmt_nat (n div 10)) = fixed_width k (n div 10)"
      using k by (rule Suc.IH)
    with False show ?thesis
      by (subst fmt_nat.simps) (simp add: zero_pad_def)
  qed
qed

lemma fixed_width_digits: "list_all is_digit (fixed_width k n)"
  by (induction k arbitrary: n) auto

lemma digits_val_fixed_width: "n < 10 ^ k \<Longrightarrow> digits_val (fixed_width k n) = n"
proof (induction k arbitrary: n)
  case 0
  then show ?case by (simp add: digits_val_def)
next
  case (Suc k)
  then have "n div 10 < 10 ^ k" by (simp add: less_mult_imp_div_less mult.commute)
  with Suc.IH show ?case by simp
qed

lemma less_by_digits: "(n::nat) < m \<longleftrightarrow> n div 10 < m div 10 \<or> n div 10 = m div 10 \<and> n mod 10 < m mod 10"
proof -
  have "n = 10 * (n div 10) + n mod 10" "m = 10 * (m div 10) + m mod 10" by simp_all
  moreover have "n mod 10 < 10" "m mod 10 < 10" by simp_all
  ultimately show ?thesis by linarith
qed

lemma fixed_width_less_iff:
  "n < 10 ^ k \<Longrightarrow> m < 10 ^ k \<Longrightarrow> fixed_width k n < fixed_width k m \<longleftrightarrow> n < m"
proof (induction k arbitrary: n m)
  case 0
  then show ?case by simp
next
  case (Suc k)
  then have d: "n div 10 < 10 ^ k" "m div 10 < 10 ^ k"
    by (simp_all add: less_mult_imp_div_less mult.commute)
  have eq: "fixed_width k (n div 10) = fixed_width k (m div 10) \<longleftrightarrow> n div 10 = m div 10"
    using d by (metis digits_val_fixed_width)
  have "fixed_width (Suc k) n < fixed_width (Suc k) m \<longleftrightarrow>
      n div 10 < m div 10 \<or> n div 10 = m div 10 \<and> n mod 10 < m mod 10"
    using Suc.IH [OF d] eq by (simp add: less_snoc_iff digit_less_iff)
  also have "\<dots> \<longleftrightarrow> n < m"
    by (rule less_by_digits [symmetric])
  finally show ?case .
qed

section \<open>Facts on formatting and parsing\<close>

lemma unat_less_10_20: "unat (w :: 64 word) < 10 ^ 20"
  using unat_less_2_64 [of w] by simp

lemma fmt020u_fixed: "fmt020u w = fixed_width 20 (unat w)"
  by (simp add: fmt020u_def zero_pad_fixed_width unat_less_10_20 del: power_numeral)

lemma length_fmt020u [simp]: "length (fmt020u w) = 20"
  by (simp add: fmt020u_fixed)

lemma fmt020u_digits: "list_all is_digit (fmt020u w)"
  by (simp add: fmt020u_fixed fixed_width_digits)

lemma fmt020u_less_iff [key_simps]: "fmt020u v < fmt020u w \<longleftrightarrow> v < w"
  by (simp add: fmt020u_fixed fixed_width_less_iff unat_less_10_20 word_less_nat_alt
      del: power_numeral)

lemma fmt020u_inj [key_simps]: "fmt020u v = fmt020u w \<longleftrightarrow> v = w"
  by (metis fmt020u_less_iff less_irrefl neqE)

lemma fmt020u_le_iff [key_simps]: "fmt020u v \<le> fmt020u w \<longleftrightarrow> v \<le> w"
  by (meson fmt020u_less_iff linorder_not_less)

lemma ParseUint_digits:
  "all_digits s \<Longrightarrow> digits_val s < 2 ^ 64 \<Longrightarrow> ParseUint s = Inr (of_nat (digits_val s))"
  by (simp add: ParseUint_def)

lemma ParseUint_fmt020u [simp]: "ParseUint (fmt020u w) = Inr w"
proof -
  have v: "digits_val (fmt020u w) = unat w"
    by (simp add: fmt020u_fixed digits_val_fixed_width unat_less_10_20 del: power_numeral)
  have "all_digits (fmt020u w)"
    using length_fmt020u [of w] fmt020u_digits [of w]
    by (metis all_digits_def list.size(3) zero_neq_numeral)
  moreover have "digits_val (fmt020u w) < 2 ^ 64" using v unat_less_2_64 by simp
  ultimately show ?thesis using v by (simp add: ParseUint_digits)
qed

lemma ParseUint_FormatUint [simp]: "ParseUint (FormatUint w) = Inr w"
  using unat_less_2_64 [of w] by (simp add: FormatUint_def ParseUint_def)

lemma all_digits_no_sign: "all_digits s \<Longrightarrow> strip_sign s = (False, s)"
  by (cases s) (auto simp: all_digits_def strip_sign_def dest: is_digit_not_special)

lemma ParseInt_FormatInt [simp]: "ParseInt (FormatInt w) = Inr w"
proof (cases "sint w < 0")
  case True
  then show ?thesis
    using sint_range64(1) [of w]
    by (simp add: ParseInt_def FormatInt_def fmt_int_def strip_sign_def)
next
  case False
  then show ?thesis
    using sint_range64(2) [of w]
    by (simp add: ParseInt_def FormatInt_def fmt_int_def all_digits_no_sign)
qed

lemma nat_sint_less_10_20: "nat (sint (w :: 64 word)) < 10 ^ 20"
  using sint_range64(2) [of w] by simp

lemma fmt020d_nonneg: "0 \<le> sint w \<Longrightarrow> fmt020d w = fixed_width 20 (nat (sint w))"
  using zero_pad_fixed_width [OF nat_sint_less_10_20 [of w]] by (simp add: fmt020d_def)

lemma fmt020d_digits: "0 \<le> sint w \<Longrightarrow> list_all is_digit (fmt020d w)"
  by (simp add: fmt020d_nonneg fixed_width_digits)

lemma length_fmt020d: "0 \<le> sint w \<Longrightarrow> length (fmt020d w) = 20"
  by (simp add: fmt020d_nonneg)

lemma fmt020d_less_iff [key_simps]:
  "0 \<le> sint v \<Longrightarrow> 0 \<le> sint w \<Longrightarrow> fmt020d v < fmt020d w \<longleftrightarrow> sint v < sint w"
  using fixed_width_less_iff [OF nat_sint_less_10_20 [of v] nat_sint_less_10_20 [of w]]
  by (auto simp: fmt020d_nonneg)

lemma ParseInt_fmt020d: "0 \<le> sint w \<Longrightarrow> ParseInt (fmt020d w) = Inr w"
proof -
  assume nn: "0 \<le> sint w"
  have v: "digits_val (fmt020d w) = nat (sint w)"
    using nn digits_val_fixed_width [OF nat_sint_less_10_20 [of w]] by (simp add: fmt020d_nonneg)
  have "all_digits (fmt020d w)"
    using fmt020d_digits [OF nn] length_fmt020d [OF nn]
    by (metis all_digits_def list.size(3) zero_neq_numeral)
  then show ?thesis
    using nn v sint_range64(2) [of w]
    by (simp add: ParseInt_def all_digits_no_sign)
qed

lemma digits_no_slash: "list_all is_digit s \<Longrightarrow> CHR ''/'' \<notin> set s"
  by (auto simp: list_all_iff dest: is_digit_not_special)

section \<open>Facts on splitting and joining\<close>

lemma split_on_nonempty [simp]: "split_on c s \<noteq> []"
  by (cases s) (auto split: list.splits)

lemma split_on_no_sep: "c \<notin> set s \<Longrightarrow> split_on c s = [s]"
  by (induction s) auto

lemma split_on_append [simp]: "c \<notin> set a \<Longrightarrow> split_on c (a @ c # b) = a # split_on c b"
  by (induction a) auto

lemma split_on_Cons_sep [simp]: "split_on c (c # b) = [] # split_on c b"
  by simp

lemma join_split_on: "join_with c (split_on c s) = s"
proof (induction s)
  case Nil
  then show ?case by simp
next
  case (Cons x s)
  obtain p ps where p: "split_on c s = p # ps" by (meson neq_Nil_conv split_on_nonempty)
  show ?case
  proof (cases "x = c")
    case True
    with Cons p show ?thesis by simp
  next
    case False
    with Cons p show ?thesis by (cases ps) auto
  qed
qed

lemma length_split_on: "length (split_on c s) = Suc (count_list s c)"
  by (induction s) (auto split: list.splits)

end
