(* ===== verification/GoJson.thy ===== *)
theory GoJson
  imports GoLib
begin

text \<open>
  The parts of Go's \<open>encoding/json\<close> that the program relies on: the text that
  \<open>json.Marshal\<close> writes (with its HTML-safe and UTF-8 escaping), the language that
  \<open>json.Unmarshal\<close> accepts (numbers, escapes and surrogates, white space, the nesting
  limit), and the way a JSON value is stored into a Go variable of a given type.
  The main result is that reading what was written gives the value back.
\<close>

datatype json =
    JNull
  | JBool bool
  | JNum string
  | JStr string
  | JArr "json list"
  | JObj "(string \<times> json) list"

section \<open>UTF-8\<close>

definition byte_in :: "nat \<Rightarrow> nat \<Rightarrow> char \<Rightarrow> bool" where
  "byte_in lo hi c \<longleftrightarrow> lo \<le> of_char c \<and> of_char c \<le> hi"

definition utf8_cont :: "char \<Rightarrow> bool" where
  "utf8_cont c \<longleftrightarrow> byte_in 0x80 0xBF c"

definition utf8_start3 :: "char \<Rightarrow> char \<Rightarrow> bool" where
  "utf8_start3 a b \<longleftrightarrow>
     byte_in 0xE0 0xE0 a \<and> byte_in 0xA0 0xBF b
   \<or> (byte_in 0xE1 0xEC a \<or> byte_in 0xEE 0xEF a) \<and> utf8_cont b
   \<or> byte_in 0xED 0xED a \<and> byte_in 0x80 0x9F b"

definition utf8_start4 :: "char \<Rightarrow> char \<Rightarrow> bool" where
  "utf8_start4 a b \<longleftrightarrow>
     byte_in 0xF0 0xF0 a \<and> byte_in 0x90 0xBF b
   \<or> byte_in 0xF1 0xF3 a \<and> utf8_cont b
   \<or> byte_in 0xF4 0xF4 a \<and> byte_in 0x80 0x8F b"

text \<open>
  The size in bytes of the multi-byte character that a string starts with, 0 where
  \<open>utf8.DecodeRune\<close> reports an invalid encoding.
\<close>

definition utf8_size :: "bytes \<Rightarrow> nat" where
  "utf8_size s =
     (if 2 \<le> length s \<and> byte_in 0xC2 0xDF (s ! 0) \<and> utf8_cont (s ! 1) then 2
      else if 3 \<le> length s \<and> utf8_start3 (s ! 0) (s ! 1) \<and> utf8_cont (s ! 2) then 3
      else if 4 \<le> length s \<and> utf8_start4 (s ! 0) (s ! 1) \<and> utf8_cont (s ! 2) \<and> utf8_cont (s ! 3)
      then 4
      else 0)"

definition is_ascii :: "char \<Rightarrow> bool" where
  "is_ascii c \<longleftrightarrow> of_char c < (128 :: nat)"

function utf8_valid :: "bytes \<Rightarrow> bool" where
  "utf8_valid [] = True"
| "utf8_valid (c # cs) =
     (if is_ascii c then utf8_valid cs
      else if utf8_size (c # cs) = 0 then False
      else utf8_valid (drop (utf8_size (c # cs)) (c # cs)))"
  by pat_completeness auto
termination
  by (relation "measure length") auto

definition utf8_encode :: "nat \<Rightarrow> bytes" where
  "utf8_encode r =
     (if r < 0x80 then [char_of r]
      else if r < 0x800 then [char_of (0xC0 + r div 64), char_of (0x80 + r mod 64)]
      else if r < 0x10000
      then [char_of (0xE0 + r div 4096), char_of (0x80 + (r div 64) mod 64), char_of (0x80 + r mod 64)]
      else [char_of (0xF0 + r div 262144), char_of (0x80 + (r div 4096) mod 64),
            char_of (0x80 + (r div 64) mod 64), char_of (0x80 + r mod 64)])"

definition replacement_char :: bytes where
  "replacement_char = [CHR 0xEF, CHR 0xBF, CHR 0xBD]"

section \<open>Writing\<close>

definition hex_char :: "nat \<Rightarrow> char" where
  "hex_char n = (if n < 10 then char_of (48 + n) else char_of (87 + n))"

definition esc_ascii :: "char \<Rightarrow> string" where
  "esc_ascii c =
     (if c = CHR 0x22 \<or> c = CHR 0x5C then [CHR 0x5C, c]
      else if c = CHR 0x08 then [CHR 0x5C, CHR ''b'']
      else if c = CHR 0x0C then [CHR 0x5C, CHR ''f'']
      else if c = CHR 0x0A then [CHR 0x5C, CHR ''n'']
      else if c = CHR 0x0D then [CHR 0x5C, CHR ''r'']
      else if c = CHR 0x09 then [CHR 0x5C, CHR ''t'']
      else if of_char c < (32 :: nat) \<or> c = CHR ''<'' \<or> c = CHR ''>'' \<or> c = CHR ''&''
      then [CHR 0x5C, CHR ''u'', CHR ''0'', CHR ''0'', hex_char (of_char c div 16), hex_char (of_char c mod 16)]
      else [c])"

definition esc_rune :: "bytes \<Rightarrow> string" where
  "esc_rune r =
     (if r = [CHR 0xE2, CHR 0x80, CHR 0xA8] then CHR 0x5C # ''u2028''
      else if r = [CHR 0xE2, CHR 0x80, CHR 0xA9] then CHR 0x5C # ''u2029''
      else r)"

function json_escape :: "bytes \<Rightarrow> string" where
  "json_escape [] = []"
| "json_escape (c # cs) =
     (if is_ascii c then esc_ascii c @ json_escape cs
      else if utf8_size (c # cs) = 0 then (CHR 0x5C # ''ufffd'') @ json_escape cs
      else esc_rune (take (utf8_size (c # cs)) (c # cs))
           @ json_escape (drop (utf8_size (c # cs)) (c # cs)))"
  by pat_completeness auto
termination
  by (relation "measure length") auto

definition json_quote :: "bytes \<Rightarrow> string" where
  "json_quote s = CHR 0x22 # json_escape s @ [CHR 0x22]"

fun json_print :: "json \<Rightarrow> string" where
  "json_print JNull = ''null''"
| "json_print (JBool b) = (if b then ''true'' else ''false'')"
| "json_print (JNum s) = s"
| "json_print (JStr s) = json_quote s"
| "json_print (JArr xs) = CHR ''['' # join_with CHR '','' (map json_print xs) @ '']''"
| "json_print (JObj kvs) =
     CHR ''{'' # join_with CHR '','' (map (\<lambda>(k, v). json_quote k @ CHR '':'' # json_print v) kvs) @ ''}''"

section \<open>Reading: tokens\<close>

datatype token =
    TLBrace | TRBrace | TLBrack | TRBrack | TComma | TColon
  | TTrue | TFalse | TNull | TStr string | TNum string

definition hex_val :: "char \<Rightarrow> nat option" where
  "hex_val c =
     (if is_digit c then Some (of_char c - 48)
      else if CHR ''a'' \<le> c \<and> c \<le> CHR ''f'' then Some (of_char c - 87)
      else if CHR ''A'' \<le> c \<and> c \<le> CHR ''F'' then Some (of_char c - 55)
      else None)"

definition hex4 :: "string \<Rightarrow> nat option" where
  "hex4 s =
     (case s of a # b # c # d # _ \<Rightarrow>
        (case (hex_val a, hex_val b, hex_val c, hex_val d) of
           (Some w, Some x, Some y, Some z) \<Rightarrow> Some (4096 * w + 256 * x + 16 * y + z)
         | _ \<Rightarrow> None)
      | _ \<Rightarrow> None)"

definition low_surrogate :: "string \<Rightarrow> nat option" where
  "low_surrogate s =
     (case s of a # b # r \<Rightarrow>
        if a = CHR 0x5C \<and> b = CHR ''u''
        then (case hex4 r of
                None \<Rightarrow> None
              | Some v \<Rightarrow> if 0xDC00 \<le> v \<and> v < 0xE000 then Some v else None)
        else None
      | _ \<Rightarrow> None)"

text \<open>
  One escape sequence, after its backslash. A surrogate that is not followed by its other
  half reads as the replacement character.
\<close>

definition unescape_u :: "string \<Rightarrow> (bytes \<times> string) option" where
  "unescape_u r =
     (case hex4 r of
        None \<Rightarrow> None
      | Some rr \<Rightarrow>
          if 0xD800 \<le> rr \<and> rr < 0xDC00 then
            (case low_surrogate (drop 4 r) of
               None \<Rightarrow> Some (replacement_char, drop 4 r)
             | Some lo \<Rightarrow> Some (utf8_encode (0x10000 + (rr - 0xD800) * 1024 + (lo - 0xDC00)), drop 10 r))
          else if 0xDC00 \<le> rr \<and> rr < 0xE000 then Some (replacement_char, drop 4 r)
          else Some (utf8_encode rr, drop 4 r))"

definition unescape :: "string \<Rightarrow> (bytes \<times> string) option" where
  "unescape s =
     (case s of [] \<Rightarrow> None
      | e # r \<Rightarrow>
          if e = CHR 0x22 \<or> e = CHR 0x5C \<or> e = CHR ''/'' then Some ([e], r)
          else if e = CHR ''b'' then Some ([CHR 0x08], r)
          else if e = CHR ''f'' then Some ([CHR 0x0C], r)
          else if e = CHR ''n'' then Some ([CHR 0x0A], r)
          else if e = CHR ''r'' then Some ([CHR 0x0D], r)
          else if e = CHR ''t'' then Some ([CHR 0x09], r)
          else if e = CHR ''u'' then unescape_u r
          else None)"

lemma unescape_u_shorter: "unescape_u s = Some (out, r) \<Longrightarrow> length r \<le> length s"
  by (auto simp: unescape_u_def split: option.splits if_splits)

lemma unescape_shorter: "unescape s = Some (out, r) \<Longrightarrow> length r < length s"
  by (auto simp: unescape_def dest!: unescape_u_shorter split: list.splits if_splits)

definition prepend_out :: "bytes \<Rightarrow> (bytes \<times> string) option \<Rightarrow> (bytes \<times> string) option" where
  "prepend_out out m = (case m of None \<Rightarrow> None | Some (s, r) \<Rightarrow> Some (out @ s, r))"

lemma prepend_out_simps [simp]:
  "prepend_out out None = None" "prepend_out out (Some (s, r)) = Some (out @ s, r)"
  by (simp_all add: prepend_out_def)

lemma prepend_out_Some [simp]:
  "prepend_out out m = Some (s, r) \<longleftrightarrow> (\<exists>t. m = Some (t, r) \<and> s = out @ t)"
  by (auto simp: prepend_out_def split: option.splits)

text \<open>The contents of a string literal, after its opening quote, and what follows it.\<close>

function lex_str :: "string \<Rightarrow> (bytes \<times> string) option" where
  "lex_str [] = None"
| "lex_str (c # cs) =
     (if c = CHR 0x22 then Some ([], cs)
      else if c = CHR 0x5C then
        (case unescape cs of None \<Rightarrow> None | Some (out, r) \<Rightarrow> prepend_out out (lex_str r))
      else if of_char c < (32 :: nat) then None
      else if is_ascii c then prepend_out [c] (lex_str cs)
      else if utf8_size (c # cs) = 0 then prepend_out replacement_char (lex_str cs)
      else prepend_out (take (utf8_size (c # cs)) (c # cs))
             (lex_str (drop (utf8_size (c # cs)) (c # cs))))"
  by pat_completeness auto
termination
  by (relation "measure length") (auto dest: unescape_shorter)

lemma lex_str_shorter: "lex_str s = Some (t, r) \<Longrightarrow> length r < length s"
proof (induction s arbitrary: t r rule: lex_str.induct)
  case 1
  then show ?case by simp
next
  case (2 c cs)
  then show ?case
    by (fastforce split: if_splits option.splits prod.splits dest: unescape_shorter)
qed

text \<open>Numbers follow the JSON grammar: sign, integer part, fraction, exponent.\<close>

definition lex_int_part :: "string \<Rightarrow> (string \<times> string) option" where
  "lex_int_part s =
     (case s of [] \<Rightarrow> None
      | d # ds \<Rightarrow>
          if d = CHR ''0'' then Some ([d], ds)
          else if is_digit d then Some (d # takeWhile is_digit ds, dropWhile is_digit ds)
          else None)"

definition lex_digits1 :: "string \<Rightarrow> (string \<times> string) option" where
  "lex_digits1 s = (if takeWhile is_digit s = [] then None
                    else Some (takeWhile is_digit s, dropWhile is_digit s))"

definition lex_frac :: "string \<Rightarrow> (string \<times> string) option" where
  "lex_frac s =
     (case s of c # cs \<Rightarrow> if c = CHR ''.'' then prepend_out [c] (lex_digits1 cs) else Some ([], s)
      | [] \<Rightarrow> Some ([], []))"

definition lex_exp :: "string \<Rightarrow> (string \<times> string) option" where
  "lex_exp s =
     (case s of [] \<Rightarrow> Some ([], [])
      | c # cs \<Rightarrow>
          if c = CHR ''e'' \<or> c = CHR ''E'' then
            (case cs of [] \<Rightarrow> None
             | d # ds \<Rightarrow> if d = CHR ''+'' \<or> d = CHR ''-'' then prepend_out [c, d] (lex_digits1 ds)
                         else prepend_out [c] (lex_digits1 cs))
          else Some ([], s))"

definition lex_num :: "string \<Rightarrow> (string \<times> string) option" where
  "lex_num s =
     (let (sg, s1) = (case s of c # cs \<Rightarrow> if c = CHR ''-'' then ([c], cs) else ([], s) | [] \<Rightarrow> ([], []))
      in case lex_int_part s1 of None \<Rightarrow> None
         | Some (ip, s2) \<Rightarrow> (case lex_frac s2 of None \<Rightarrow> None
           | Some (fr, s3) \<Rightarrow> (case lex_exp s3 of None \<Rightarrow> None
             | Some (ex, s4) \<Rightarrow> Some (sg @ ip @ fr @ ex, s4))))"

lemma lex_digits1_shorter: "lex_digits1 s = Some (t, r) \<Longrightarrow> length r \<le> length s"
  by (auto simp: lex_digits1_def length_dropWhile_le split: if_splits)

lemma lex_int_part_shorter: "lex_int_part s = Some (t, r) \<Longrightarrow> length r < length s"
  by (auto simp: lex_int_part_def less_Suc_eq_le length_dropWhile_le split: list.splits if_splits)

lemma lex_frac_shorter: "lex_frac s = Some (t, r) \<Longrightarrow> length r \<le> length s"
  by (auto simp: lex_frac_def dest!: lex_digits1_shorter split: list.splits if_splits)

lemma lex_exp_shorter: "lex_exp s = Some (t, r) \<Longrightarrow> length r \<le> length s"
  by (auto simp: lex_exp_def dest!: lex_digits1_shorter split: list.splits if_splits)

lemma lex_num_shorter: "lex_num s = Some (t, r) \<Longrightarrow> length r < length s"
  by (fastforce simp: lex_num_def dest: lex_int_part_shorter lex_frac_shorter lex_exp_shorter
      split: list.splits if_splits option.splits prod.splits)

definition is_ws :: "char \<Rightarrow> bool" where
  "is_ws c \<longleftrightarrow> c = CHR '' '' \<or> c = CHR 0x09 \<or> c = CHR 0x0D \<or> c = CHR 0x0A"

definition punct :: "char \<Rightarrow> token option" where
  "punct c =
     (if c = CHR ''{'' then Some TLBrace else if c = CHR ''}'' then Some TRBrace
      else if c = CHR ''['' then Some TLBrack else if c = CHR '']'' then Some TRBrack
      else if c = CHR '','' then Some TComma else if c = CHR '':'' then Some TColon else None)"

definition keyword :: "string \<Rightarrow> (token \<times> nat) option" where
  "keyword s =
     (if take 4 s = ''true'' then Some (TTrue, 4)
      else if take 5 s = ''false'' then Some (TFalse, 5)
      else if take 4 s = ''null'' then Some (TNull, 4) else None)"

definition cons_tok :: "token \<Rightarrow> token list option \<Rightarrow> token list option" where
  "cons_tok t = map_option ((#) t)"

function lex :: "string \<Rightarrow> token list option" where
  "lex [] = Some []"
| "lex (c # cs) =
     (if is_ws c then lex cs
      else case punct c of Some t \<Rightarrow> cons_tok t (lex cs)
      | None \<Rightarrow>
        (if c = CHR 0x22 then
           (case lex_str cs of None \<Rightarrow> None | Some (s, r) \<Rightarrow> cons_tok (TStr s) (lex r))
         else if c = CHR ''-'' \<or> is_digit c then
           (case lex_num (c # cs) of None \<Rightarrow> None | Some (n, r) \<Rightarrow> cons_tok (TNum n) (lex r))
         else
           (case keyword (c # cs) of None \<Rightarrow> None
            | Some (t, n) \<Rightarrow> cons_tok t (lex (drop (n - 1) cs)))))"
  by pat_completeness auto
termination
  by (relation "measure length") (auto dest: lex_str_shorter lex_num_shorter)

section \<open>Reading: values\<close>

text \<open>
  The value parser is a machine over tokens with a stack of open containers, like Go's
  scanner; a container deeper than the nesting limit is an error.
\<close>

datatype frame =
    FArr "json list"
  | FObj "(string \<times> json) list"
  | FKey "(string \<times> json) list" string

datatype pmode = PVal | PArr0 | PArrNext | PObj0 | PKey | PColon | PObjNext | PEnd json

definition max_nesting :: nat where
  "max_nesting = 10000"

definition deliver :: "json \<Rightarrow> frame list \<Rightarrow> (pmode \<times> frame list) option" where
  "deliver v fs =
     (case fs of
        [] \<Rightarrow> Some (PEnd v, [])
      | FArr xs # r \<Rightarrow> Some (PArrNext, FArr (xs @ [v]) # r)
      | FKey kvs k # r \<Rightarrow> Some (PObjNext, FObj (kvs @ [(k, v)]) # r)
      | FObj _ # _ \<Rightarrow> None)"

definition open_frame :: "pmode \<Rightarrow> frame \<Rightarrow> frame list \<Rightarrow> (pmode \<times> frame list) option" where
  "open_frame m f fs = (if length fs < max_nesting then Some (m, f # fs) else None)"

definition start_value :: "frame list \<Rightarrow> token \<Rightarrow> (pmode \<times> frame list) option" where
  "start_value fs t =
     (case t of
        TNull \<Rightarrow> deliver JNull fs
      | TTrue \<Rightarrow> deliver (JBool True) fs
      | TFalse \<Rightarrow> deliver (JBool False) fs
      | TNum s \<Rightarrow> deliver (JNum s) fs
      | TStr s \<Rightarrow> deliver (JStr s) fs
      | TLBrack \<Rightarrow> open_frame PArr0 (FArr []) fs
      | TLBrace \<Rightarrow> open_frame PObj0 (FObj []) fs
      | _ \<Rightarrow> None)"

definition json_step :: "pmode \<times> frame list \<Rightarrow> token \<Rightarrow> (pmode \<times> frame list) option" where
  "json_step st t =
     (case st of
        (PVal, fs) \<Rightarrow> start_value fs t
      | (PArr0, FArr xs # fs) \<Rightarrow>
          if t = TRBrack then deliver (JArr xs) fs else start_value (FArr xs # fs) t
      | (PArrNext, FArr xs # fs) \<Rightarrow>
          if t = TRBrack then deliver (JArr xs) fs
          else if t = TComma then Some (PVal, FArr xs # fs) else None
      | (PObj0, FObj kvs # fs) \<Rightarrow>
          if t = TRBrace then deliver (JObj kvs) fs
          else (case t of TStr k \<Rightarrow> Some (PColon, FKey kvs k # fs) | _ \<Rightarrow> None)
      | (PKey, FObj kvs # fs) \<Rightarrow> (case t of TStr k \<Rightarrow> Some (PColon, FKey kvs k # fs) | _ \<Rightarrow> None)
      | (PColon, fs) \<Rightarrow> if t = TColon then Some (PVal, fs) else None
      | (PObjNext, FObj kvs # fs) \<Rightarrow>
          if t = TRBrace then deliver (JObj kvs) fs
          else if t = TComma then Some (PKey, FObj kvs # fs) else None
      | _ \<Rightarrow> None)"

fun json_run :: "pmode \<times> frame list \<Rightarrow> token list \<Rightarrow> (pmode \<times> frame list) option" where
  "json_run st [] = Some st"
| "json_run st (t # ts) = (case json_step st t of None \<Rightarrow> None | Some st' \<Rightarrow> json_run st' ts)"

definition json_parse :: "bytes \<Rightarrow> json option" where
  "json_parse s =
     (case lex s of
        None \<Rightarrow> None
      | Some ts \<Rightarrow> (case json_run (PVal, []) ts of Some (PEnd v, _) \<Rightarrow> Some v | _ \<Rightarrow> None))"

section \<open>Storing a value into a Go variable\<close>

text \<open>
  \<open>json.Unmarshal\<close> into a variable that already holds a value: \<open>null\<close> leaves a
  number, a string, a boolean or a struct as it is and makes a pointer nil; a value of the
  wrong kind, or a number that the type cannot hold, is an error. Object keys are matched to
  field names without regard to case; unknown keys are ignored and later keys win.
\<close>

definition dec_int :: "int64 \<Rightarrow> json \<Rightarrow> int64 option" where
  "dec_int cur j =
     (case j of JNull \<Rightarrow> Some cur
      | JNum s \<Rightarrow> (case ParseInt s of Inl _ \<Rightarrow> None | Inr v \<Rightarrow> Some v)
      | _ \<Rightarrow> None)"

definition dec_uint :: "uint64 \<Rightarrow> json \<Rightarrow> uint64 option" where
  "dec_uint cur j =
     (case j of JNull \<Rightarrow> Some cur
      | JNum s \<Rightarrow> (case ParseUint s of Inl _ \<Rightarrow> None | Inr v \<Rightarrow> Some v)
      | _ \<Rightarrow> None)"

definition dec_str :: "string \<Rightarrow> json \<Rightarrow> string option" where
  "dec_str cur j = (case j of JNull \<Rightarrow> Some cur | JStr s \<Rightarrow> Some s | _ \<Rightarrow> None)"

definition dec_bool :: "bool \<Rightarrow> json \<Rightarrow> bool option" where
  "dec_bool cur j = (case j of JNull \<Rightarrow> Some cur | JBool b \<Rightarrow> Some b | _ \<Rightarrow> None)"

definition dec_ptr :: "'a \<Rightarrow> ('a \<Rightarrow> json \<Rightarrow> 'a option) \<Rightarrow> 'a option \<Rightarrow> json \<Rightarrow> 'a option option" where
  "dec_ptr zero d cur j =
     (case j of JNull \<Rightarrow> Some None
      | _ \<Rightarrow> map_option Some (d (case cur of None \<Rightarrow> zero | Some x \<Rightarrow> x) j))"

fun dec_fields :: "('a \<Rightarrow> string \<Rightarrow> json \<Rightarrow> 'a option) \<Rightarrow> 'a \<Rightarrow> (string \<times> json) list \<Rightarrow> 'a option" where
  "dec_fields f x [] = Some x"
| "dec_fields f x ((k, v) # kvs) = (case f x k v of None \<Rightarrow> None | Some y \<Rightarrow> dec_fields f y kvs)"

definition dec_struct :: "('a \<Rightarrow> string \<Rightarrow> json \<Rightarrow> 'a option) \<Rightarrow> 'a \<Rightarrow> json \<Rightarrow> 'a option" where
  "dec_struct f cur j =
     (case j of JNull \<Rightarrow> Some cur | JObj kvs \<Rightarrow> dec_fields f cur kvs | _ \<Rightarrow> None)"

definition fold_char :: "char \<Rightarrow> char" where
  "fold_char c = (if CHR ''a'' \<le> c \<and> c \<le> CHR ''z'' then char_of (of_char c - (32 :: nat)) else c)"

text \<open>
  Case folding of a key as far as it matters for ASCII field names: the two non-ASCII
  characters that fold to an ASCII letter are the long s and the Kelvin sign.
\<close>

fun fold_key :: "string \<Rightarrow> string" where
  "fold_key [] = []"
| "fold_key [a] = [fold_char a]"
| "fold_key [a, b] = (if a = CHR 0xC5 \<and> b = CHR 0xBF then ''S'' else fold_char a # fold_key [b])"
| "fold_key (a # b # c # cs) =
     (if a = CHR 0xC5 \<and> b = CHR 0xBF then CHR ''S'' # fold_key (c # cs)
      else if a = CHR 0xE2 \<and> b = CHR 0x84 \<and> c = CHR 0xAA then CHR ''K'' # fold_key cs
      else fold_char a # fold_key (b # c # cs))"

definition key_is :: "string \<Rightarrow> string \<Rightarrow> bool" where
  "key_is name k \<longleftrightarrow> fold_key k = fold_key name"

section \<open>Strings read back\<close>

lemma hex_val_hex_char [simp]: "n < 16 \<Longrightarrow> hex_val (hex_char n) = Some n"
proof -
  assume "n < 16"
  moreover have "\<forall>n\<in>set [0..<16]. hex_val (hex_char n) = Some n" by code_simp
  ultimately show ?thesis by simp
qed

lemma hex_val_zero [simp]: "hex_val CHR ''0'' = Some 0"
  by code_simp

lemma unescape_u_byte:
  assumes "is_ascii c"
  shows "unescape_u (CHR ''0'' # CHR ''0'' # hex_char (of_char c div 16) # hex_char (of_char c mod 16) # t)
     = Some ([c], t)"
proof -
  have lt: "of_char c < (128 :: nat)" using assms by (simp add: is_ascii_def)
  have d: "of_char c div 16 < (16 :: nat)" using lt by simp
  have v: "16 * (of_char c div 16) + of_char c mod 16 = (of_char c :: nat)" by simp
  have e: "\<not> (0xD800 \<le> (of_char c :: nat))" "\<not> (0xDC00 \<le> (of_char c :: nat))" using lt by simp_all
  show ?thesis
    using lt d by (simp add: unescape_u_def hex4_def v e utf8_encode_def)
qed

lemma lex_str_esc_ascii:
  assumes "is_ascii c"
  shows "lex_str (esc_ascii c @ t) = prepend_out [c] (lex_str t)"
proof (cases "of_char c < (32 :: nat) \<or> c = CHR ''<'' \<or> c = CHR ''>'' \<or> c = CHR ''&''")
  case True
  then show ?thesis
    using assms by (auto simp: esc_ascii_def unescape_def unescape_u_byte)
next
  case False
  then show ?thesis
    using assms by (auto simp: esc_ascii_def unescape_def)
qed

lemma utf8_size_le: "utf8_size s \<le> length s"
  by (simp add: utf8_size_def)

lemma utf8_size_cases: "utf8_size s \<noteq> 0 \<Longrightarrow> utf8_size s \<in> {2, 3, 4}"
  by (simp add: utf8_size_def split: if_splits)

lemma start3_not_start2: "utf8_start3 a b \<Longrightarrow> \<not> byte_in 0xC2 0xDF a"
  by (auto simp: utf8_start3_def byte_in_def)

lemma start4_not_start23: "utf8_start4 a b \<Longrightarrow> \<not> byte_in 0xC2 0xDF a \<and> \<not> utf8_start3 a d"
  by (auto simp: utf8_start4_def utf8_start3_def byte_in_def)

lemma utf8_size_2:
  "utf8_size s = 2 \<longleftrightarrow> 2 \<le> length s \<and> byte_in 0xC2 0xDF (s ! 0) \<and> utf8_cont (s ! 1)"
  by (simp add: utf8_size_def)

lemma utf8_size_3:
  "utf8_size s = 3 \<longleftrightarrow> 3 \<le> length s \<and> utf8_start3 (s ! 0) (s ! 1) \<and> utf8_cont (s ! 2)"
  using start3_not_start2 [of "s ! 0" "s ! 1"] by (simp add: utf8_size_def)

lemma utf8_size_4:
  "utf8_size s = 4 \<longleftrightarrow>
     4 \<le> length s \<and> utf8_start4 (s ! 0) (s ! 1) \<and> utf8_cont (s ! 2) \<and> utf8_cont (s ! 3)"
  using start4_not_start23 [of "s ! 0" "s ! 1" "s ! 1"] by (simp add: utf8_size_def)

lemma utf8_size_take:
  assumes n: "utf8_size s \<noteq> 0"
  shows "utf8_size (take (utf8_size s) s @ t) = utf8_size s"
proof -
  consider (2) "utf8_size s = 2" | (3) "utf8_size s = 3" | (4) "utf8_size s = 4"
    using utf8_size_cases [OF n] by auto
  then show ?thesis
  proof cases
    case 2
    then have "utf8_size (take 2 s @ t) = 2" by (simp add: utf8_size_2 nth_append)
    with 2 show ?thesis by simp
  next
    case 3
    then have "utf8_size (take 3 s @ t) = 3" by (simp add: utf8_size_3 nth_append)
    with 3 show ?thesis by simp
  next
    case 4
    then have "utf8_size (take 4 s @ t) = 4" by (simp add: utf8_size_4 nth_append)
    with 4 show ?thesis by simp
  qed
qed

lemma utf8_size_first:
  "utf8_size (c # cs) \<noteq> 0 \<Longrightarrow> \<not> is_ascii c"
  by (auto simp: utf8_size_def is_ascii_def byte_in_def utf8_start3_def utf8_start4_def
      split: if_splits)

lemma not_ascii_plain:
  "\<not> is_ascii c \<Longrightarrow> c \<noteq> CHR 0x22 \<and> c \<noteq> CHR 0x5C \<and> \<not> of_char c < (32 :: nat)"
  by (auto simp: is_ascii_def)

lemma lex_str_rune:
  assumes "utf8_size (c # cs) = n" "n \<noteq> 0"
  shows "lex_str (take n (c # cs) @ t) = prepend_out (take n (c # cs)) (lex_str t)"
proof -
  obtain m where m: "n = Suc m" using assms(2) by (cases n) auto
  have len: "length (take n (c # cs)) = n" using assms utf8_size_le [of "c # cs"] by simp
  have "\<not> is_ascii c" using assms utf8_size_first by blast
  note plain = not_ascii_plain [OF this] this
  have "utf8_size (take n (c # cs) @ t) = n"
    using utf8_size_take [of "c # cs" t] assms by simp
  then have sz: "utf8_size (c # (take m cs @ t)) = n" using m by simp
  show ?thesis
    using plain sz len m by simp
qed

lemma lex_str_esc_rune:
  assumes "utf8_size (c # cs) = n" "n \<noteq> 0"
  shows "lex_str (esc_rune (take n (c # cs)) @ t) = prepend_out (take n (c # cs)) (lex_str t)"
proof -
  have u: "unescape (''u2028'' @ t) = Some ([CHR 0xE2, CHR 0x80, CHR 0xA8], t)"
          "unescape (''u2029'' @ t) = Some ([CHR 0xE2, CHR 0x80, CHR 0xA9], t)"
    by (simp_all add: unescape_def unescape_u_def hex4_def hex_val_def is_digit_def utf8_encode_def
        less_eq_char_def char_of_def bit_0)
  show ?thesis
    using lex_str_rune [OF assms] u by (auto simp: esc_rune_def)
qed

text \<open>Reading a written string: every valid UTF-8 text comes back unchanged.\<close>

lemma lex_str_escape:
  "utf8_valid s \<Longrightarrow> lex_str (json_escape s @ CHR 0x22 # rest) = Some (s, rest)"
proof (induction s rule: utf8_valid.induct)
  case 1
  then show ?case by simp
next
  case (2 c cs)
  show ?case
  proof (cases "is_ascii c")
    case True
    with 2 show ?thesis by (simp add: lex_str_esc_ascii)
  next
    case False
    define n where "n = utf8_size (c # cs)"
    from False 2(3) have n: "n \<noteq> 0" "utf8_valid (drop n (c # cs))"
      by (auto simp: n_def split: if_splits)
    from 2(2) False n have "lex_str (json_escape (drop n (c # cs)) @ CHR 0x22 # rest)
        = Some (drop n (c # cs), rest)"
      by (simp add: n_def)
    with False n(1) show ?thesis
      using lex_str_esc_rune [of c cs n "json_escape (drop n (c # cs)) @ CHR 0x22 # rest"]
      by (simp add: n_def del: drop_Suc_Cons)
  qed
qed

section \<open>Values read back\<close>

text \<open>
  The values that the program writes: integers in decimal and valid UTF-8 strings.
\<close>

fun wf_json :: "json \<Rightarrow> bool" where
  "wf_json (JNum s) = (\<exists>i. s = fmt_int i)"
| "wf_json (JStr s) = utf8_valid s"
| "wf_json (JArr xs) = (\<forall>x\<in>set xs. wf_json x)"
| "wf_json (JObj kvs) = (\<forall>kv\<in>set kvs. utf8_valid (fst kv) \<and> wf_json (snd kv))"
| "wf_json _ = True"

fun json_depth :: "json \<Rightarrow> nat" where
  "json_depth (JArr xs) = Suc (Max (insert 0 (json_depth ` set xs)))"
| "json_depth (JObj kvs) = Suc (Max (insert 0 ((\<lambda>kv. json_depth (snd kv)) ` set kvs)))"
| "json_depth _ = 0"

fun json_toks :: "json \<Rightarrow> token list" where
  "json_toks JNull = [TNull]"
| "json_toks (JBool b) = [if b then TTrue else TFalse]"
| "json_toks (JNum s) = [TNum s]"
| "json_toks (JStr s) = [TStr s]"
| "json_toks (JArr xs) = TLBrack # join_with TComma (map json_toks xs) @ [TRBrack]"
| "json_toks (JObj kvs) =
     TLBrace # join_with TComma (map (\<lambda>(k, v). TStr k # TColon # json_toks v) kvs) @ [TRBrace]"

definition num_end :: "string \<Rightarrow> bool" where
  "num_end r \<longleftrightarrow>
     (case r of [] \<Rightarrow> True
      | c # _ \<Rightarrow> \<not> is_digit c \<and> c \<noteq> CHR ''.'' \<and> c \<noteq> CHR ''e'' \<and> c \<noteq> CHR ''E'')"

text \<open>The text \<open>s\<close> reads as the tokens \<open>tk\<close>, whatever follows it.\<close>

definition lexes :: "string \<Rightarrow> token list \<Rightarrow> bool" where
  "lexes s tk \<longleftrightarrow>
     (\<forall>rest ts. num_end rest \<longrightarrow> lex rest = Some ts \<longrightarrow> lex (s @ rest) = Some (tk @ ts))"

lemma lexesD: "lexes s tk \<Longrightarrow> num_end rest \<Longrightarrow> lex rest = Some ts \<Longrightarrow> lex (s @ rest) = Some (tk @ ts)"
  by (simp add: lexes_def)

lemma punct_num_end: "punct c = Some t \<Longrightarrow> num_end (c # r)"
  by (auto simp: punct_def num_end_def is_digit_alt split: if_splits)

lemma punct_not_ws: "punct c = Some t \<Longrightarrow> \<not> is_ws c"
  by (auto simp: punct_def is_ws_def split: if_splits)

lemma lex_punct: "punct c = Some t \<Longrightarrow> lex (c # r) = cons_tok t (lex r)"
  by (simp add: punct_not_ws)

lemma lexes_punct: "punct c = Some t \<Longrightarrow> lexes [c] [t]"
  by (simp add: lexes_def lex_punct cons_tok_def del: lex.simps)

lemma lexes_append_punct:
  assumes "lexes s tk" "punct c = Some t" "lexes s' tk'"
  shows "lexes (s @ c # s') (tk @ t # tk')"
  unfolding lexes_def
proof (intro allI impI)
  fix rest ts
  assume "num_end rest" "lex rest = Some ts"
  then have "lex (c # s' @ rest) = Some (t # tk' @ ts)"
    using assms(2,3) by (simp add: lexes_def lex_punct cons_tok_def del: lex.simps)
  then show "lex ((s @ c # s') @ rest) = Some ((tk @ t # tk') @ ts)"
    using lexesD [OF assms(1) punct_num_end [OF assms(2)]] by simp
qed

lemma lexes_punct_before: "punct c = Some t \<Longrightarrow> lexes s tk \<Longrightarrow> lexes (c # s) (t # tk)"
  by (simp add: lexes_def lex_punct cons_tok_def del: lex.simps)

lemma punct_chars [simp]:
  "punct CHR ''{'' = Some TLBrace" "punct CHR ''}'' = Some TRBrace"
  "punct CHR ''['' = Some TLBrack" "punct CHR '']'' = Some TRBrack"
  "punct CHR '','' = Some TComma" "punct CHR '':'' = Some TColon"
  by (simp_all add: punct_def)

lemma lexes_Nil: "lexes [] []"
  by (simp add: lexes_def)

lemma lexes_join:
  "list_all2 lexes ss tks \<Longrightarrow> lexes (join_with CHR '','' ss) (join_with TComma tks)"
proof (induction ss tks rule: list_all2_induct)
  case Nil
  then show ?case by (simp add: lexes_Nil)
next
  case (Cons s ss tk tks)
  then show ?case
    by (cases ss; cases tks) (auto intro: lexes_append_punct)
qed

lemma lexes_quote: "utf8_valid s \<Longrightarrow> lexes (json_quote s) [TStr s]"
  unfolding lexes_def json_quote_def
  by (simp add: is_ws_def punct_def lex_str_escape cons_tok_def)

lemma lexes_const: "lexes ''null'' [TNull]" "lexes ''true'' [TTrue]" "lexes ''false'' [TFalse]"
  by (simp_all add: lexes_def is_ws_def punct_def is_digit_alt keyword_def cons_tok_def)

lemma takeWhile_digits_end:
  assumes "list_all is_digit s" "num_end r"
  shows "takeWhile is_digit (s @ r) = s" "dropWhile is_digit (s @ r) = r"
proof -
  have "takeWhile is_digit r = []" "dropWhile is_digit r = r"
    using assms(2) by (auto simp: num_end_def split: list.splits)
  then show "takeWhile is_digit (s @ r) = s" "dropWhile is_digit (s @ r) = r"
    using assms(1) by (simp_all add: list_all_iff takeWhile_append2 dropWhile_append2)
qed

lemma fmt_nat_shape:
  "\<exists>d ds. fmt_nat n = d # ds \<and> is_digit d \<and> list_all is_digit ds \<and> (d = CHR ''0'' \<longrightarrow> ds = [])"
proof (induction n rule: fmt_nat.induct)
  case (1 n)
  show ?case
  proof (cases "n < 10")
    case True
    then show ?thesis by (subst fmt_nat.simps) simp
  next
    case False
    with 1 obtain d ds where d: "fmt_nat (n div 10) = d # ds" "is_digit d" "list_all is_digit ds"
      "d = CHR ''0'' \<longrightarrow> ds = []" by blast
    have "d \<noteq> CHR ''0''"
    proof
      assume "d = CHR ''0''"
      with d have "digits_val (fmt_nat (n div 10)) = 0" by (simp add: digits_val_def digit_val_def)
      with False show False by simp
    qed
    with False d show ?thesis by (subst fmt_nat.simps) simp
  qed
qed

lemma lex_int_part_fmt_nat:
  assumes "num_end r"
  shows "lex_int_part (fmt_nat n @ r) = Some (fmt_nat n, r)"
proof -
  obtain d ds where d: "fmt_nat n = d # ds" "is_digit d" "list_all is_digit ds"
    "d = CHR ''0'' \<longrightarrow> ds = []" using fmt_nat_shape by blast
  then show ?thesis
    using takeWhile_digits_end [OF d(3) assms] by (auto simp: lex_int_part_def)
qed

lemma lex_frac_exp_end: "num_end r \<Longrightarrow> lex_frac r = Some ([], r)" "num_end r \<Longrightarrow> lex_exp r = Some ([], r)"
  by (auto simp: lex_frac_def lex_exp_def num_end_def split: list.splits)

lemma lex_num_fmt_int: "num_end r \<Longrightarrow> lex_num (fmt_int i @ r) = Some (fmt_int i, r)"
proof -
  assume r: "num_end r"
  obtain d ds where d: "fmt_nat (nat i) = d # ds" "is_digit d" using fmt_nat_shape by blast
  then have "d \<noteq> CHR ''-''" using is_digit_not_special by blast
  then show ?thesis
    using r d lex_int_part_fmt_nat [OF r, of "nat i"]
    by (auto simp: lex_num_def fmt_int_def lex_int_part_fmt_nat lex_frac_exp_end)
qed

lemma lexes_num: "lexes (fmt_int i) [TNum (fmt_int i)]"
proof -
  obtain c cs where c: "fmt_int i = c # cs" "c = CHR ''-'' \<or> is_digit c"
    using fmt_nat_shape by (metis fmt_int_def)
  then have "\<not> is_ws c" "punct c = None" "c \<noteq> CHR 0x22"
    by (auto simp: is_ws_def punct_def is_digit_alt)
  with c show ?thesis
    using lex_num_fmt_int [of _ i] by (auto simp: lexes_def cons_tok_def)
qed

lemma lexes_json_print: "wf_json j \<Longrightarrow> lexes (json_print j) (json_toks j)"
proof (induction j)
  case (JArr xs)
  then have "list_all2 lexes (map json_print xs) (map json_toks xs)"
    by (auto simp: list_all2_conv_all_nth)
  then show ?case
    by (auto intro!: lexes_punct_before lexes_append_punct [where s' = "[]" and tk' = "[]"]
        lexes_join lexes_Nil)
next
  case (JObj kvs)
  have "lexes (json_quote k @ CHR '':'' # json_print v) (TStr k # TColon # json_toks v)"
    if "(k, v) \<in> set kvs" for k v
    using JObj that lexes_append_punct [OF lexes_quote [of k], of "CHR '':''" TColon "json_print v" "json_toks v"]
    by fastforce
  then have "list_all2 lexes (map (\<lambda>(k, v). json_quote k @ CHR '':'' # json_print v) kvs)
      (map (\<lambda>(k, v). TStr k # TColon # json_toks v) kvs)"
    by (auto simp: list_all2_conv_all_nth split: prod.splits) (metis nth_mem)
  then show ?case
    by (auto intro!: lexes_punct_before lexes_append_punct [where s' = "[]" and tk' = "[]"]
        lexes_join lexes_Nil)
qed (auto simp: lexes_const lexes_quote lexes_num)

text \<open>
  The machine consumes the tokens of a value and hands the value to the enclosing
  container, as long as the nesting limit is respected.
\<close>

definition run_from :: "(pmode \<times> frame list) option \<Rightarrow> token list \<Rightarrow> (pmode \<times> frame list) option" where
  "run_from st ts = (case st of None \<Rightarrow> None | Some s \<Rightarrow> json_run s ts)"

lemma run_from_Some [simp]: "run_from (Some s) ts = json_run s ts"
  by (simp add: run_from_def)

lemma json_run_Cons: "json_run st (t # ts) = run_from (json_step st t) ts"
  by (simp add: run_from_def)

lemma json_toks_first: "\<exists>t ts. json_toks j = t # ts \<and> t \<noteq> TRBrack"
  by (cases j) auto

lemma run_arr0:
  "json_run (PArr0, FArr xs # fs) (json_toks j @ ts) = json_run (PVal, FArr xs # fs) (json_toks j @ ts)"
proof -
  obtain t us where "json_toks j = t # us" "t \<noteq> TRBrack" using json_toks_first by blast
  then show ?thesis by (simp add: json_run_Cons json_step_def del: json_run.simps)
qed

definition reads :: "json \<Rightarrow> bool" where
  "reads j \<longleftrightarrow>
     (\<forall>fs ts. length fs + json_depth j \<le> max_nesting \<longrightarrow>
        json_run (PVal, fs) (json_toks j @ ts) = run_from (deliver j fs) ts)"

lemma readsD:
  "reads j \<Longrightarrow> length fs + json_depth j \<le> max_nesting \<Longrightarrow>
   json_run (PVal, fs) (json_toks j @ ts) = run_from (deliver j fs) ts"
  by (simp add: reads_def)

lemma reads_elements:
  assumes "\<forall>x\<in>set xs. reads x \<and> Suc (length fs) + json_depth x \<le> max_nesting" "xs \<noteq> []"
  shows "json_run (PVal, FArr acc # fs) (join_with TComma (map json_toks xs) @ TRBrack # ts)
    = run_from (deliver (JArr (acc @ xs)) fs) ts"
  using assms
proof (induction xs arbitrary: acc)
  case Nil
  then show ?case by simp
next
  case (Cons x xs)
  have x: "json_run (PVal, FArr acc # fs) (json_toks x @ us) = json_run (PArrNext, FArr (acc @ [x]) # fs) us" for us
    using Cons.prems(1) by (simp add: reads_def deliver_def)
  show ?case
  proof (cases xs)
    case Nil
    then show ?thesis by (simp add: x json_run_Cons json_step_def del: json_run.simps)
  next
    case (Cons y ys)
    then show ?thesis
      using Cons.IH [of "acc @ [x]"] Cons.prems(1)
      by (simp add: x json_run_Cons json_step_def del: json_run.simps)
  qed
qed

lemma reads_members:
  assumes "\<forall>kv\<in>set kvs. reads (snd kv) \<and> Suc (length fs) + json_depth (snd kv) \<le> max_nesting"
    "kvs \<noteq> []" "m = PObj0 \<or> m = PKey"
  shows "json_run (m, FObj acc # fs)
      (join_with TComma (map (\<lambda>(k, v). TStr k # TColon # json_toks v) kvs) @ TRBrace # ts)
    = run_from (deliver (JObj (acc @ kvs)) fs) ts"
  using assms
proof (induction kvs arbitrary: acc m)
  case Nil
  then show ?case by simp
next
  case (Cons kv kvs)
  obtain k v where kv: "kv = (k, v)" by force
  have x: "json_run (m, FObj acc # fs) (TStr k # TColon # json_toks v @ us)
      = json_run (PObjNext, FObj (acc @ [(k, v)]) # fs) us" for us
    using Cons.prems(1,3) kv
    by (auto simp: json_run_Cons json_step_def reads_def deliver_def simp del: json_run.simps)
  show ?case
  proof (cases kvs)
    case Nil
    then show ?thesis using kv by (simp add: x json_run_Cons [of "(PObjNext, _)"] json_step_def del: json_run.simps)
  next
    case (Cons y ys)
    then show ?thesis
      using Cons.IH [of PKey "acc @ [(k, v)]"] Cons.prems(1) kv
      by (simp add: x json_run_Cons [of "(PObjNext, _)"] json_step_def del: json_run.simps)
  qed
qed

lemma depth_element: "x \<in> set xs \<Longrightarrow> json_depth x < json_depth (JArr xs)"
  by (simp add: less_Suc_eq_le Max_ge_iff)

lemma depth_member: "kv \<in> set kvs \<Longrightarrow> json_depth (snd kv) < json_depth (JObj kvs)"
  by (simp add: less_Suc_eq_le Max_ge_iff)

lemma reads_json: "reads j"
proof (induction j)
  case (JArr xs)
  show ?case
    unfolding reads_def
  proof (intro allI impI)
    fix fs :: "frame list" and ts
    assume d: "length fs + json_depth (JArr xs) \<le> max_nesting"
    then have o: "open_frame PArr0 (FArr []) fs = Some (PArr0, FArr [] # fs)"
      by (simp add: open_frame_def)
    have el: "\<forall>x\<in>set xs. reads x \<and> Suc (length fs) + json_depth x \<le> max_nesting"
      using JArr d depth_element by fastforce
    show "json_run (PVal, fs) (json_toks (JArr xs) @ ts) = run_from (deliver (JArr xs) fs) ts"
    proof (cases xs)
      case Nil
      with o show ?thesis by (simp add: json_run_Cons json_step_def start_value_def del: json_run.simps)
    next
      case (Cons y ys)
      then obtain us where us: "join_with TComma (map json_toks xs) @ TRBrack # ts = json_toks y @ us"
        by (cases ys) auto
      have "json_run (PArr0, FArr [] # fs) (join_with TComma (map json_toks xs) @ TRBrack # ts)
          = run_from (deliver (JArr xs) fs) ts"
        using reads_elements [OF el, of "[]" ts] Cons us by (simp add: run_arr0)
      with o show ?thesis
        by (simp add: json_run_Cons [of "(PVal, _)"] json_step_def start_value_def del: json_run.simps)
    qed
  qed
next
  case (JObj kvs)
  show ?case
    unfolding reads_def
  proof (intro allI impI)
    fix fs :: "frame list" and ts
    assume d: "length fs + json_depth (JObj kvs) \<le> max_nesting"
    then have o: "open_frame PObj0 (FObj []) fs = Some (PObj0, FObj [] # fs)"
      by (simp add: open_frame_def)
    have el: "\<forall>kv\<in>set kvs. reads (snd kv) \<and> Suc (length fs) + json_depth (snd kv) \<le> max_nesting"
    proof
      fix kv
      assume kv: "kv \<in> set kvs"
      then have "reads (snd kv)" by (rule JObj) (simp add: snds.simps)
      moreover have "Suc (length fs) + json_depth (snd kv) \<le> max_nesting"
        using d depth_member [OF kv] by linarith
      ultimately show "reads (snd kv) \<and> Suc (length fs) + json_depth (snd kv) \<le> max_nesting" by simp
    qed
    show "json_run (PVal, fs) (json_toks (JObj kvs) @ ts) = run_from (deliver (JObj kvs) fs) ts"
    proof (cases "kvs = []")
      case True
      with o show ?thesis by (simp add: json_run_Cons json_step_def start_value_def del: json_run.simps)
    next
      case False
      with o show ?thesis
        using reads_members [OF el False, of PObj0 "[]" ts]
        by (simp add: json_run_Cons [of "(PVal, _)"] json_step_def start_value_def del: json_run.simps)
    qed
  qed
qed (auto simp: reads_def json_run_Cons json_step_def start_value_def simp del: json_run.simps)

lemma json_parse_print:
  assumes "wf_json j" "json_depth j \<le> max_nesting"
  shows "json_parse (json_print j) = Some j"
proof -
  have "lex (json_print j) = Some (json_toks j)"
    using lexesD [OF lexes_json_print [OF assms(1)], of "[]" "[]"] by (simp add: num_end_def)
  moreover have "json_run (PVal, []) (json_toks j) = Some (PEnd j, [])"
    using readsD [OF reads_json, of "[]" j "[]"] assms(2) by (simp add: deliver_def)
  ultimately show ?thesis by (simp add: json_parse_def)
qed

lemma ascii_utf8_valid: "list_all is_ascii s \<Longrightarrow> utf8_valid s"
  by (induction s) auto

text \<open>The recursions over text unfold only on request from here on.\<close>

declare fold_key.simps [simp del]
declare utf8_valid.simps [simp del]
declare json_escape.simps [simp del]
declare lex_str.simps [simp del]
declare lex.simps [simp del]

end
