(* ===== verification/Protocol.thy ===== *)
theory Protocol
  imports GoJson
begin

text \<open>
  Package \<open>internal/protocol\<close>: the wire and storage types, the application error, and
  the RPC envelope, each with the JSON object that \<open>json.Marshal\<close> builds for it and
  the field-by-field decoding that \<open>json.Unmarshal\<close> performs. A pointer is an option;
  \<open>json.RawMessage\<close> is the JSON value its bytes denote (None for a nil slice).
\<close>

section \<open>Error codes and the application error\<close>

definition CodeRPCInvalidRequest :: string where "CodeRPCInvalidRequest = ''RPC_INVALID_REQUEST''"
definition CodeRPCMissingRequestID :: string where "CodeRPCMissingRequestID = ''RPC_MISSING_REQUEST_ID''"
definition CodeRPCUnknownMethod :: string where "CodeRPCUnknownMethod = ''RPC_UNKNOWN_METHOD''"
definition CodeInvalidPayload :: string where "CodeInvalidPayload = ''INVALID_PAYLOAD''"
definition CodeInvalidSignature :: string where "CodeInvalidSignature = ''INVALID_SIGNATURE''"
definition CodeInvalidAckSignature :: string where "CodeInvalidAckSignature = ''INVALID_ACK_SIGNATURE''"
definition CodeTTLTooLarge :: string where "CodeTTLTooLarge = ''TTL_TOO_LARGE''"
definition CodeMessageTooLarge :: string where "CodeMessageTooLarge = ''MESSAGE_TOO_LARGE''"
definition CodeRecipientQuotaExceeded :: string where "CodeRecipientQuotaExceeded = ''RECIPIENT_QUOTA_EXCEEDED''"
definition CodeRecipientBytesExceeded :: string where "CodeRecipientBytesExceeded = ''RECIPIENT_BYTES_EXCEEDED''"
definition CodeRateLimited :: string where "CodeRateLimited = ''RATE_LIMITED''"
definition CodeUnauthorized :: string where "CodeUnauthorized = ''UNAUTHORIZED''"
definition CodeInternalError :: string where "CodeInternalError = ''INTERNAL_ERROR''"
definition CodePublicChannelStale :: string where "CodePublicChannelStale = ''PUBLIC_CHANNEL_STALE''"
definition CodePublicChannelNotFound :: string where "CodePublicChannelNotFound = ''PUBLIC_CHANNEL_NOT_FOUND''"

lemmas code_defs = CodeRPCInvalidRequest_def CodeRPCMissingRequestID_def CodeRPCUnknownMethod_def
  CodeInvalidPayload_def CodeInvalidSignature_def CodeInvalidAckSignature_def CodeTTLTooLarge_def
  CodeMessageTooLarge_def CodeRecipientQuotaExceeded_def CodeRecipientBytesExceeded_def
  CodeRateLimited_def CodeUnauthorized_def CodeInternalError_def CodePublicChannelStale_def
  CodePublicChannelNotFound_def

text \<open>
  \<open>err.Error()\<close>. The texts of errors that libraries produce are a parameter
  \<open>txt\<close>; those that the program formats itself are written out.
\<close>

fun Error :: "(goerr \<Rightarrow> string) \<Rightarrow> goerr \<Rightarrow> string" where
  "Error txt (AppError c m) = c @ '': '' @ m"
| "Error txt (FmtError s) = s"
| "Error txt (WrapError s e) = s @ Error txt e"
| "Error txt e = txt e"

definition AsAppError :: "goerr \<Rightarrow> (string \<times> string) option" where
  "AsAppError e = (case e of AppError c m \<Rightarrow> Some (c, m) | _ \<Rightarrow> None)"

definition ErrorCode :: "goerr option \<Rightarrow> string" where
  "ErrorCode err =
     (case err of
        None \<Rightarrow> []
      | Some e \<Rightarrow> (case AsAppError e of Some (c, m) \<Rightarrow> c | None \<Rightarrow> CodeInternalError))"

definition ErrorMessage :: "(goerr \<Rightarrow> string) \<Rightarrow> goerr option \<Rightarrow> string" where
  "ErrorMessage txt err =
     (case err of
        None \<Rightarrow> []
      | Some e \<Rightarrow> (case AsAppError e of Some (c, m) \<Rightarrow> m | None \<Rightarrow> Error txt e))"

section \<open>Messages\<close>

record CipherPayload =
  cp_Algorithm :: string
  cp_RecipientKeyID :: string
  cp_Nonce :: string
  cp_Ciphertext :: string

record Signature =
  sig_Algorithm :: string
  sig_Value :: string

record OfflineMessageEnvelope =
  env_Version :: int64
  MsgID :: string
  SenderID :: string
  RecipientID :: string
  ConversationID :: string
  CreatedAt :: int64
  TTLSec :: "int64 option"
  Cipher :: CipherPayload
  env_Signature :: Signature

record StoredMessage =
  StoreSeq :: uint64
  ReceivedAt :: int64
  ExpireAt :: int64
  sm_Message :: "OfflineMessageEnvelope option"

definition EffectiveTTL :: "OfflineMessageEnvelope option \<Rightarrow> int64 \<Rightarrow> int64" where
  "EffectiveTTL m defaultTTL =
     (case m of
        None \<Rightarrow> defaultTTL
      | Some env \<Rightarrow> (case TTLSec env of None \<Rightarrow> defaultTTL | Some t \<Rightarrow> t))"

definition Clone :: "OfflineMessageEnvelope option \<Rightarrow> OfflineMessageEnvelope option" where
  "Clone m =
     (case m of
        None \<Rightarrow> None
      | Some env \<Rightarrow> Some (case TTLSec env of None \<Rightarrow> env | Some t \<Rightarrow> env\<lparr>TTLSec := Some t\<rparr>))"

section \<open>Requests and responses\<close>

record StoreRequest =
  sreq_Version :: int64
  sreq_Message :: "OfflineMessageEnvelope option"

record StoreResponse =
  sresp_OK :: bool
  sresp_Duplicate :: bool
  sresp_StoreSeq :: uint64
  sresp_ExpireAt :: int64
  sresp_ErrorCode :: string
  sresp_ErrorMessage :: string

record FetchRequest =
  freq_Version :: int64
  freq_RecipientID :: string
  freq_AfterSeq :: uint64
  freq_Limit :: int64

record FetchResponse =
  fresp_OK :: bool
  fresp_Items :: "StoredMessage list"
  fresp_HasMore :: bool
  fresp_ErrorCode :: string
  fresp_ErrorMessage :: string

record AckRequest =
  areq_Version :: int64
  areq_RecipientID :: string
  areq_DeviceID :: string
  areq_AckSeq :: uint64
  areq_AckedAt :: int64
  areq_Signature :: Signature

record AckResponse =
  aresp_OK :: bool
  aresp_DeletedUntilSeq :: uint64
  aresp_ErrorCode :: string
  aresp_ErrorMessage :: string

record RPCRequest =
  rpc_RequestID :: string
  rpc_Method :: string
  rpc_Body :: "json option"

record RPCResponse =
  rresp_RequestID :: string
  rresp_OK :: bool
  rresp_Error :: string
  rresp_Body :: json

record RPCErrorBody =
  eb_ErrorCode :: string
  eb_ErrorMessage :: string
  eb_Method :: string

definition MethodOfflineStore :: string where "MethodOfflineStore = ''offline.store''"
definition MethodOfflineFetch :: string where "MethodOfflineFetch = ''offline.fetch''"
definition MethodOfflineAck :: string where "MethodOfflineAck = ''offline.ack''"

section \<open>JSON objects\<close>

definition jint :: "int64 \<Rightarrow> json" where "jint w = JNum (FormatInt w)"
definition juint :: "uint64 \<Rightarrow> json" where "juint w = JNum (FormatUint w)"

definition enc_CipherPayload :: "CipherPayload \<Rightarrow> json" where
  "enc_CipherPayload x =
     JObj ([(''algorithm'', JStr (cp_Algorithm x)),
      (''recipient_key_id'', JStr (cp_RecipientKeyID x)),
      (''nonce'', JStr (cp_Nonce x)),
      (''ciphertext'', JStr (cp_Ciphertext x))])"

definition enc_Signature :: "Signature \<Rightarrow> json" where
  "enc_Signature x =
     JObj ([(''algorithm'', JStr (sig_Algorithm x)),
      (''value'', JStr (sig_Value x))])"

definition enc_OfflineMessageEnvelope :: "OfflineMessageEnvelope \<Rightarrow> json" where
  "enc_OfflineMessageEnvelope x =
     JObj ([(''version'', jint (env_Version x)),
      (''msg_id'', JStr (MsgID x)),
      (''sender_id'', JStr (SenderID x)),
      (''recipient_id'', JStr (RecipientID x)),
      (''conversation_id'', JStr (ConversationID x)),
      (''created_at'', jint (CreatedAt x))]
     @ (case TTLSec x of None \<Rightarrow> [] | Some t \<Rightarrow> [(''ttl_sec'', jint t)])
     @ [(''cipher'', enc_CipherPayload (Cipher x)),
      (''signature'', enc_Signature (env_Signature x))])"

definition enc_StoredMessage :: "StoredMessage \<Rightarrow> json" where
  "enc_StoredMessage x =
     JObj ([(''store_seq'', juint (StoreSeq x)),
      (''received_at'', jint (ReceivedAt x)),
      (''expire_at'', jint (ExpireAt x)),
      (''message'', (case sm_Message x of None \<Rightarrow> JNull | Some y \<Rightarrow> enc_OfflineMessageEnvelope y))])"

definition enc_StoreResponse :: "StoreResponse \<Rightarrow> json" where
  "enc_StoreResponse x =
     JObj ([(''ok'', JBool (sresp_OK x)),
      (''duplicate'', JBool (sresp_Duplicate x)),
      (''store_seq'', juint (sresp_StoreSeq x)),
      (''expire_at'', jint (sresp_ExpireAt x)),
      (''error_code'', JStr (sresp_ErrorCode x)),
      (''error_message'', JStr (sresp_ErrorMessage x))])"

definition enc_FetchResponse :: "FetchResponse \<Rightarrow> json" where
  "enc_FetchResponse x =
     JObj ([(''ok'', JBool (fresp_OK x)),
      (''items'', JArr (map enc_StoredMessage (fresp_Items x))),
      (''has_more'', JBool (fresp_HasMore x)),
      (''error_code'', JStr (fresp_ErrorCode x)),
      (''error_message'', JStr (fresp_ErrorMessage x))])"

definition enc_AckResponse :: "AckResponse \<Rightarrow> json" where
  "enc_AckResponse x =
     JObj ([(''ok'', JBool (aresp_OK x)),
      (''deleted_until_seq'', juint (aresp_DeletedUntilSeq x)),
      (''error_code'', JStr (aresp_ErrorCode x)),
      (''error_message'', JStr (aresp_ErrorMessage x))])"

definition enc_RPCResponse :: "RPCResponse \<Rightarrow> json" where
  "enc_RPCResponse x =
     JObj ([(''request_id'', JStr (rresp_RequestID x)),
      (''ok'', JBool (rresp_OK x)),
      (''error'', JStr (rresp_Error x)),
      (''body'', rresp_Body x)])"

definition enc_RPCErrorBody :: "RPCErrorBody \<Rightarrow> json" where
  "enc_RPCErrorBody x =
     JObj ([(''error_code'', JStr (eb_ErrorCode x)),
      (''error_message'', JStr (eb_ErrorMessage x))]
     @ (if eb_Method x = [] then [] else [(''method'', JStr (eb_Method x))]))"

section \<open>Decoding\<close>

definition zero_CipherPayload :: CipherPayload where
  "zero_CipherPayload =
     \<lparr>cp_Algorithm = [], cp_RecipientKeyID = [], cp_Nonce = [], cp_Ciphertext = []\<rparr>"

definition field_CipherPayload :: "CipherPayload \<Rightarrow> string \<Rightarrow> json \<Rightarrow> CipherPayload option" where
  "field_CipherPayload x k v =
     (if key_is ''algorithm'' k then map_option (\<lambda>y. x\<lparr>cp_Algorithm := y\<rparr>) (dec_str (cp_Algorithm x) v)
      else if key_is ''recipient_key_id'' k then map_option (\<lambda>y. x\<lparr>cp_RecipientKeyID := y\<rparr>) (dec_str (cp_RecipientKeyID x) v)
      else if key_is ''nonce'' k then map_option (\<lambda>y. x\<lparr>cp_Nonce := y\<rparr>) (dec_str (cp_Nonce x) v)
      else if key_is ''ciphertext'' k then map_option (\<lambda>y. x\<lparr>cp_Ciphertext := y\<rparr>) (dec_str (cp_Ciphertext x) v)
      else Some x)"

definition dec_CipherPayload :: "CipherPayload \<Rightarrow> json \<Rightarrow> CipherPayload option" where
  "dec_CipherPayload = dec_struct field_CipherPayload"

definition zero_Signature :: Signature where
  "zero_Signature =
     \<lparr>sig_Algorithm = [], sig_Value = []\<rparr>"

definition field_Signature :: "Signature \<Rightarrow> string \<Rightarrow> json \<Rightarrow> Signature option" where
  "field_Signature x k v =
     (if key_is ''algorithm'' k then map_option (\<lambda>y. x\<lparr>sig_Algorithm := y\<rparr>) (dec_str (sig_Algorithm x) v)
      else if key_is ''value'' k then map_option (\<lambda>y. x\<lparr>sig_Value := y\<rparr>) (dec_str (sig_Value x) v)
      else Some x)"

definition dec_Signature :: "Signature \<Rightarrow> json \<Rightarrow> Signature option" where
  "dec_Signature = dec_struct field_Signature"

definition zero_OfflineMessageEnvelope :: OfflineMessageEnvelope where
  "zero_OfflineMessageEnvelope =
     \<lparr>env_Version = 0, MsgID = [], SenderID = [], RecipientID = [], ConversationID = [], CreatedAt = 0, TTLSec = None, Cipher = zero_CipherPayload, env_Signature = zero_Signature\<rparr>"

definition field_OfflineMessageEnvelope :: "OfflineMessageEnvelope \<Rightarrow> string \<Rightarrow> json \<Rightarrow> OfflineMessageEnvelope option" where
  "field_OfflineMessageEnvelope x k v =
     (if key_is ''version'' k then map_option (\<lambda>y. x\<lparr>env_Version := y\<rparr>) (dec_int (env_Version x) v)
      else if key_is ''msg_id'' k then map_option (\<lambda>y. x\<lparr>MsgID := y\<rparr>) (dec_str (MsgID x) v)
      else if key_is ''sender_id'' k then map_option (\<lambda>y. x\<lparr>SenderID := y\<rparr>) (dec_str (SenderID x) v)
      else if key_is ''recipient_id'' k then map_option (\<lambda>y. x\<lparr>RecipientID := y\<rparr>) (dec_str (RecipientID x) v)
      else if key_is ''conversation_id'' k then map_option (\<lambda>y. x\<lparr>ConversationID := y\<rparr>) (dec_str (ConversationID x) v)
      else if key_is ''created_at'' k then map_option (\<lambda>y. x\<lparr>CreatedAt := y\<rparr>) (dec_int (CreatedAt x) v)
      else if key_is ''ttl_sec'' k then map_option (\<lambda>y. x\<lparr>TTLSec := y\<rparr>) (dec_ptr 0 dec_int (TTLSec x) v)
      else if key_is ''cipher'' k then map_option (\<lambda>y. x\<lparr>Cipher := y\<rparr>) (dec_CipherPayload (Cipher x) v)
      else if key_is ''signature'' k then map_option (\<lambda>y. x\<lparr>env_Signature := y\<rparr>) (dec_Signature (env_Signature x) v)
      else Some x)"

definition dec_OfflineMessageEnvelope :: "OfflineMessageEnvelope \<Rightarrow> json \<Rightarrow> OfflineMessageEnvelope option" where
  "dec_OfflineMessageEnvelope = dec_struct field_OfflineMessageEnvelope"

definition zero_StoredMessage :: StoredMessage where
  "zero_StoredMessage =
     \<lparr>StoreSeq = 0, ReceivedAt = 0, ExpireAt = 0, sm_Message = None\<rparr>"

definition field_StoredMessage :: "StoredMessage \<Rightarrow> string \<Rightarrow> json \<Rightarrow> StoredMessage option" where
  "field_StoredMessage x k v =
     (if key_is ''store_seq'' k then map_option (\<lambda>y. x\<lparr>StoreSeq := y\<rparr>) (dec_uint (StoreSeq x) v)
      else if key_is ''received_at'' k then map_option (\<lambda>y. x\<lparr>ReceivedAt := y\<rparr>) (dec_int (ReceivedAt x) v)
      else if key_is ''expire_at'' k then map_option (\<lambda>y. x\<lparr>ExpireAt := y\<rparr>) (dec_int (ExpireAt x) v)
      else if key_is ''message'' k then map_option (\<lambda>y. x\<lparr>sm_Message := y\<rparr>) (dec_ptr zero_OfflineMessageEnvelope dec_OfflineMessageEnvelope (sm_Message x) v)
      else Some x)"

definition dec_StoredMessage :: "StoredMessage \<Rightarrow> json \<Rightarrow> StoredMessage option" where
  "dec_StoredMessage = dec_struct field_StoredMessage"

definition zero_StoreRequest :: StoreRequest where
  "zero_StoreRequest =
     \<lparr>sreq_Version = 0, sreq_Message = None\<rparr>"

definition field_StoreRequest :: "StoreRequest \<Rightarrow> string \<Rightarrow> json \<Rightarrow> StoreRequest option" where
  "field_StoreRequest x k v =
     (if key_is ''version'' k then map_option (\<lambda>y. x\<lparr>sreq_Version := y\<rparr>) (dec_int (sreq_Version x) v)
      else if key_is ''message'' k then map_option (\<lambda>y. x\<lparr>sreq_Message := y\<rparr>) (dec_ptr zero_OfflineMessageEnvelope dec_OfflineMessageEnvelope (sreq_Message x) v)
      else Some x)"

definition dec_StoreRequest :: "StoreRequest \<Rightarrow> json \<Rightarrow> StoreRequest option" where
  "dec_StoreRequest = dec_struct field_StoreRequest"

definition zero_FetchRequest :: FetchRequest where
  "zero_FetchRequest =
     \<lparr>freq_Version = 0, freq_RecipientID = [], freq_AfterSeq = 0, freq_Limit = 0\<rparr>"

definition field_FetchRequest :: "FetchRequest \<Rightarrow> string \<Rightarrow> json \<Rightarrow> FetchRequest option" where
  "field_FetchRequest x k v =
     (if key_is ''version'' k then map_option (\<lambda>y. x\<lparr>freq_Version := y\<rparr>) (dec_int (freq_Version x) v)
      else if key_is ''recipient_id'' k then map_option (\<lambda>y. x\<lparr>freq_RecipientID := y\<rparr>) (dec_str (freq_RecipientID x) v)
      else if key_is ''after_seq'' k then map_option (\<lambda>y. x\<lparr>freq_AfterSeq := y\<rparr>) (dec_uint (freq_AfterSeq x) v)
      else if key_is ''limit'' k then map_option (\<lambda>y. x\<lparr>freq_Limit := y\<rparr>) (dec_int (freq_Limit x) v)
      else Some x)"

definition dec_FetchRequest :: "FetchRequest \<Rightarrow> json \<Rightarrow> FetchRequest option" where
  "dec_FetchRequest = dec_struct field_FetchRequest"

definition zero_AckRequest :: AckRequest where
  "zero_AckRequest =
     \<lparr>areq_Version = 0, areq_RecipientID = [], areq_DeviceID = [], areq_AckSeq = 0, areq_AckedAt = 0, areq_Signature = zero_Signature\<rparr>"

definition field_AckRequest :: "AckRequest \<Rightarrow> string \<Rightarrow> json \<Rightarrow> AckRequest option" where
  "field_AckRequest x k v =
     (if key_is ''version'' k then map_option (\<lambda>y. x\<lparr>areq_Version := y\<rparr>) (dec_int (areq_Version x) v)
      else if key_is ''recipient_id'' k then map_option (\<lambda>y. x\<lparr>areq_RecipientID := y\<rparr>) (dec_str (areq_RecipientID x) v)
      else if key_is ''device_id'' k then map_option (\<lambda>y. x\<lparr>areq_DeviceID := y\<rparr>) (dec_str (areq_DeviceID x) v)
      else if key_is ''ack_seq'' k then map_option (\<lambda>y. x\<lparr>areq_AckSeq := y\<rparr>) (dec_uint (areq_AckSeq x) v)
      else if key_is ''acked_at'' k then map_option (\<lambda>y. x\<lparr>areq_AckedAt := y\<rparr>) (dec_int (areq_AckedAt x) v)
      else if key_is ''signature'' k then map_option (\<lambda>y. x\<lparr>areq_Signature := y\<rparr>) (dec_Signature (areq_Signature x) v)
      else Some x)"

definition dec_AckRequest :: "AckRequest \<Rightarrow> json \<Rightarrow> AckRequest option" where
  "dec_AckRequest = dec_struct field_AckRequest"

definition zero_RPCRequest :: RPCRequest where
  "zero_RPCRequest =
     \<lparr>rpc_RequestID = [], rpc_Method = [], rpc_Body = None\<rparr>"

definition field_RPCRequest :: "RPCRequest \<Rightarrow> string \<Rightarrow> json \<Rightarrow> RPCRequest option" where
  "field_RPCRequest x k v =
     (if key_is ''request_id'' k then map_option (\<lambda>y. x\<lparr>rpc_RequestID := y\<rparr>) (dec_str (rpc_RequestID x) v)
      else if key_is ''method'' k then map_option (\<lambda>y. x\<lparr>rpc_Method := y\<rparr>) (dec_str (rpc_Method x) v)
      else if key_is ''body'' k then map_option (\<lambda>y. x\<lparr>rpc_Body := y\<rparr>) (Some (Some v))
      else Some x)"

definition dec_RPCRequest :: "RPCRequest \<Rightarrow> json \<Rightarrow> RPCRequest option" where
  "dec_RPCRequest = dec_struct field_RPCRequest"

text \<open>
  \<open>json.Unmarshal(data, &x)\<close> for a fresh variable, from bytes and from the body of a
  request that was already split off.
\<close>

definition unmarshal :: "'a \<Rightarrow> ('a \<Rightarrow> json \<Rightarrow> 'a option) \<Rightarrow> bytes \<Rightarrow> 'a res" where
  "unmarshal zero d s =
     (case json_parse s of
        None \<Rightarrow> Inl JsonError
      | Some j \<Rightarrow> (case d zero j of None \<Rightarrow> Inl JsonError | Some x \<Rightarrow> Inr x))"

definition unmarshal_raw :: "'a \<Rightarrow> ('a \<Rightarrow> json \<Rightarrow> 'a option) \<Rightarrow> json option \<Rightarrow> 'a res" where
  "unmarshal_raw zero d b =
     (case b of
        None \<Rightarrow> Inl JsonError
      | Some j \<Rightarrow> (case d zero j of None \<Rightarrow> Inl JsonError | Some x \<Rightarrow> Inr x))"

definition marshal_StoredMessage :: "StoredMessage \<Rightarrow> bytes" where
  "marshal_StoredMessage m = json_print (enc_StoredMessage m)"

definition unmarshal_StoredMessage :: "bytes \<Rightarrow> StoredMessage res" where
  "unmarshal_StoredMessage = unmarshal zero_StoredMessage dec_StoredMessage"

definition marshal_Envelope :: "OfflineMessageEnvelope \<Rightarrow> bytes" where
  "marshal_Envelope m = json_print (enc_OfflineMessageEnvelope m)"

section \<open>Stored messages read back\<close>

text \<open>
  Field names are compared after case folding; the folded names of the stored types.
\<close>

lemma fold_key_names [json_simps]:
  "fold_key ''algorithm'' = ''ALGORITHM''" "fold_key ''recipient_key_id'' = ''RECIPIENT_KEY_ID''"
  "fold_key ''nonce'' = ''NONCE''" "fold_key ''ciphertext'' = ''CIPHERTEXT''"
  "fold_key ''value'' = ''VALUE''" "fold_key ''version'' = ''VERSION''"
  "fold_key ''msg_id'' = ''MSG_ID''" "fold_key ''sender_id'' = ''SENDER_ID''"
  "fold_key ''recipient_id'' = ''RECIPIENT_ID''" "fold_key ''conversation_id'' = ''CONVERSATION_ID''"
  "fold_key ''created_at'' = ''CREATED_AT''" "fold_key ''ttl_sec'' = ''TTL_SEC''"
  "fold_key ''cipher'' = ''CIPHER''" "fold_key ''signature'' = ''SIGNATURE''"
  "fold_key ''store_seq'' = ''STORE_SEQ''" "fold_key ''received_at'' = ''RECEIVED_AT''"
  "fold_key ''expire_at'' = ''EXPIRE_AT''" "fold_key ''message'' = ''MESSAGE''"
  by code_simp+

lemma dec_scalars [json_simps]:
  "dec_int c (jint w) = Some w" "dec_uint d (juint u) = Some u" "dec_str e (JStr s) = Some s"
  by (simp_all add: dec_int_def jint_def dec_uint_def juint_def dec_str_def)

lemma dec_ptr_simps [json_simps]:
  "dec_ptr z d c JNull = Some None"
  "dec_ptr z d c (JObj kvs) = map_option Some (d (case c of None \<Rightarrow> z | Some x \<Rightarrow> x) (JObj kvs))"
  "dec_ptr z d c (jint w) = map_option Some (d (case c of None \<Rightarrow> z | Some x \<Rightarrow> x) (jint w))"
  by (simp_all add: dec_ptr_def jint_def)

lemma dec_struct_obj [json_simps]: "dec_struct f c (JObj kvs) = dec_fields f c kvs"
  by (simp add: dec_struct_def)

lemma dec_enc_CipherPayload [json_simps]: "dec_CipherPayload c (enc_CipherPayload x) = Some x"
  by (simp add: dec_CipherPayload_def enc_CipherPayload_def field_CipherPayload_def key_is_def json_simps)

lemma dec_enc_Signature [json_simps]: "dec_Signature c (enc_Signature x) = Some x"
  by (simp add: dec_Signature_def enc_Signature_def field_Signature_def key_is_def json_simps)

lemma dec_enc_Envelope [json_simps]:
  "TTLSec c = None \<Longrightarrow> dec_OfflineMessageEnvelope c (enc_OfflineMessageEnvelope x) = Some x"
  by (cases "TTLSec x")
    (simp_all add: dec_OfflineMessageEnvelope_def enc_OfflineMessageEnvelope_def
      field_OfflineMessageEnvelope_def key_is_def json_simps)

lemma dec_ptr_Envelope [json_simps]:
  "dec_ptr zero_OfflineMessageEnvelope dec_OfflineMessageEnvelope None (enc_OfflineMessageEnvelope x)
   = Some (Some x)"
proof -
  have "TTLSec zero_OfflineMessageEnvelope = None" by (simp add: zero_OfflineMessageEnvelope_def)
  from dec_enc_Envelope [OF this, of x] show ?thesis
    by (simp add: dec_ptr_def enc_OfflineMessageEnvelope_def)
qed

lemma dec_enc_StoredMessage:
  "dec_StoredMessage zero_StoredMessage (enc_StoredMessage x) = Some x"
  by (cases "sm_Message x")
    (simp_all add: dec_StoredMessage_def enc_StoredMessage_def field_StoredMessage_def
      zero_StoredMessage_def key_is_def json_simps)

text \<open>The texts of a message are valid UTF-8, as everything decoded from JSON is.\<close>

definition wf_CipherPayload :: "CipherPayload \<Rightarrow> bool" where
  "wf_CipherPayload c \<longleftrightarrow> utf8_valid (cp_Algorithm c) \<and> utf8_valid (cp_RecipientKeyID c)
     \<and> utf8_valid (cp_Nonce c) \<and> utf8_valid (cp_Ciphertext c)"

definition wf_Signature :: "Signature \<Rightarrow> bool" where
  "wf_Signature s \<longleftrightarrow> utf8_valid (sig_Algorithm s) \<and> utf8_valid (sig_Value s)"

definition wf_Envelope :: "OfflineMessageEnvelope \<Rightarrow> bool" where
  "wf_Envelope m \<longleftrightarrow> utf8_valid (MsgID m) \<and> utf8_valid (SenderID m) \<and> utf8_valid (RecipientID m)
     \<and> utf8_valid (ConversationID m) \<and> wf_CipherPayload (Cipher m) \<and> wf_Signature (env_Signature m)"

definition wf_StoredMessage :: "StoredMessage \<Rightarrow> bool" where
  "wf_StoredMessage m \<longleftrightarrow> (case sm_Message m of None \<Rightarrow> True | Some e \<Rightarrow> wf_Envelope e)"

lemma wf_json_numbers [simp]: "wf_json (jint w)" "wf_json (juint u)"
proof -
  show "wf_json (jint w)" by (auto simp: jint_def FormatInt_def)
  have "fmt_nat (unat u) = fmt_int (int (unat u))" by (simp add: fmt_int_def)
  then show "wf_json (juint u)" by (auto simp: juint_def FormatUint_def)
qed

lemma json_depth_numbers [simp]: "json_depth (jint w) = 0" "json_depth (juint u) = 0"
  by (simp_all add: jint_def juint_def)

lemma utf8_valid_names [simp]:
  "utf8_valid ''algorithm''" "utf8_valid ''recipient_key_id''" "utf8_valid ''nonce''"
  "utf8_valid ''ciphertext''" "utf8_valid ''value''" "utf8_valid ''version''" "utf8_valid ''msg_id''"
  "utf8_valid ''sender_id''" "utf8_valid ''recipient_id''" "utf8_valid ''conversation_id''"
  "utf8_valid ''created_at''" "utf8_valid ''ttl_sec''" "utf8_valid ''cipher''"
  "utf8_valid ''signature''" "utf8_valid ''store_seq''" "utf8_valid ''received_at''"
  "utf8_valid ''expire_at''" "utf8_valid ''message''"
  by (rule ascii_utf8_valid, simp add: is_ascii_def)+

lemma wf_enc_CipherPayload: "wf_CipherPayload c \<Longrightarrow> wf_json (enc_CipherPayload c)"
  by (simp add: wf_CipherPayload_def enc_CipherPayload_def)

lemma wf_enc_Signature: "wf_Signature s \<Longrightarrow> wf_json (enc_Signature s)"
  by (simp add: wf_Signature_def enc_Signature_def)

lemma wf_enc_Envelope: "wf_Envelope m \<Longrightarrow> wf_json (enc_OfflineMessageEnvelope m)"
  by (cases "TTLSec m")
    (simp_all add: wf_Envelope_def enc_OfflineMessageEnvelope_def wf_enc_CipherPayload wf_enc_Signature)

lemma depth_enc_Envelope: "json_depth (enc_OfflineMessageEnvelope m) = 2"
  by (cases "TTLSec m")
    (simp_all add: enc_OfflineMessageEnvelope_def enc_CipherPayload_def enc_Signature_def)

lemma wf_enc_StoredMessage: "wf_StoredMessage m \<Longrightarrow> wf_json (enc_StoredMessage m)"
  by (cases "sm_Message m")
    (simp_all add: wf_StoredMessage_def enc_StoredMessage_def wf_enc_Envelope)

lemma depth_enc_StoredMessage: "json_depth (enc_StoredMessage m) \<le> max_nesting"
  by (cases "sm_Message m") (simp_all add: enc_StoredMessage_def depth_enc_Envelope max_nesting_def)

lemma unmarshal_marshal_StoredMessage [json_simps]:
  "wf_StoredMessage m \<Longrightarrow> unmarshal_StoredMessage (marshal_StoredMessage m) = Inr m"
  by (simp add: unmarshal_StoredMessage_def marshal_StoredMessage_def unmarshal_def
      json_parse_print wf_enc_StoredMessage depth_enc_StoredMessage dec_enc_StoredMessage)

end
