(* ===== verification/Keys.thy ===== *)
theory Keys
  imports GoLib
begin

text \<open>
  \<open>internal/storage/pebble/keys.go\<close>: the textual keys of the message store, their
  parsers and the bounds of the range scans. The lemmas show that, for recipient ids without
  a slash, keys of different records never collide, parse back to what they were built from,
  and sort so that a range scan sees exactly the records it is meant to see, in numeric order.
\<close>

section \<open>Building keys\<close>

definition msgPrefix :: "string \<Rightarrow> string" where
  "msgPrefix recipientID = ''msg/'' @ recipientID @ ''/''"

definition msgKey :: "string \<Rightarrow> uint64 \<Rightarrow> string" where
  "msgKey recipientID storeSeq = msgPrefix recipientID @ fmt020u storeSeq"

definition dupKey :: "string \<Rightarrow> string \<Rightarrow> string" where
  "dupKey recipientID msgID = ''dup/'' @ recipientID @ ''/'' @ msgID"

definition seqKey :: "string \<Rightarrow> string" where
  "seqKey recipientID = ''seq/'' @ recipientID"

definition expKey :: "int64 \<Rightarrow> string \<Rightarrow> uint64 \<Rightarrow> string" where
  "expKey expireAt recipientID storeSeq =
     ''exp/'' @ fmt020d expireAt @ ''/'' @ recipientID @ ''/'' @ fmt020u storeSeq"

definition deliveredKey :: "string \<Rightarrow> string" where
  "deliveredKey recipientID = ''state/'' @ recipientID @ ''/delivered''"

definition ackedKey :: "string \<Rightarrow> string" where
  "ackedKey recipientID = ''state/'' @ recipientID @ ''/acked''"

definition expUpperBound :: "int64 \<Rightarrow> string" where
  "expUpperBound now = ''exp/'' @ fmt020d (now + 1) @ ''/''"

definition prefixUpperBound :: "string \<Rightarrow> bytes" where
  "prefixUpperBound pre = pre @ [CHR 0xFF]"

section \<open>Parsing keys\<close>

definition parseUint64 :: "bytes \<Rightarrow> uint64 res" where
  "parseUint64 data = ParseUint data"

definition parseMsgKey :: "bytes \<Rightarrow> (string \<times> uint64) res" where
  "parseMsgKey key =
     (let parts = split_on CHR ''/'' key
      in if length parts \<noteq> 3 then Inl (FmtError (''invalid msg key: '' @ key))
         else case ParseUint (parts ! 2) of
             Inl e \<Rightarrow> Inl e
           | Inr storeSeq \<Rightarrow> Inr (parts ! 1, storeSeq))"

definition parseExpKey :: "bytes \<Rightarrow> (int64 \<times> string \<times> uint64) res" where
  "parseExpKey key =
     (let parts = split_on CHR ''/'' key
      in if length parts \<noteq> 4 then Inl (FmtError (''invalid exp key: '' @ key))
         else case ParseInt (parts ! 1) of
             Inl e \<Rightarrow> Inl e
           | Inr expireAt \<Rightarrow>
               (case ParseUint (parts ! 3) of
                  Inl e \<Rightarrow> Inl e
                | Inr storeSeq \<Rightarrow> Inr (expireAt, parts ! 2, storeSeq)))"

section \<open>Round trips\<close>

text \<open>A recipient id is plain when it contains no slash (as every libp2p peer id).\<close>

definition plain :: "string \<Rightarrow> bool" where
  "plain r \<longleftrightarrow> CHR ''/'' \<notin> set r"

lemma fmt020u_no_slash [simp]: "CHR ''/'' \<notin> set (fmt020u w)"
  by (rule digits_no_slash) (rule fmt020u_digits)

lemma fmt020d_no_slash: "0 \<le> sint e \<Longrightarrow> CHR ''/'' \<notin> set (fmt020d e)"
  by (rule digits_no_slash) (rule fmt020d_digits)

lemma split_msgKey: "split_on CHR ''/'' (msgKey r s) = ''msg'' # split_on CHR ''/'' r @ [fmt020u s]"
proof -
  have app: "split_on CHR ''/'' (a @ CHR ''/'' # b) = split_on CHR ''/'' a @ split_on CHR ''/'' b" for a b
    by (induction a) (auto split: list.splits)
  have "msgKey r s = ''msg'' @ CHR ''/'' # (r @ CHR ''/'' # fmt020u s)"
    by (simp add: msgKey_def msgPrefix_def)
  then show ?thesis
    by (simp only: app split_on_no_sep [OF fmt020u_no_slash]) simp
qed

lemma parseMsgKey_msgKey [key_simps]: "plain r \<Longrightarrow> parseMsgKey (msgKey r s) = Inr (r, s)"
  by (simp add: parseMsgKey_def split_msgKey plain_def split_on_no_sep)

lemma parseMsgKey_slash:
  "\<not> plain r \<Longrightarrow> parseMsgKey (msgKey r s) = Inl (FmtError (''invalid msg key: '' @ msgKey r s))"
  by (simp add: parseMsgKey_def split_msgKey plain_def length_split_on count_list_0_iff Let_def)

lemma split_expKey:
  assumes "0 \<le> sint e"
  shows "split_on CHR ''/'' (expKey e r s)
    = ''exp'' # fmt020d e # split_on CHR ''/'' r @ [fmt020u s]"
proof -
  have app: "split_on CHR ''/'' (a @ CHR ''/'' # b) = split_on CHR ''/'' a @ split_on CHR ''/'' b" for a b
    by (induction a) (auto split: list.splits)
  have "expKey e r s = ''exp'' @ CHR ''/'' # (fmt020d e @ CHR ''/'' # (r @ CHR ''/'' # fmt020u s))"
    by (simp add: expKey_def)
  then show ?thesis
    using split_on_no_sep [OF fmt020d_no_slash [OF assms]]
    by (simp only: app split_on_no_sep [OF fmt020u_no_slash]) simp
qed

lemma parseExpKey_expKey [key_simps]:
  "plain r \<Longrightarrow> 0 \<le> sint e \<Longrightarrow> parseExpKey (expKey e r s) = Inr (e, r, s)"
  by (simp add: parseExpKey_def split_expKey plain_def split_on_no_sep ParseInt_fmt020d)

lemma parseExpKey_slash:
  "\<not> plain r \<Longrightarrow> 0 \<le> sint e \<Longrightarrow>
   parseExpKey (expKey e r s) = Inl (FmtError (''invalid exp key: '' @ expKey e r s))"
  by (simp add: parseExpKey_def split_expKey plain_def length_split_on count_list_0_iff Let_def)

section \<open>Logical keys\<close>

text \<open>
  What a key stands for. \<open>enc_key\<close> is the textual form; on well-formed logical keys it
  is injective, so the flat key space is a faithful copy of the logical one.
\<close>

datatype lkey =
    KMsg string uint64
  | KDup string string
  | KSeq string
  | KExp int64 string uint64
  | KDelivered string
  | KAcked string

fun enc_key :: "lkey \<Rightarrow> bytes" where
  "enc_key (KMsg r s) = msgKey r s"
| "enc_key (KDup r m) = dupKey r m"
| "enc_key (KSeq r) = seqKey r"
| "enc_key (KExp e r s) = expKey e r s"
| "enc_key (KDelivered r) = deliveredKey r"
| "enc_key (KAcked r) = ackedKey r"

fun wf_lkey :: "lkey \<Rightarrow> bool" where
  "wf_lkey (KMsg r s) = plain r"
| "wf_lkey (KDup r m) = plain r"
| "wf_lkey (KSeq r) = plain r"
| "wf_lkey (KExp e r s) = (plain r \<and> 0 \<le> sint e)"
| "wf_lkey (KDelivered r) = plain r"
| "wf_lkey (KAcked r) = plain r"

lemmas key_defs = msgKey_def msgPrefix_def dupKey_def seqKey_def expKey_def deliveredKey_def
  ackedKey_def

lemma dupKey_inj [key_simps]: "plain r \<Longrightarrow> plain r' \<Longrightarrow> dupKey r m = dupKey r' m' \<longleftrightarrow> r = r' \<and> m = m'"
  using append_separator_eq [of "CHR ''/''" r r' m m'] by (auto simp: dupKey_def plain_def)

lemma msgKey_inj [key_simps]: "plain r \<Longrightarrow> plain r' \<Longrightarrow> msgKey r s = msgKey r' s' \<longleftrightarrow> r = r' \<and> s = s'"
  by (metis parseMsgKey_msgKey Pair_inject sum.inject(2))

lemma expKey_inj [key_simps]:
  "plain r \<Longrightarrow> plain r' \<Longrightarrow> 0 \<le> sint e \<Longrightarrow> 0 \<le> sint e' \<Longrightarrow>
   expKey e r s = expKey e' r' s' \<longleftrightarrow> e = e' \<and> r = r' \<and> s = s'"
  by (metis parseExpKey_expKey Pair_inject sum.inject(2))

lemma state_keys_inj [key_simps]:
  "plain r \<Longrightarrow> plain r' \<Longrightarrow> deliveredKey r = deliveredKey r' \<longleftrightarrow> r = r'"
  "plain r \<Longrightarrow> plain r' \<Longrightarrow> ackedKey r = ackedKey r' \<longleftrightarrow> r = r'"
  "plain r \<Longrightarrow> plain r' \<Longrightarrow> deliveredKey r \<noteq> ackedKey r'"
  using append_separator_eq [of "CHR ''/''" r r' "''delivered''" "''acked''"]
  by (auto simp: deliveredKey_def ackedKey_def plain_def)

lemma enc_key_inj:
  "wf_lkey k \<Longrightarrow> wf_lkey k' \<Longrightarrow> enc_key k = enc_key k' \<longleftrightarrow> k = k'"
  by (cases k; cases k')
    (auto simp: key_simps state_keys_inj(3) [symmetric],
      auto simp: key_defs dest: state_keys_inj(3))

section \<open>Order and range scans\<close>

lemma msgKey_less_iff [key_simps]: "msgKey r s < msgKey r s' \<longleftrightarrow> s < s'"
  by (simp add: msgKey_def fmt020u_less_iff)

lemma msgKey_le_iff [key_simps]: "msgKey r s \<le> msgKey r s' \<longleftrightarrow> s \<le> s'"
  by (simp add: msgKey_def fmt020u_le_iff)

lemma msgPrefix_le_msgKey [key_simps]: "msgPrefix r \<le> msgKey r s"
  by (rule prefix_le) (simp add: msgKey_def)

lemma msgKey_less_upper [key_simps]: "msgKey r s < prefixUpperBound (msgPrefix r)"
proof -
  obtain d ds where d: "fmt020u s = d # ds" "is_digit d"
    using length_fmt020u [of s] fmt020u_digits [of s] by (cases "fmt020u s") auto
  then have "d < CHR 0xFF" by (auto simp: is_digit_alt less_char_def)
  with d show ?thesis by (simp add: msgKey_def prefixUpperBound_def)
qed

lemma prefix_msgPrefix_enc_key:
  assumes "wf_lkey k" "plain r" "prefix (msgPrefix r) (enc_key k)"
  shows "\<exists>s. k = KMsg r s"
proof -
  from assms(3) obtain z where z: "enc_key k = ''msg/'' @ r @ CHR ''/'' # z"
    by (auto simp: prefix_def msgPrefix_def)
  show ?thesis
  proof (cases k)
    case (KMsg r' s)
    then have "r' @ CHR ''/'' # fmt020u s = r @ CHR ''/'' # z"
      using z by (simp add: msgKey_def msgPrefix_def)
    with assms KMsg show ?thesis
      using append_separator_eq [of "CHR ''/''" r' r] by (auto simp: plain_def)
  qed (use z in \<open>auto simp: key_defs\<close>)
qed

text \<open>
  A scan from a sequence number to the end of the recipient's prefix sees exactly the
  recipient's message keys from that number on, and no other key of the store.
\<close>

lemma msg_scan_range [key_simps]:
  assumes "wf_lkey k" "plain r"
  shows "msgKey r a \<le> enc_key k \<and> enc_key k < prefixUpperBound (msgPrefix r) \<longleftrightarrow>
    (\<exists>s. k = KMsg r s \<and> a \<le> s)"
proof
  assume h: "msgKey r a \<le> enc_key k \<and> enc_key k < prefixUpperBound (msgPrefix r)"
  then have "msgPrefix r \<le> enc_key k" using msgPrefix_le_msgKey order_trans by blast
  with h have "prefix (msgPrefix r) (enc_key k)" by (auto simp: prefixUpperBound_def intro: prefix_range)
  then obtain s where "k = KMsg r s" using assms prefix_msgPrefix_enc_key by blast
  with h show "\<exists>s. k = KMsg r s \<and> a \<le> s" by (auto simp: msgKey_le_iff)
next
  assume "\<exists>s. k = KMsg r s \<and> a \<le> s"
  then show "msgKey r a \<le> enc_key k \<and> enc_key k < prefixUpperBound (msgPrefix r)"
    by (auto simp: msgKey_le_iff msgKey_less_upper)
qed

lemma msg_prefix_scan_range [key_simps]:
  assumes "wf_lkey k" "plain r"
  shows "msgPrefix r \<le> enc_key k \<and> enc_key k < prefixUpperBound (msgPrefix r) \<longleftrightarrow>
    (\<exists>s. k = KMsg r s)"
proof
  assume "msgPrefix r \<le> enc_key k \<and> enc_key k < prefixUpperBound (msgPrefix r)"
  then have "prefix (msgPrefix r) (enc_key k)" by (auto simp: prefixUpperBound_def intro: prefix_range)
  then show "\<exists>s. k = KMsg r s" using assms prefix_msgPrefix_enc_key by blast
qed (auto simp: msgPrefix_le_msgKey msgKey_less_upper)

lemma expKey_less_bound:
  assumes "0 \<le> sint e" "0 \<le> sint b"
  shows "expKey e r s < ''exp/'' @ fmt020d b @ ''/'' \<longleftrightarrow> sint e < sint b"
proof -
  have len: "length (fmt020d e) = length (fmt020d b)" using assms by (simp add: length_fmt020d)
  let ?x = "CHR ''/'' # r @ CHR ''/'' # fmt020u s"
  consider "sint e < sint b" | "fmt020d e = fmt020d b" "sint e = sint b" | "sint b < sint e"
    by (metis linorder_neqE_linordered_idom signed_word_eqI)
  then have "fmt020d e @ ?x < fmt020d b @ ''/'' \<longleftrightarrow> sint e < sint b"
  proof cases
    case 1
    then show ?thesis
      using assms less_append_eq_length [OF len] by (simp add: fmt020d_less_iff)
  next
    case 2
    then show ?thesis by simp
  next
    case 3
    then have "fmt020d b @ ''/'' < fmt020d e @ ?x"
      using assms less_append_eq_length [OF len [symmetric]] by (simp add: fmt020d_less_iff)
    with 3 show ?thesis by (meson less_asym)
  qed
  then show ?thesis by (simp add: expKey_def)
qed

text \<open>
  The scan of the expiry index up to a time sees exactly the entries that expire no later,
  for times that are not negative and below the largest one.
\<close>

lemma exp_scan_range [key_simps]:
  assumes "wf_lkey k" "0 \<le> sint now" "sint now < 2 ^ 63 - 1"
  shows "''exp/'' \<le> enc_key k \<and> enc_key k < expUpperBound now \<longleftrightarrow>
    (\<exists>e r s. k = KExp e r s \<and> sint e \<le> sint now)"
proof (cases k)
  case (KExp e r s)
  then have e: "0 \<le> sint e" using assms(1) by simp
  have n: "sint (now + 1) = sint now + 1" using assms(3) by (rule sint_succ)
  have "prefix ''exp/'' (expKey e r s)" by (simp add: expKey_def)
  then have "''exp/'' \<le> expKey e r s" by (rule prefix_le)
  with KExp show ?thesis
    using expKey_less_bound [OF e, of "now + 1"] assms(2) n by (auto simp: expUpperBound_def)
qed (auto simp: key_defs expUpperBound_def less_char_def le_less)

lemma exp_scan_in:
  assumes "''exp/'' \<le> enc_key k" "enc_key k < expUpperBound now" "wf_lkey k"
  shows "\<exists>e r s. k = KExp e r s"
  using assms by (cases k) (auto simp: key_defs expUpperBound_def less_char_def le_less)

end
