(* ===== verification/Pebble.thy ===== *)
theory Pebble
  imports Prelude "HOL-Library.AList"
begin

text \<open>
  The interface of the key-value store (the third-party library \<open>pebble\<close>), as the
  program uses it: \<open>Get\<close>, a forward iterator over a key range, and the atomic commit of
  a batch. The library is a parameter of the model: a record of operations on a database
  type, with the documented behaviour as the assumptions of two locales.
  \<open>pebble_db\<close> allows any operation to fail; \<open>pebble_ok\<close> is the case without
  faults. A failed \<open>batch.Set\<close> or \<open>batch.Delete\<close> abandons the batch like a
  failed commit, so both are the failure of the commit here.
\<close>

datatype batch_op = BSet bytes bytes | BDelete bytes

fun apply_op :: "(bytes \<rightharpoonup> bytes) \<Rightarrow> batch_op \<Rightarrow> (bytes \<rightharpoonup> bytes)" where
  "apply_op m (BSet k v) = m(k \<mapsto> v)"
| "apply_op m (BDelete k) = m(k := None)"

definition apply_batch :: "batch_op list \<Rightarrow> (bytes \<rightharpoonup> bytes) \<Rightarrow> (bytes \<rightharpoonup> bytes)" where
  "apply_batch b m = foldl apply_op m b"

lemma apply_batch_simps [simp]:
  "apply_batch [] m = m"
  "apply_batch (x # b) m = apply_batch b (apply_op m x)"
  "apply_batch (b @ c) m = apply_batch c (apply_batch b m)"
  by (simp_all add: apply_batch_def)

lemma finite_apply_batch: "finite (dom m) \<Longrightarrow> finite (dom (apply_batch b m))"
proof (induction b arbitrary: m)
  case (Cons x b)
  have "finite (dom (apply_op m x))" using Cons.prems by (cases x) auto
  with Cons.IH show ?case by simp
qed simp

text \<open>The entries of a half-open key range, in key order.\<close>

definition entries :: "(bytes \<rightharpoonup> bytes) \<Rightarrow> bytes \<Rightarrow> bytes \<Rightarrow> (bytes \<times> bytes) list" where
  "entries m lo hi =
     map (\<lambda>k. (k, the (m k))) (sorted_list_of_set {k \<in> dom m. lo \<le> k \<and> k < hi})"

text \<open>
  \<open>db_Iter\<close> gives the entries that a forward scan yields and, if the scan stops early,
  the error that \<open>iter.Error()\<close> reports once the entries are used up.
\<close>

record 'db pebble =
  db_Get :: "'db \<Rightarrow> bytes \<Rightarrow> bytes res"
  db_Iter :: "'db \<Rightarrow> bytes \<Rightarrow> bytes \<Rightarrow> ((bytes \<times> bytes) list \<times> goerr option) res"
  db_Commit :: "'db \<Rightarrow> batch_op list \<Rightarrow> goerr option \<times> 'db"

locale pebble_db =
  fixes P :: "'db pebble"
    and view :: "'db \<Rightarrow> bytes \<rightharpoonup> bytes"
  assumes Get_found: "db_Get P d k = Inr v \<Longrightarrow> view d k = Some v"
    and Get_missing: "db_Get P d k = Inl ErrNotFound \<Longrightarrow> view d k = None"
    and Iter_done: "db_Iter P d lo hi = Inr (es, None) \<Longrightarrow> es = entries (view d) lo hi"
    and Iter_stopped: "db_Iter P d lo hi = Inr (es, Some e) \<Longrightarrow> prefix es (entries (view d) lo hi)"
    and Commit_done: "db_Commit P d b = (None, d') \<Longrightarrow> view d' = apply_batch b (view d)"
    and Commit_failed: "db_Commit P d b = (Some e, d') \<Longrightarrow> view d' = view d"
    and finite_view: "finite (dom (view d))"

locale pebble_ok = pebble_db +
  assumes Get_fails: "db_Get P d k = Inl e \<Longrightarrow> e = ErrNotFound"
    and Iter_ok: "\<exists>es. db_Iter P d lo hi = Inr (es, None)"
    and Commit_ok: "\<exists>d'. db_Commit P d b = (None, d')"
begin

lemma Get_eq: "db_Get P d k = (case view d k of None \<Rightarrow> Inl ErrNotFound | Some v \<Rightarrow> Inr v)"
  using Get_found Get_missing Get_fails
  by (cases "db_Get P d k") (auto split: option.splits)

lemma Iter_eq: "db_Iter P d lo hi = Inr (entries (view d) lo hi, None)"
  using Iter_done Iter_ok by metis

lemma CommitE:
  obtains d' where "db_Commit P d b = (None, d')" and "view d' = apply_batch b (view d)"
  using Commit_ok Commit_done by metis

end

section \<open>A reference store\<close>

text \<open>
  An association list that never fails, the simplest store with the documented behaviour:
  it shows that the assumptions can hold together and is what examples run on.
\<close>

type_synonym memdb = "(bytes \<times> bytes) list"

fun mem_apply :: "memdb \<Rightarrow> batch_op \<Rightarrow> memdb" where
  "mem_apply m (BSet k v) = AList.update k v m"
| "mem_apply m (BDelete k) = AList.delete k m"

definition mem_pebble :: "memdb pebble" where
  "mem_pebble =
     \<lparr>db_Get = (\<lambda>m k. case map_of m k of None \<Rightarrow> Inl ErrNotFound | Some v \<Rightarrow> Inr v),
      db_Iter = (\<lambda>m lo hi.
        Inr (map (\<lambda>k. (k, the (map_of m k)))
               (sort (remdups (filter (\<lambda>k. lo \<le> k \<and> k < hi) (map fst m)))), None)),
      db_Commit = (\<lambda>m b. (None, foldl mem_apply m b))\<rparr>"

lemma mem_apply_view: "map_of (mem_apply m x) = apply_op (map_of m) x"
  by (cases x) (simp_all add: update_conv' delete_conv')

lemma mem_batch_view: "map_of (foldl mem_apply m b) = apply_batch b (map_of m)"
  by (induction b arbitrary: m) (simp_all add: mem_apply_view)

lemma mem_range:
  "{k \<in> dom (map_of m). lo \<le> k \<and> k < hi} = set (filter (\<lambda>k. lo \<le> k \<and> k < hi) (map fst m))"
  by (auto simp: dom_map_of_conv_image_fst)

interpretation mem: pebble_ok mem_pebble map_of
proof unfold_locales
  fix d :: memdb and lo hi :: bytes and es
  assume "db_Iter mem_pebble d lo hi = Inr (es, None)"
  then show "es = entries (map_of d) lo hi"
    by (simp add: mem_pebble_def entries_def mem_range sorted_list_of_set_sort_remdups del: set_filter)
qed (auto simp: mem_pebble_def mem_batch_view finite_dom_map_of split: option.splits)

end
