(* ===== verification/Mailbox.thy ===== *)
theory Mailbox
  imports Protocol Keys Pebble
begin

text \<open>
  The abstract specification of the message store: one mailbox per recipient, holding the
  pending messages by sequence number and three counters (last sequence number given out,
  delivered frontier, acknowledged frontier). \<open>repr\<close> relates such mailboxes to the
  contents of the key-value store; the lemmas say how scans and batches look through it.
\<close>

record mailbox =
  mb_last :: uint64
  mb_delivered :: uint64
  mb_acked :: uint64
  mb_msgs :: "uint64 \<rightharpoonup> StoredMessage"

type_synonym mailboxes = "string \<Rightarrow> mailbox"

definition empty_mailbox :: mailbox where
  "empty_mailbox = \<lparr>mb_last = 0, mb_delivered = 0, mb_acked = 0, mb_msgs = Map.empty\<rparr>"

definition msg_id :: "StoredMessage \<Rightarrow> string" where
  "msg_id sm = (case sm_Message sm of None \<Rightarrow> [] | Some env \<Rightarrow> MsgID env)"

section \<open>Well-formed mailboxes\<close>

definition stored_ok :: "string \<Rightarrow> uint64 \<Rightarrow> StoredMessage \<Rightarrow> bool" where
  "stored_ok r s sm \<longleftrightarrow>
     StoreSeq sm = s \<and> 0 < s \<and> wf_StoredMessage sm \<and> 0 \<le> sint (ExpireAt sm) \<and>
     (\<exists>env. sm_Message sm = Some env \<and> RecipientID env = r \<and> MsgID env \<noteq> [])"

definition mailbox_ok :: "string \<Rightarrow> mailbox \<Rightarrow> bool" where
  "mailbox_ok r mb \<longleftrightarrow>
     (\<forall>s sm. mb_msgs mb s = Some sm \<longrightarrow>
       stored_ok r s sm \<and> mb_acked mb < s \<and> s \<le> mb_last mb) \<and>
     (\<forall>s t sm tm. mb_msgs mb s = Some sm \<longrightarrow> mb_msgs mb t = Some tm \<longrightarrow> msg_id sm = msg_id tm \<longrightarrow> s = t) \<and>
     mb_acked mb \<le> mb_delivered mb \<and> mb_delivered mb \<le> mb_last mb"

lemma mailbox_ok_stored: "mailbox_ok r mb \<Longrightarrow> mb_msgs mb s = Some sm \<Longrightarrow> stored_ok r s sm"
  and mailbox_ok_last: "mailbox_ok r mb \<Longrightarrow> mb_msgs mb s = Some sm \<Longrightarrow> s \<le> mb_last mb"
  and mailbox_ok_unacked: "mailbox_ok r mb \<Longrightarrow> mb_msgs mb s = Some sm \<Longrightarrow> mb_acked mb < s"
  and mailbox_ok_unique:
    "mailbox_ok r mb \<Longrightarrow> mb_msgs mb s = Some sm \<Longrightarrow> mb_msgs mb t = Some tm \<Longrightarrow>
     msg_id sm = msg_id tm \<Longrightarrow> s = t"
  and mailbox_ok_frontiers:
    "mailbox_ok r mb \<Longrightarrow> mb_acked mb \<le> mb_delivered mb \<and> mb_delivered mb \<le> mb_last mb"
  by (auto simp: mailbox_ok_def)

lemma empty_mailbox_ok [simp]: "mailbox_ok r empty_mailbox"
  by (simp add: mailbox_ok_def empty_mailbox_def)

text \<open>Where a message id is stored.\<close>

definition find_id :: "mailbox \<Rightarrow> string \<Rightarrow> uint64 option" where
  "find_id mb i =
     (if \<exists>s sm. mb_msgs mb s = Some sm \<and> msg_id sm = i
      then Some (THE s. \<exists>sm. mb_msgs mb s = Some sm \<and> msg_id sm = i) else None)"

lemma find_id_Some:
  assumes "mailbox_ok r mb"
  shows "find_id mb i = Some s \<longleftrightarrow> (\<exists>sm. mb_msgs mb s = Some sm \<and> msg_id sm = i)"
proof -
  have "(THE s. \<exists>sm. mb_msgs mb s = Some sm \<and> msg_id sm = i) = s"
    if "mb_msgs mb s = Some sm" "msg_id sm = i" for s sm
    using that mailbox_ok_unique [OF assms] by (intro the_equality) auto
  then show ?thesis by (auto simp: find_id_def)
qed

lemma find_id_None: "find_id mb i = None \<longleftrightarrow> (\<forall>s sm. mb_msgs mb s = Some sm \<longrightarrow> msg_id sm \<noteq> i)"
  by (auto simp: find_id_def)

lemma find_id_NoneD: "find_id mb i = None \<Longrightarrow> mb_msgs mb s = Some sm \<Longrightarrow> msg_id sm \<noteq> i"
  by (simp add: find_id_None)

section \<open>Operations on mailboxes\<close>

definition mb_add :: "StoredMessage \<Rightarrow> mailbox \<Rightarrow> mailbox" where
  "mb_add sm mb = mb\<lparr>mb_last := StoreSeq sm, mb_msgs := (mb_msgs mb)(StoreSeq sm \<mapsto> sm)\<rparr>"

definition mb_remove :: "uint64 \<Rightarrow> mailbox \<Rightarrow> mailbox" where
  "mb_remove s mb = mb\<lparr>mb_msgs := (mb_msgs mb)(s := None)\<rparr>"

lemma mb_remove_fields [simp]:
  "mb_last (mb_remove s mb) = mb_last mb" "mb_delivered (mb_remove s mb) = mb_delivered mb"
  "mb_acked (mb_remove s mb) = mb_acked mb" "mb_msgs (mb_remove s mb) = (mb_msgs mb)(s := None)"
  by (simp_all add: mb_remove_def)

lemma mailbox_ok_remove [intro]: "mailbox_ok r mb \<Longrightarrow> mailbox_ok r (mb_remove s mb)"
  by (auto simp: mailbox_ok_def split: if_splits)

lemma mailbox_ok_add:
  assumes "mailbox_ok r mb" "stored_ok r (StoreSeq sm) sm" "mb_last mb < StoreSeq sm"
    "find_id mb (msg_id sm) = None"
  shows "mailbox_ok r (mb_add sm mb)"
proof -
  have le: "s \<le> StoreSeq sm" "mb_acked mb < s" "msg_id tm \<noteq> msg_id sm" "msg_id sm \<noteq> msg_id tm" "stored_ok r s tm"
    if "mb_msgs mb s = Some tm" for s tm
    using that mailbox_ok_last [OF assms(1), of s tm] mailbox_ok_stored [OF assms(1), of s tm] assms(3)
      mailbox_ok_unacked [OF assms(1), of s tm]
      find_id_NoneD [OF assms(4) that]
    by auto
  have "mb_acked mb < StoreSeq sm" "mb_delivered mb \<le> StoreSeq sm"
    using mailbox_ok_frontiers [OF assms(1)] assms(3) by auto
  then show ?thesis
    using assms(2) mailbox_ok_frontiers [OF assms(1)] mailbox_ok_unique [OF assms(1)]
    by (auto simp: mailbox_ok_def mb_add_def le dest: le(3,4))
qed

lemma mailbox_ok_delivered:
  "mailbox_ok r mb \<Longrightarrow> mb_acked mb \<le> w \<Longrightarrow> w \<le> mb_last mb \<Longrightarrow> mailbox_ok r (mb\<lparr>mb_delivered := w\<rparr>)"
  by (auto simp: mailbox_ok_def)

lemma mailbox_ok_acked:
  "mailbox_ok r mb \<Longrightarrow> w \<le> mb_delivered mb \<Longrightarrow> (\<And>s. s \<in> dom (mb_msgs mb) \<Longrightarrow> w < s) \<Longrightarrow>
   mailbox_ok r (mb\<lparr>mb_acked := w\<rparr>)"
  by (auto simp: mailbox_ok_def)

section \<open>The logical contents of the store\<close>

definition counter_val :: "uint64 \<Rightarrow> bytes option" where
  "counter_val w = (if w = 0 then None else Some (FormatUint w))"

fun lval :: "mailboxes \<Rightarrow> lkey \<Rightarrow> bytes option" where
  "lval M (KMsg r s) = map_option marshal_StoredMessage (mb_msgs (M r) s)"
| "lval M (KDup r i) = map_option FormatUint (find_id (M r) i)"
| "lval M (KSeq r) = counter_val (mb_last (M r))"
| "lval M (KExp e r s) =
     (case mb_msgs (M r) s of None \<Rightarrow> None | Some sm \<Rightarrow> if ExpireAt sm = e then Some [] else None)"
| "lval M (KDelivered r) = counter_val (mb_delivered (M r))"
| "lval M (KAcked r) = counter_val (mb_acked (M r))"

text \<open>The store holds \<open>L\<close>: one entry per logical key, and nothing else.\<close>

definition holds :: "(lkey \<Rightarrow> bytes option) \<Rightarrow> (bytes \<rightharpoonup> bytes) \<Rightarrow> bool" where
  "holds L m \<longleftrightarrow> (\<forall>l. wf_lkey l \<longrightarrow> m (enc_key l) = L l) \<and> (\<forall>k\<in>dom m. \<exists>l. wf_lkey l \<and> k = enc_key l)"

lemma holds_lookup: "holds L m \<Longrightarrow> wf_lkey l \<Longrightarrow> m (enc_key l) = L l"
  by (simp add: holds_def)

lemma holds_keyE:
  assumes "holds L m" "k \<in> dom m"
  obtains l where "wf_lkey l" "k = enc_key l"
  using assms unfolding holds_def by blast

lemma holds_upd: "holds L m \<Longrightarrow> wf_lkey l \<Longrightarrow> holds (L(l := v)) (m(enc_key l := v))"
  by (cases v) (auto simp: holds_def enc_key_inj)

lemma holds_cong: "holds L m \<Longrightarrow> (\<And>l. wf_lkey l \<Longrightarrow> L l = L' l) \<Longrightarrow> holds L' m"
  by (simp add: holds_def)

definition repr :: "mailboxes \<Rightarrow> (bytes \<rightharpoonup> bytes) \<Rightarrow> bool" where
  "repr M m \<longleftrightarrow> holds (lval M) m \<and> (\<forall>r. mailbox_ok r (M r))"

lemma repr_ok [dest]: "repr M m \<Longrightarrow> mailbox_ok r (M r)"
  by (simp add: repr_def)

lemma repr_lookup: "repr M m \<Longrightarrow> wf_lkey l \<Longrightarrow> m (enc_key l) = lval M l"
  by (simp add: repr_def holds_lookup)

lemma repr_keys:
  assumes "repr M m" "plain r"
  shows "m (msgKey r s) = map_option marshal_StoredMessage (mb_msgs (M r) s)"
    and "m (dupKey r i) = map_option FormatUint (find_id (M r) i)"
    and "m (seqKey r) = counter_val (mb_last (M r))"
    and "m (deliveredKey r) = counter_val (mb_delivered (M r))"
    and "m (ackedKey r) = counter_val (mb_acked (M r))"
  using repr_lookup [OF assms(1), of "KMsg r s"] repr_lookup [OF assms(1), of "KDup r i"]
    repr_lookup [OF assms(1), of "KSeq r"] repr_lookup [OF assms(1), of "KDelivered r"]
    repr_lookup [OF assms(1), of "KAcked r"] assms(2)
  by simp_all

lemma repr_empty [simp]: "repr (\<lambda>_. empty_mailbox) Map.empty"
proof -
  have "lval (\<lambda>_. empty_mailbox) l = None" for l
    by (cases l) (simp_all add: empty_mailbox_def counter_val_def find_id_def)
  then show ?thesis by (simp add: repr_def holds_def)
qed

section \<open>Batches\<close>

text \<open>Storing a message: the four writes of the batch and the mailbox they produce.\<close>

lemma repr_add:
  assumes rep: "repr M m" and r: "plain r"
    and sm: "stored_ok r (StoreSeq sm) sm" and fresh: "find_id (M r) (msg_id sm) = None"
    and last: "mb_last (M r) < StoreSeq sm"
  shows "repr (M(r := mb_add sm (M r)))
    (m(msgKey r (StoreSeq sm) \<mapsto> marshal_StoredMessage sm, dupKey r (msg_id sm) \<mapsto> FormatUint (StoreSeq sm),
       expKey (ExpireAt sm) r (StoreSeq sm) \<mapsto> [], seqKey r \<mapsto> FormatUint (StoreSeq sm)))"
    (is "repr ?M ?m")
proof -
  let ?s = "StoreSeq sm" and ?i = "msg_id sm" and ?e = "ExpireAt sm"
  let ?L = "(lval M)(KMsg r ?s := Some (marshal_StoredMessage sm), KDup r ?i := Some (FormatUint ?s),
      KExp ?e r ?s := Some [], KSeq r := Some (FormatUint ?s))"
  have ok: "mailbox_ok r (M r)" using rep by blast
  have ok': "mailbox_ok r (mb_add sm (M r))" using ok sm last fresh by (rule mailbox_ok_add)
  have e: "0 \<le> sint ?e" and s0: "?s \<noteq> 0" using sm by (auto simp: stored_ok_def)
  have s: "mb_msgs (M r) ?s = None"
    using mailbox_ok_last [OF ok, of ?s] last by (cases "mb_msgs (M r) ?s") auto
  have ids: "find_id (mb_add sm (M r)) i = (if i = ?i then Some ?s else find_id (M r) i)" for i
  proof (cases "find_id (mb_add sm (M r)) i")
    case None
    then have "i \<noteq> ?i"
      using find_id_NoneD [of "mb_add sm (M r)" i ?s sm] by (auto simp: mb_add_def)
    moreover have "msg_id tm \<noteq> i" if "mb_msgs (M r) t = Some tm" for t tm
      using that s None find_id_NoneD [of "mb_add sm (M r)" i t tm] by (cases "t = ?s") (auto simp: mb_add_def)
    then have "find_id (M r) i = None" by (simp add: find_id_None)
    ultimately show ?thesis using None by simp
  next
    case (Some t)
    then obtain tm where tm: "mb_msgs (mb_add sm (M r)) t = Some tm" "msg_id tm = i"
      using find_id_Some [OF ok'] by blast
    show ?thesis
    proof (cases "t = ?s")
      case True
      with tm Some show ?thesis by (simp add: mb_add_def)
    next
      case False
      with tm have "mb_msgs (M r) t = Some tm" by (simp add: mb_add_def)
      with tm have "find_id (M r) i = Some t" "i \<noteq> ?i"
        using find_id_Some [OF ok] find_id_NoneD [OF fresh] by blast+
      with Some show ?thesis by simp
    qed
  qed
  have "holds ?L ?m"
    using holds_upd [OF holds_upd [OF holds_upd [OF holds_upd]], of "lval M" m "KMsg r ?s" "KDup r ?i"
        "KExp ?e r ?s" "KSeq r"] rep r e
    by (simp add: repr_def)
  then have "holds (lval ?M) ?m"
  proof (rule holds_cong)
    fix l
    show "?L l = lval ?M l"
      using ids s s0 by (cases l) (auto simp: mb_add_def counter_val_def)
  qed
  moreover have "mailbox_ok r' (?M r')" for r' using rep ok' by auto
  ultimately show ?thesis by (simp add: repr_def)
qed

text \<open>Deleting a message with its index entries.\<close>

lemma find_id_remove:
  assumes "mailbox_ok r mb" "mb_msgs mb s = Some sm"
  shows "find_id (mb_remove s mb) i = (if i = msg_id sm then None else find_id mb i)"
proof (cases "i = msg_id sm")
  case True
  then show ?thesis
    using assms mailbox_ok_unique [OF assms(1)] by (auto simp: find_id_None)
next
  case False
  have ok': "mailbox_ok r (mb_remove s mb)" using assms(1) by blast
  have "find_id (mb_remove s mb) i = Some t \<longleftrightarrow> find_id mb i = Some t" for t
    using False assms(2) by (auto simp: find_id_Some [OF ok'] find_id_Some [OF assms(1)])
  with False show ?thesis by (cases "find_id mb i"; cases "find_id (mb_remove s mb) i") auto
qed

lemma repr_remove:
  assumes rep: "repr M m" and r: "plain r" and s: "mb_msgs (M r) s = Some sm"
  shows "repr (M(r := mb_remove s (M r)))
    (m(msgKey r s := None, dupKey r (msg_id sm) := None, expKey (ExpireAt sm) r s := None))"
    (is "repr ?M ?m")
proof -
  let ?L = "(lval M)(KMsg r s := None, KDup r (msg_id sm) := None, KExp (ExpireAt sm) r s := None)"
  have ok: "mailbox_ok r (M r)" using rep by blast
  have e: "0 \<le> sint (ExpireAt sm)"
    using mailbox_ok_stored [OF ok s] by (simp add: stored_ok_def)
  have "holds ?L ?m"
    using holds_upd [OF holds_upd [OF holds_upd], of "lval M" m "KMsg r s" "KDup r (msg_id sm)"
        "KExp (ExpireAt sm) r s" None None None] rep r e
    by (simp add: repr_def)
  then have "holds (lval ?M) ?m"
  proof (rule holds_cong)
    fix l
    show "?L l = lval ?M l"
      using find_id_remove [OF ok s] s by (cases l) auto
  qed
  moreover have "mailbox_ok r' (?M r')" for r' using rep ok by auto
  ultimately show ?thesis by (simp add: repr_def)
qed

lemma holds_delete_absent:
  assumes "holds L m" "wf_lkey l" "L l = None"
  shows "holds L (m(enc_key l := None))"
  using holds_upd [OF assms(1,2), of None] assms(3) by (simp add: fun_upd_idem)

lemma repr_delete_absent:
  "repr M m \<Longrightarrow> wf_lkey l \<Longrightarrow> lval M l = None \<Longrightarrow> repr M (m(enc_key l := None))"
  by (simp add: repr_def holds_delete_absent)

text \<open>Moving a frontier.\<close>

lemma repr_set_delivered:
  assumes rep: "repr M m" and r: "plain r" and w: "w \<noteq> 0" "mb_acked (M r) \<le> w" "w \<le> mb_last (M r)"
  shows "repr (M(r := (M r)\<lparr>mb_delivered := w\<rparr>)) (m(deliveredKey r \<mapsto> FormatUint w))"
    (is "repr ?M ?m")
proof -
  have "holds ((lval M)(KDelivered r := Some (FormatUint w))) ?m"
    using holds_upd [of "lval M" m "KDelivered r"] rep r by (simp add: repr_def)
  then have "holds (lval ?M) ?m"
    by (rule holds_cong) (use w in \<open>case_tac l; auto simp: counter_val_def find_id_def\<close>)
  moreover have "mailbox_ok r' (?M r')" for r'
    using rep mailbox_ok_delivered [OF repr_ok [OF rep, of r] w(2,3)] by auto
  ultimately show ?thesis by (simp add: repr_def)
qed

lemma repr_set_acked:
  assumes rep: "repr M m" and r: "plain r" and w: "w \<noteq> 0" "w \<le> mb_delivered (M r)"
      "\<And>s. s \<in> dom (mb_msgs (M r)) \<Longrightarrow> w < s"
  shows "repr (M(r := (M r)\<lparr>mb_acked := w\<rparr>)) (m(ackedKey r \<mapsto> FormatUint w))"
    (is "repr ?M ?m")
proof -
  have "holds ((lval M)(KAcked r := Some (FormatUint w))) ?m"
    using holds_upd [of "lval M" m "KAcked r"] rep r by (simp add: repr_def)
  then have "holds (lval ?M) ?m"
    by (rule holds_cong) (use w in \<open>case_tac l; auto simp: counter_val_def find_id_def\<close>)
  moreover have "mailbox_ok r' (?M r')" for r'
    using rep mailbox_ok_acked [OF repr_ok [OF rep, of r] w(2,3)] by auto
  ultimately show ?thesis by (simp add: repr_def)
qed

section \<open>Scans\<close>

definition seqs_from :: "mailbox \<Rightarrow> uint64 \<Rightarrow> uint64 list" where
  "seqs_from mb a = sorted_list_of_set {s \<in> dom (mb_msgs mb). a \<le> s}"

definition pending :: "mailbox \<Rightarrow> uint64 \<Rightarrow> StoredMessage list" where
  "pending mb a = map (\<lambda>s. the (mb_msgs mb s)) (seqs_from mb a)"

definition scan_entry :: "string \<Rightarrow> StoredMessage \<Rightarrow> bytes \<times> bytes" where
  "scan_entry r sm = (msgKey r (StoreSeq sm), marshal_StoredMessage sm)"

lemma sorted_list_of_set_image:
  fixes f :: "'a::linorder \<Rightarrow> 'b::linorder"
  assumes "finite A" "\<And>x y. x < y \<longleftrightarrow> f x < f y"
  shows "sorted_list_of_set (f ` A) = map f (sorted_list_of_set A)"
proof (rule sorted_distinct_set_unique)
  have inj: "inj f" using assms(2) by (metis injI linorder_neq_iff)
  have mono: "x \<le> y \<Longrightarrow> f x \<le> f y" for x y using assms(2) by (metis linorder_not_less)
  show "sorted (map f (sorted_list_of_set A))"
    using mono by (simp add: sorted_map sorted_wrt_mono_rel [OF _ sorted_sorted_list_of_set])
  show "distinct (map f (sorted_list_of_set A))"
    using inj by (simp add: distinct_map inj_on_subset [OF inj])
qed (use assms(1) in auto)

lemma finite_seqs: "finite (dom (mb_msgs (mb :: mailbox)))"
  by simp

lemma set_seqs_from: "set (seqs_from mb a) = {s \<in> dom (mb_msgs mb). a \<le> s}"
  by (simp add: seqs_from_def)

lemma map_StoreSeq_pending: "mailbox_ok r mb \<Longrightarrow> map StoreSeq (pending mb a) = seqs_from mb a"
  by (auto simp: pending_def set_seqs_from intro!: map_idI dest!: mailbox_ok_stored simp: stored_ok_def)

lemma set_pending: "mailbox_ok r mb \<Longrightarrow>
  set (pending mb a) = {sm. mb_msgs mb (StoreSeq sm) = Some sm \<and> a \<le> StoreSeq sm}"
  by (force simp: pending_def set_seqs_from image_iff dest: mailbox_ok_stored simp: stored_ok_def)

lemma range_scan:
  assumes rep: "repr M m" and r: "plain r"
  shows "entries m (msgKey r a) (prefixUpperBound (msgPrefix r)) = map (scan_entry r) (pending (M r) a)"
proof -
  let ?S = "{s \<in> dom (mb_msgs (M r)). a \<le> s}"
  have ok: "mailbox_ok r (M r)" using rep by blast
  have "k \<in> dom m \<and> msgKey r a \<le> k \<and> k < prefixUpperBound (msgPrefix r) \<longleftrightarrow> k \<in> msgKey r ` ?S" for k
  proof
    assume k: "k \<in> dom m \<and> msgKey r a \<le> k \<and> k < prefixUpperBound (msgPrefix r)"
    then obtain l where l: "wf_lkey l" "k = enc_key l"
      using rep holds_keyE unfolding repr_def by metis
    with k r obtain s where s: "l = KMsg r s" "a \<le> s" using msg_scan_range [OF l(1) r] by auto
    then have "s \<in> dom (mb_msgs (M r))" using k l repr_keys(1) [OF rep r, of s] by (auto simp: domIff)
    with s l show "k \<in> msgKey r ` ?S" by auto
  qed (use repr_keys(1) [OF rep r] r in \<open>auto simp: msgKey_le_iff msgKey_less_upper\<close>)
  then have "{k \<in> dom m. msgKey r a \<le> k \<and> k < prefixUpperBound (msgPrefix r)} = msgKey r ` ?S" by blast
  then have "entries m (msgKey r a) (prefixUpperBound (msgPrefix r))
      = map (\<lambda>s. (msgKey r s, the (m (msgKey r s)))) (seqs_from (M r) a)"
    by (simp add: entries_def seqs_from_def sorted_list_of_set_image msgKey_less_iff comp_def)
  also have "\<dots> = map (scan_entry r) (pending (M r) a)"
  proof (subst pending_def, simp add: comp_def, intro ballI)
    fix s
    assume "s \<in> set (seqs_from (M r) a)"
    then obtain sm where sm: "mb_msgs (M r) s = Some sm" by (auto simp: set_seqs_from)
    then have "StoreSeq sm = s" using mailbox_ok_stored [OF ok sm] by (simp add: stored_ok_def)
    then show "(msgKey r s, the (m (msgKey r s))) = scan_entry r (the (mb_msgs (M r) s))"
      using sm repr_keys(1) [OF rep r, of s] by (simp add: scan_entry_def)
  qed
  finally show ?thesis .
qed

lemma prefix_scan:
  assumes rep: "repr M m" and r: "plain r"
  shows "entries m (msgPrefix r) (prefixUpperBound (msgPrefix r)) = map (scan_entry r) (pending (M r) 0)"
proof -
  have "k \<in> dom m \<Longrightarrow> msgPrefix r \<le> k \<and> k < prefixUpperBound (msgPrefix r) \<longleftrightarrow>
      msgKey r 0 \<le> k \<and> k < prefixUpperBound (msgPrefix r)" for k
  proof -
    assume "k \<in> dom m"
    then obtain l where l: "wf_lkey l" "k = enc_key l"
      using rep holds_keyE unfolding repr_def by metis
    then show ?thesis using msg_scan_range [OF l(1) r, of 0] msg_prefix_scan_range [OF l(1) r] by auto
  qed
  then have "entries m (msgPrefix r) (prefixUpperBound (msgPrefix r))
      = entries m (msgKey r 0) (prefixUpperBound (msgPrefix r))"
    by (simp add: entries_def cong: conj_cong)
  then show ?thesis using range_scan [OF rep r] by simp
qed

lemma pending_unmarshal:
  "mailbox_ok r mb \<Longrightarrow> sm \<in> set (pending mb a) \<Longrightarrow>
   unmarshal_StoredMessage (marshal_StoredMessage sm) = Inr sm"
  by (auto simp: set_pending json_simps dest!: mailbox_ok_stored simp: stored_ok_def)

lemma pending_stored:
  "mailbox_ok r mb \<Longrightarrow> sm \<in> set (pending mb a) \<Longrightarrow> stored_ok r (StoreSeq sm) sm"
  by (auto simp: set_pending dest: mailbox_ok_stored)

lemma sorted_pending: "mailbox_ok r mb \<Longrightarrow> sorted_wrt (<) (map StoreSeq (pending mb a))"
  by (simp add: map_StoreSeq_pending seqs_from_def strict_sorted_list_of_set)

context pebble_db
begin

text \<open>What an iterator over a recipient's messages yields, complete or cut short by a fault.\<close>

lemma scan_result:
  assumes rep: "repr M (view d)" and r: "plain r"
    and it: "db_Iter P d (msgKey r a) (prefixUpperBound (msgPrefix r)) = Inr (es, ie)"
  shows "prefix es (map (scan_entry r) (pending (M r) a))"
    and "ie = None \<Longrightarrow> es = map (scan_entry r) (pending (M r) a)"
proof -
  show all: "ie = None \<Longrightarrow> es = map (scan_entry r) (pending (M r) a)"
    using Iter_done [of d _ _ es] it range_scan [OF rep r, of a] by metis
  show "prefix es (map (scan_entry r) (pending (M r) a))"
  proof (cases ie)
    case None
    with all show ?thesis by simp
  next
    case (Some e)
    with it have "prefix es (entries (view d) (msgKey r a) (prefixUpperBound (msgPrefix r)))"
      using Iter_stopped by blast
    then show ?thesis using range_scan [OF rep r, of a] by simp
  qed
qed

lemma prefix_scan_result:
  assumes rep: "repr M (view d)" and r: "plain r"
    and it: "db_Iter P d (msgPrefix r) (prefixUpperBound (msgPrefix r)) = Inr (es, ie)"
  shows "prefix es (map (scan_entry r) (pending (M r) 0))"
    and "ie = None \<Longrightarrow> es = map (scan_entry r) (pending (M r) 0)"
proof -
  show all: "ie = None \<Longrightarrow> es = map (scan_entry r) (pending (M r) 0)"
    using Iter_done [of d _ _ es] it prefix_scan [OF rep r] by metis
  show "prefix es (map (scan_entry r) (pending (M r) 0))"
  proof (cases ie)
    case None
    with all show ?thesis by simp
  next
    case (Some e)
    with it have "prefix es (entries (view d) (msgPrefix r) (prefixUpperBound (msgPrefix r)))"
      using Iter_stopped by blast
    then show ?thesis using prefix_scan [OF rep r] by simp
  qed
qed

end

end
