(* ===== verification/MessageStore.thy ===== *)
theory MessageStore
  imports Mailbox
begin

text \<open>
  \<open>internal/storage/pebble/store.go\<close>: storing a message with duplicate detection and
  the recipient quota. Every operation takes the database operations \<open>P\<close> (the library),
  the context error that \<open>ctx.Err()\<close> reports, the Unix time, and the database. The body of
  \<open>storeMessageWithQuota\<close> runs under the recipient's shard lock, so it is one step here.
\<close>

section \<open>Reading counters and messages\<close>

definition frontier :: "'db pebble \<Rightarrow> 'db \<Rightarrow> string \<Rightarrow> uint64 res" where
  "frontier P d key =
     (case db_Get P d key of
        Inl e \<Rightarrow> if e = ErrNotFound then Inr 0 else Inl e
      | Inr val \<Rightarrow> parseUint64 val)"

definition lastSeq :: "'db pebble \<Rightarrow> 'db \<Rightarrow> string \<Rightarrow> uint64 res" where
  "lastSeq P d recipientID =
     (case db_Get P d (seqKey recipientID) of
        Inl e \<Rightarrow> if e = ErrNotFound then Inr 0 else Inl e
      | Inr val \<Rightarrow> parseUint64 val)"

definition setFrontier :: "batch_op list \<Rightarrow> string \<Rightarrow> uint64 \<Rightarrow> batch_op list" where
  "setFrontier batch key seq = batch @ [BSet key (FormatUint seq)]"

definition loadMessage :: "'db pebble \<Rightarrow> 'db \<Rightarrow> string \<Rightarrow> uint64 \<Rightarrow> StoredMessage res" where
  "loadMessage P d recipientID storeSeq =
     (case db_Get P d (msgKey recipientID storeSeq) of
        Inl e \<Rightarrow> Inl e
      | Inr val \<Rightarrow>
          (case unmarshal_StoredMessage val of
             Inl e \<Rightarrow> Inl (WrapError ''unmarshal stored message: '' e)
           | Inr stored \<Rightarrow> Inr stored))"

definition deleteStaleDuplicate :: "'db pebble \<Rightarrow> 'db \<Rightarrow> string \<Rightarrow> string \<Rightarrow> goerr option \<times> 'db" where
  "deleteStaleDuplicate P d recipientID msgID = db_Commit P d [BDelete (dupKey recipientID msgID)]"

section \<open>Recipient usage\<close>

fun usage_loop :: "(bytes \<times> bytes) list \<Rightarrow> int64 \<Rightarrow> int64 \<Rightarrow> int64 \<times> int64" where
  "usage_loop [] count totalBytes = (count, totalBytes)"
| "usage_loop ((k, v) # es) count totalBytes = usage_loop es (count + 1) (totalBytes + of_nat (length v))"

definition recipientUsageLocked :: "'db pebble \<Rightarrow> 'db \<Rightarrow> string \<Rightarrow> (int64 \<times> int64) res" where
  "recipientUsageLocked P d recipientID =
     (case db_Iter P d (msgPrefix recipientID) (prefixUpperBound (msgPrefix recipientID)) of
        Inl e \<Rightarrow> Inl e
      | Inr (es, err) \<Rightarrow> (case err of Some e \<Rightarrow> Inl e | None \<Rightarrow> Inr (usage_loop es 0 0)))"

definition RecipientUsage :: "'db pebble \<Rightarrow> goerr option \<Rightarrow> 'db \<Rightarrow> string \<Rightarrow> (int64 \<times> int64) res" where
  "RecipientUsage P ctx d recipientID =
     (case ctx of Some e \<Rightarrow> Inl e | None \<Rightarrow> recipientUsageLocked P d recipientID)"

section \<open>Storing\<close>

text \<open>
  The duplicate loop: it returns the stored sequence number and expiry of a duplicate, or
  None when the message id is free, after deleting index entries whose message is gone.
\<close>

partial_function (option) dup_check ::
  "'db pebble \<Rightarrow> 'db \<Rightarrow> string \<Rightarrow> string \<Rightarrow> ((uint64 \<times> int64) option res \<times> 'db) option" where
  "dup_check P d recipientID msgID =
     (case db_Get P d (dupKey recipientID msgID) of
        Inr dupValue \<Rightarrow>
          (case parseUint64 dupValue of
             Inl parseErr \<Rightarrow> Some (Inl parseErr, d)
           | Inr storeSeq \<Rightarrow>
               (case loadMessage P d recipientID storeSeq of
                  Inr existing \<Rightarrow> Some (Inr (Some (storeSeq, ExpireAt existing)), d)
                | Inl fetchErr \<Rightarrow>
                    if fetchErr = ErrNotFound then
                      (case deleteStaleDuplicate P d recipientID msgID of
                         (Some e, d') \<Rightarrow> Some (Inl e, d')
                       | (None, d') \<Rightarrow> dup_check P d' recipientID msgID)
                    else Some (Inl fetchErr, d)))
      | Inl e \<Rightarrow> if e = ErrNotFound then Some (Inr None, d) else Some (Inl e, d))"

definition check_quota :: "'db pebble \<Rightarrow> 'db \<Rightarrow> string \<Rightarrow> bytes \<Rightarrow> int64 \<Rightarrow> int64 \<Rightarrow> unit res" where
  "check_quota P d recipientID payload maxMessages maxBytes =
     (case recipientUsageLocked P d recipientID of
        Inl e \<Rightarrow> Inl e
      | Inr (count, totalBytes) \<Rightarrow>
          if 0 < sint maxMessages \<and> sint maxMessages \<le> sint count
          then Inl (AppError CodeRecipientQuotaExceeded ''recipient pending message quota exceeded'')
          else if 0 < sint maxBytes \<and> sint maxBytes < sint (totalBytes + of_nat (length payload))
          then Inl (AppError CodeRecipientBytesExceeded ''recipient pending bytes exceeded'')
          else Inr ())"

definition stamp :: "StoredMessage \<Rightarrow> OfflineMessageEnvelope \<Rightarrow> uint64 \<Rightarrow> int64 \<Rightarrow> StoredMessage" where
  "stamp msg env storeSeq now =
     msg\<lparr>StoreSeq := storeSeq, ReceivedAt := now, ExpireAt := now + EffectiveTTL (Some env) 0\<rparr>"

definition store_batch :: "string \<Rightarrow> string \<Rightarrow> StoredMessage \<Rightarrow> batch_op list" where
  "store_batch recipientID msgID msg =
     [BSet (msgKey recipientID (StoreSeq msg)) (marshal_StoredMessage msg),
      BSet (dupKey recipientID msgID) (FormatUint (StoreSeq msg)),
      BSet (expKey (ExpireAt msg) recipientID (StoreSeq msg)) [],
      BSet (seqKey recipientID) (FormatUint (StoreSeq msg))]"

text \<open>What follows the duplicate loop: number, stamp, check the quota and commit.\<close>

definition store_new ::
  "'db pebble \<Rightarrow> int64 \<Rightarrow> 'db \<Rightarrow> StoredMessage \<Rightarrow> OfflineMessageEnvelope \<Rightarrow> int64 \<Rightarrow> int64 \<Rightarrow> bool \<Rightarrow>
   (uint64 \<times> int64 \<times> bool) res \<times> 'db" where
  "store_new P now d msg env maxMessages maxBytes enforceQuota =
     (case lastSeq P d (RecipientID env) of
        Inl e \<Rightarrow> (Inl e, d)
      | Inr prev \<Rightarrow>
          (let msg' = stamp msg env (prev + 1) now; payload = marshal_StoredMessage msg'
           in case (if enforceQuota
                    then check_quota P d (RecipientID env) payload maxMessages maxBytes else Inr ()) of
                Inl e \<Rightarrow> (Inl e, d)
              | Inr _ \<Rightarrow>
                  (case db_Commit P d (store_batch (RecipientID env) (MsgID env) msg') of
                     (Some e, d') \<Rightarrow> (Inl e, d')
                   | (None, d') \<Rightarrow> (Inr (StoreSeq msg', ExpireAt msg', False), d'))))"

definition storeMessageWithQuota ::
  "'db pebble \<Rightarrow> goerr option \<Rightarrow> int64 \<Rightarrow> 'db \<Rightarrow> StoredMessage option \<Rightarrow> int64 \<Rightarrow> int64 \<Rightarrow> bool \<Rightarrow>
   ((uint64 \<times> int64 \<times> bool) res \<times> 'db) option" where
  "storeMessageWithQuota P ctx now d msg maxMessages maxBytes enforceQuota =
     (case ctx of Some e \<Rightarrow> Some (Inl e, d)
      | None \<Rightarrow>
        (case msg of None \<Rightarrow> Some (Inl (AppError CodeInvalidPayload ''stored message is required''), d)
         | Some m \<Rightarrow>
           (case sm_Message m of
              None \<Rightarrow> Some (Inl (AppError CodeInvalidPayload ''stored message is required''), d)
            | Some env \<Rightarrow>
                (case dup_check P d (RecipientID env) (MsgID env) of
                   None \<Rightarrow> None
                 | Some (Inl e, d') \<Rightarrow> Some (Inl e, d')
                 | Some (Inr (Some (storeSeq, expireAt)), d') \<Rightarrow> Some (Inr (storeSeq, expireAt, True), d')
                 | Some (Inr None, d') \<Rightarrow>
                     Some (store_new P now d' m env maxMessages maxBytes enforceQuota)))))"

definition StoreMessage ::
  "'db pebble \<Rightarrow> goerr option \<Rightarrow> int64 \<Rightarrow> 'db \<Rightarrow> StoredMessage option \<Rightarrow>
   ((uint64 \<times> int64 \<times> bool) res \<times> 'db) option" where
  "StoreMessage P ctx now d msg = storeMessageWithQuota P ctx now d msg 0 0 False"

definition StoreMessageWithQuota ::
  "'db pebble \<Rightarrow> goerr option \<Rightarrow> int64 \<Rightarrow> 'db \<Rightarrow> StoredMessage option \<Rightarrow> int64 \<Rightarrow> int64 \<Rightarrow>
   ((uint64 \<times> int64 \<times> bool) res \<times> 'db) option" where
  "StoreMessageWithQuota P ctx now d msg maxMessages maxBytes =
     storeMessageWithQuota P ctx now d msg maxMessages maxBytes True"

section \<open>The abstract operation\<close>

definition usage_count :: "mailbox \<Rightarrow> nat" where
  "usage_count mb = length (pending mb 0)"

definition usage_bytes :: "mailbox \<Rightarrow> nat" where
  "usage_bytes mb = sum_list (map (length \<circ> marshal_StoredMessage) (pending mb 0))"

text \<open>An envelope that the store can take: valid texts, a message id, a plain recipient.\<close>

definition storable :: "OfflineMessageEnvelope \<Rightarrow> bool" where
  "storable env \<longleftrightarrow> wf_Envelope env \<and> plain (RecipientID env) \<and> MsgID env \<noteq> []"

text \<open>The message as stored: numbered after the last one and stamped with its times.\<close>

definition next_message :: "mailbox \<Rightarrow> int64 \<Rightarrow> StoredMessage \<Rightarrow> OfflineMessageEnvelope \<Rightarrow> StoredMessage" where
  "next_message mb now msg env = stamp msg env (mb_last mb + 1) now"

section \<open>Facts\<close>

lemma usage_loop_eq:
  "usage_loop es c t = (c + of_nat (length es), t + of_nat (sum_list (map (length \<circ> snd) es)))"
  by (induction es c t rule: usage_loop.induct) (simp_all add: algebra_simps)

lemma counter_val_parse: "counter_val w = Some v \<Longrightarrow> parseUint64 v = Inr w"
  by (auto simp: counter_val_def parseUint64_def split: if_splits)

lemma counter_val_None:
  "counter_val w = None \<longleftrightarrow> w = 0"
  "None = counter_val w \<longleftrightarrow> w = 0"
  by (auto simp: counter_val_def)

lemma stamp_simps [simp]:
  "StoreSeq (stamp m env s now) = s" "ReceivedAt (stamp m env s now) = now"
  "ExpireAt (stamp m env s now) = now + EffectiveTTL (Some env) 0"
  "sm_Message (stamp m env s now) = sm_Message m"
  by (simp_all add: stamp_def)

lemma stamp_ok:
  assumes "sm_Message m = Some env" "storable env" "s \<noteq> 0" "0 \<le> sint (now + EffectiveTTL (Some env) 0)"
  shows "stored_ok (RecipientID env) s (stamp m env s now)"
  using assms by (simp add: stored_ok_def storable_def wf_StoredMessage_def word_neq_0_conv)

lemma msg_id_stamp: "sm_Message m = Some env \<Longrightarrow> msg_id (stamp m env s now) = MsgID env"
  by (simp add: msg_id_def)

context pebble_db
begin

lemma frontier_repr:
  assumes "frontier P d key = Inr w" "view d key = counter_val v"
  shows "w = v"
proof (cases "db_Get P d key")
  case (Inl e)
  with assms(1) have "e = ErrNotFound" "w = 0" by (auto simp: frontier_def split: if_splits)
  with Inl assms(2) show ?thesis using Get_missing [of d key] by (simp add: counter_val_None)
next
  case (Inr val)
  with assms show ?thesis
    using Get_found [OF Inr] counter_val_parse [of v val] by (simp add: frontier_def)
qed

lemma lastSeq_frontier: "lastSeq P d r = frontier P d (seqKey r)"
  by (simp add: lastSeq_def frontier_def)

lemma loadMessage_repr:
  assumes rep: "repr M (view d)" and r: "plain r"
  shows "loadMessage P d r s = Inr sm \<Longrightarrow> mb_msgs (M r) s = Some sm"
    and "loadMessage P d r s = Inl ErrNotFound \<Longrightarrow> mb_msgs (M r) s = None"
proof -
  note key = repr_keys(1) [OF rep r, of s]
  show "loadMessage P d r s = Inr sm \<Longrightarrow> mb_msgs (M r) s = Some sm"
  proof -
    assume l: "loadMessage P d r s = Inr sm"
    then obtain val where val: "db_Get P d (msgKey r s) = Inr val" "unmarshal_StoredMessage val = Inr sm"
      by (auto simp: loadMessage_def split: sum.splits)
    then obtain tm where tm: "mb_msgs (M r) s = Some tm" "val = marshal_StoredMessage tm"
      using Get_found [OF val(1)] key by auto
    then have "unmarshal_StoredMessage val = Inr tm"
      using mailbox_ok_stored [OF repr_ok [OF rep] tm(1)] by (simp add: json_simps stored_ok_def)
    with val tm show ?thesis by simp
  qed
  show "loadMessage P d r s = Inl ErrNotFound \<Longrightarrow> mb_msgs (M r) s = None"
    using Get_missing [of d "msgKey r s"] key by (auto simp: loadMessage_def split: sum.splits)
qed

text \<open>
  The duplicate loop decides whether the message id is stored, deletes nothing, and
  returns in its first round: in a well-formed store no index entry is stale.
\<close>

lemma dup_check_repr:
  assumes rep: "repr M (view d)" and r: "plain r" and res: "dup_check P d r i = Some (res, d')"
  shows "d' = d \<and>
    (case res of Inl e \<Rightarrow> True
     | Inr None \<Rightarrow> find_id (M r) i = None
     | Inr (Some (s, ex)) \<Rightarrow> \<exists>sm. mb_msgs (M r) s = Some sm \<and> msg_id sm = i \<and> ExpireAt sm = ex)"
proof (cases "db_Get P d (dupKey r i)")
  case (Inl e)
  then show ?thesis
    using res Get_missing [of d "dupKey r i"] repr_keys(2) [OF rep r, of i]
    by (auto simp: dup_check.simps [of P d] split: if_splits)
next
  case (Inr val)
  then obtain s where s: "find_id (M r) i = Some s" "val = FormatUint s"
    using Get_found [OF Inr] repr_keys(2) [OF rep r, of i] by auto
  then obtain sm where sm: "mb_msgs (M r) s = Some sm" "msg_id sm = i"
    using find_id_Some [OF repr_ok [OF rep]] by blast
  have "loadMessage P d r s \<noteq> Inl ErrNotFound"
    using loadMessage_repr(2) [OF rep r, of s] sm by auto
  moreover have "loadMessage P d r s = Inr tm \<Longrightarrow> tm = sm" for tm
    using loadMessage_repr(1) [OF rep r, of s] sm by auto
  ultimately show ?thesis
    using res Inr s sm
    by (auto simp: dup_check.simps [of P d] parseUint64_def split: sum.splits if_splits)
qed

lemma dup_check_returns:
  assumes rep: "repr M (view d)" and r: "plain r"
  shows "\<exists>res. dup_check P d r i = Some (res, d)"
proof (cases "db_Get P d (dupKey r i)")
  case (Inl e)
  then show ?thesis by (simp add: dup_check.simps [of P d])
next
  case (Inr val)
  then obtain s where s: "find_id (M r) i = Some s" "val = FormatUint s"
    using Get_found [OF Inr] repr_keys(2) [OF rep r, of i] by auto
  then have "loadMessage P d r s \<noteq> Inl ErrNotFound"
    using loadMessage_repr(2) [OF rep r, of s] find_id_Some [OF repr_ok [OF rep]] by fastforce
  with Inr s show ?thesis
    by (auto simp: dup_check.simps [of P d] parseUint64_def split: sum.splits)
qed

lemma store_batch_view:
  "apply_batch (store_batch r i sm) m =
   m(msgKey r (StoreSeq sm) \<mapsto> marshal_StoredMessage sm, dupKey r i \<mapsto> FormatUint (StoreSeq sm),
     expKey (ExpireAt sm) r (StoreSeq sm) \<mapsto> [], seqKey r \<mapsto> FormatUint (StoreSeq sm))"
  by (simp add: store_batch_def)

lemma store_new_refines:
  assumes rep: "repr M (view d)" and env: "sm_Message msg = Some env" "storable env"
    and fresh: "find_id (M (RecipientID env)) (MsgID env) = None"
    and room: "mb_last (M (RecipientID env)) \<noteq> - 1" "0 \<le> sint (now + EffectiveTTL (Some env) 0)"
    and res: "store_new P now d msg env mm mbytes q = (res, d')"
  shows "case res of
      Inl e \<Rightarrow> repr M (view d')
    | Inr (s, ex, dup) \<Rightarrow>
        (let sm = next_message (M (RecipientID env)) now msg env in
         s = mb_last (M (RecipientID env)) + 1 \<and> ex = ExpireAt sm \<and> \<not> dup \<and>
         repr (M(RecipientID env := mb_add sm (M (RecipientID env)))) (view d'))"
proof (cases "lastSeq P d (RecipientID env)")
  case (Inl e)
  with rep res show ?thesis by (auto simp: store_new_def)
next
  case (Inr prev)
  let ?r = "RecipientID env"
  let ?sm = "next_message (M ?r) now msg env"
  have r: "plain ?r" using env(2) by (simp add: storable_def)
  have last: "prev = mb_last (M ?r)"
    using frontier_repr [OF Inr [unfolded lastSeq_frontier] repr_keys(3) [OF rep r]] .
  have s: "mb_last (M ?r) < mb_last (M ?r) + 1" "mb_last (M ?r) + 1 \<noteq> 0"
    using room(1) word64_le_plus_one [of "mb_last (M ?r)" "mb_last (M ?r) + 1"]
    by (auto simp: eq_neg_iff_add_eq_0)
  have ok: "stored_ok ?r (StoreSeq ?sm) ?sm"
    using stamp_ok [OF env s(2) room(2)] by (simp add: next_message_def)
  have add: "repr (M(?r := mb_add ?sm (M ?r)))
      (apply_batch (store_batch ?r (MsgID env) ?sm) (view d))"
    using repr_add [OF rep r ok] fresh s msg_id_stamp [OF env(1)]
    by (simp add: store_batch_view next_message_def)
  show ?thesis
    using res Inr last add Commit_done Commit_failed rep
    by (auto simp: store_new_def Let_def next_message_def split: sum.splits prod.splits option.splits if_splits)
qed

text \<open>
  Whatever faults occur, storing a message leaves the store with either the old mailboxes
  or the old mailboxes plus the message under the next number, and the result says which.
\<close>

lemma store_refines:
  assumes rep: "repr M (view d)" and env: "sm_Message msg = Some env" "storable env"
    and room: "mb_last (M (RecipientID env)) \<noteq> - 1" "0 \<le> sint (now + EffectiveTTL (Some env) 0)"
    and res: "storeMessageWithQuota P ctx now d (Some msg) mm mbytes q = Some (res, d')"
  shows "case res of
      Inl e \<Rightarrow> repr M (view d')
    | Inr (s, ex, dup) \<Rightarrow>
        if dup then d' = d \<and> (\<exists>sm. mb_msgs (M (RecipientID env)) s = Some sm \<and>
            msg_id sm = MsgID env \<and> ExpireAt sm = ex)
        else find_id (M (RecipientID env)) (MsgID env) = None \<and>
          (let sm = next_message (M (RecipientID env)) now msg env in
           s = mb_last (M (RecipientID env)) + 1 \<and> ex = ExpireAt sm \<and>
           repr (M(RecipientID env := mb_add sm (M (RecipientID env)))) (view d'))"
proof (cases ctx)
  case (Some e)
  with res rep show ?thesis by (auto simp: storeMessageWithQuota_def)
next
  case None
  have r: "plain (RecipientID env)" using env(2) by (simp add: storable_def)
  obtain dr where dr: "dup_check P d (RecipientID env) (MsgID env) = Some (dr, d)"
    using dup_check_returns [OF rep r] by blast
  note dup = dup_check_repr [OF rep r dr]
  show ?thesis
  proof (cases dr)
    case (Inl e)
    with None res dr env(1) rep show ?thesis by (auto simp: storeMessageWithQuota_def)
  next
    case (Inr o1)
    show ?thesis
    proof (cases o1)
      case (Some a)
      with None res dr env(1) dup Inr show ?thesis
        by (cases a) (auto simp: storeMessageWithQuota_def)
    next
      case o1: None
      with None res dr env(1) Inr have "store_new P now d msg env mm mbytes q = (res, d')"
        by (simp add: storeMessageWithQuota_def)
      moreover have "find_id (M (RecipientID env)) (MsgID env) = None" using dup Inr o1 by simp
      ultimately show ?thesis
        using store_new_refines [OF rep env _ room] by (fastforce split: sum.splits simp: Let_def)
    qed
  qed
qed

lemma usage_repr:
  assumes "repr M (view d)" "plain r" "recipientUsageLocked P d r = Inr (c, t)"
  shows "c = of_nat (usage_count (M r)) \<and> t = of_nat (usage_bytes (M r))"
  using assms Iter_done [of d] prefix_scan [OF assms(1,2)]
  by (auto simp: recipientUsageLocked_def usage_loop_eq usage_count_def usage_bytes_def scan_entry_def comp_def
      split: sum.splits option.splits)

end

context pebble_ok
begin

lemma frontier_eq: "view d key = counter_val v \<Longrightarrow> frontier P d key = Inr v"
  by (cases "counter_val v")
    (auto simp: frontier_def Get_eq counter_val_None counter_val_parse)

lemma loadMessage_eq:
  assumes rep: "repr M (view d)" and r: "plain r"
  shows "loadMessage P d r s = (case mb_msgs (M r) s of None \<Rightarrow> Inl ErrNotFound | Some sm \<Rightarrow> Inr sm)"
  using repr_keys(1) [OF rep r, of s] mailbox_ok_stored [OF repr_ok [OF rep], of r s]
  by (auto simp: loadMessage_def Get_eq json_simps stored_ok_def split: option.splits)

lemma dup_check_eq:
  assumes rep: "repr M (view d)" and r: "plain r"
  shows "dup_check P d r i =
    Some (Inr (map_option (\<lambda>s. (s, ExpireAt (the (mb_msgs (M r) s)))) (find_id (M r) i)), d)"
proof (cases "find_id (M r) i")
  case None
  then show ?thesis
    using repr_keys(2) [OF rep r, of i] by (simp add: dup_check.simps [of P d] Get_eq)
next
  case (Some s)
  then obtain sm where "mb_msgs (M r) s = Some sm"
    using find_id_Some [OF repr_ok [OF rep]] by blast
  with Some show ?thesis
    using repr_keys(2) [OF rep r, of i]
    by (simp add: dup_check.simps [of P d] Get_eq parseUint64_def loadMessage_eq [OF rep r])
qed

lemma usage_eq:
  assumes rep: "repr M (view d)" and r: "plain r"
  shows "recipientUsageLocked P d r = Inr (of_nat (usage_count (M r)), of_nat (usage_bytes (M r)))"
proof -
  obtain c t where "recipientUsageLocked P d r = Inr (c, t)"
    by (auto simp: recipientUsageLocked_def Iter_eq usage_loop_eq)
  then show ?thesis using usage_repr [OF rep r] by simp
qed

text \<open>The outcome of storing without faults, case by case.\<close>

lemma store_duplicate:
  assumes rep: "repr M (view d)" and env: "sm_Message msg = Some env" "storable env"
    and dup: "find_id (M (RecipientID env)) (MsgID env) = Some s"
  shows "storeMessageWithQuota P None now d (Some msg) mm mbytes q =
    Some (Inr (s, ExpireAt (the (mb_msgs (M (RecipientID env)) s)), True), d)"
  using dup_check_eq [OF rep, of "RecipientID env" "MsgID env"] env dup
  by (simp add: storeMessageWithQuota_def storable_def)

lemma store_fresh:
  assumes rep: "repr M (view d)" and env: "sm_Message msg = Some env" "storable env"
    and fresh: "find_id (M (RecipientID env)) (MsgID env) = None"
    and room: "mb_last (M (RecipientID env)) \<noteq> - 1" "0 \<le> sint (now + EffectiveTTL (Some env) 0)"
    and quota: "q \<Longrightarrow> check_quota P d (RecipientID env)
      (marshal_StoredMessage (next_message (M (RecipientID env)) now msg env)) mm mbytes = Inr ()"
  shows "\<exists>d'. storeMessageWithQuota P None now d (Some msg) mm mbytes q =
      Some (Inr (mb_last (M (RecipientID env)) + 1,
                 ExpireAt (next_message (M (RecipientID env)) now msg env), False), d') \<and>
    repr (M(RecipientID env := mb_add (next_message (M (RecipientID env)) now msg env)
                                 (M (RecipientID env)))) (view d')"
proof -
  let ?r = "RecipientID env"
  have r: "plain ?r" using env(2) by (simp add: storable_def)
  have last: "lastSeq P d ?r = Inr (mb_last (M ?r))"
    using frontier_eq [OF repr_keys(3) [OF rep r]] by (simp add: lastSeq_frontier)
  obtain d' where d': "db_Commit P d (store_batch ?r (MsgID env) (next_message (M ?r) now msg env)) = (None, d')"
    using CommitE by metis
  have res: "store_new P now d msg env mm mbytes q =
      (Inr (mb_last (M ?r) + 1, ExpireAt (next_message (M ?r) now msg env), False), d')"
    using last d' quota by (auto simp: store_new_def Let_def next_message_def)
  have "storeMessageWithQuota P None now d (Some msg) mm mbytes q =
      Some (store_new P now d msg env mm mbytes q)"
    using dup_check_eq [OF rep r, of "MsgID env"] env(1) fresh by (simp add: storeMessageWithQuota_def)
  then show ?thesis
    using store_new_refines [OF rep env fresh room res] res by (auto simp: Let_def)
qed

lemma store_quota_refused:
  assumes rep: "repr M (view d)" and env: "sm_Message msg = Some env" "storable env"
    and fresh: "find_id (M (RecipientID env)) (MsgID env) = None"
    and quota: "check_quota P d (RecipientID env)
      (marshal_StoredMessage (next_message (M (RecipientID env)) now msg env)) mm mbytes = Inl e"
  shows "storeMessageWithQuota P None now d (Some msg) mm mbytes True = Some (Inl e, d)"
proof -
  let ?r = "RecipientID env"
  have r: "plain ?r" using env(2) by (simp add: storable_def)
  have "lastSeq P d ?r = Inr (mb_last (M ?r))"
    using frontier_eq [OF repr_keys(3) [OF rep r]] by (simp add: lastSeq_frontier)
  then show ?thesis
    using dup_check_eq [OF rep r, of "MsgID env"] env(1) fresh quota
    by (simp add: storeMessageWithQuota_def store_new_def Let_def next_message_def)
qed

text \<open>The quota check compares the mailbox itself with the limits.\<close>

lemma check_quota_eq:
  assumes rep: "repr M (view d)" and r: "plain r"
    and small: "usage_count (M r) < 2 ^ 63" "usage_bytes (M r) + length payload < 2 ^ 63"
  shows "check_quota P d r payload mm mbytes =
    (if 0 < sint mm \<and> sint mm \<le> int (usage_count (M r))
     then Inl (AppError CodeRecipientQuotaExceeded ''recipient pending message quota exceeded'')
     else if 0 < sint mbytes \<and> sint mbytes < int (usage_bytes (M r) + length payload)
     then Inl (AppError CodeRecipientBytesExceeded ''recipient pending bytes exceeded'')
     else Inr ())"
proof -
  have "sint (of_nat (usage_bytes (M r)) + of_nat (length payload) :: int64)
      = int (usage_bytes (M r) + length payload)"
    using sint_of_nat_small [OF small(2)] by simp
  then show ?thesis
    using small(1) by (simp add: check_quota_def usage_eq [OF rep r] sint_of_nat_small)
qed

end

end
