(* ===== verification/MessageFetch.thy ===== *)
theory MessageFetch
  imports MessageStore
begin

text \<open>
  \<open>internal/storage/pebble/fetch.go\<close>: fetching the unexpired messages after a sequence
  number, and moving the delivered frontier over what was delivered. Fetching reads without
  a lock; marking runs under the recipient's shard lock, so it is one step.
\<close>

section \<open>Fetching\<close>

text \<open>
  The loop of \<open>FetchMessages\<close>: expired messages are skipped; the first unexpired one
  beyond the limit sets \<open>hasMore\<close> and stops the scan.
\<close>

fun fetch_loop ::
  "int64 \<Rightarrow> int64 \<Rightarrow> (bytes \<times> bytes) list \<Rightarrow> StoredMessage list \<Rightarrow> (StoredMessage list \<times> bool) res" where
  "fetch_loop now limit [] items = Inr (items, False)"
| "fetch_loop now limit ((k, v) # es) items =
     (case unmarshal_StoredMessage v of
        Inl e \<Rightarrow> Inl e
      | Inr stored \<Rightarrow>
          if sint (ExpireAt stored) \<le> sint now then fetch_loop now limit es items
          else if sint limit \<le> int (length items) then Inr (items, True)
          else fetch_loop now limit es (items @ [stored]))"

definition FetchMessages ::
  "'db pebble \<Rightarrow> goerr option \<Rightarrow> int64 \<Rightarrow> 'db \<Rightarrow> string \<Rightarrow> uint64 \<Rightarrow> int64 \<Rightarrow> (StoredMessage list \<times> bool) res" where
  "FetchMessages P ctx now d recipientID afterSeq limit =
     (case ctx of Some e \<Rightarrow> Inl e
      | None \<Rightarrow>
        if sint limit \<le> 0 then Inr ([], False)
        else
          (case db_Iter P d (msgKey recipientID (afterSeq + 1)) (prefixUpperBound (msgPrefix recipientID)) of
             Inl e \<Rightarrow> Inl e
           | Inr (es, iterErr) \<Rightarrow>
               (case fetch_loop now limit es [] of
                  Inl e \<Rightarrow> Inl e
                | Inr (items, hasMore) \<Rightarrow>
                    if hasMore then Inr (items, True)
                    else (case iterErr of Some e \<Rightarrow> Inl e | None \<Rightarrow> Inr (items, False)))))"

section \<open>Marking as delivered\<close>

text \<open>
  The loop of \<open>MarkDelivered\<close>: it walks the pending messages while they are numbered
  without a gap and each is expired or among the delivered ones. The second component of the
  result tells whether the loop was left by a \<open>break\<close>.
\<close>

fun mark_loop ::
  "int64 \<Rightarrow> uint64 list \<Rightarrow> (bytes \<times> bytes) list \<Rightarrow> uint64 \<Rightarrow> uint64 \<Rightarrow> (uint64 \<times> bool) res" where
  "mark_loop now delivered [] next newFrontier = Inr (newFrontier, False)"
| "mark_loop now delivered ((k, v) # es) next newFrontier =
     (case unmarshal_StoredMessage v of
        Inl e \<Rightarrow> Inl e
      | Inr stored \<Rightarrow>
          if StoreSeq stored \<noteq> next then Inr (newFrontier, True)
          else if sint (ExpireAt stored) \<le> sint now
          then mark_loop now delivered es (next + 1) (StoreSeq stored)
          else if StoreSeq stored \<notin> set delivered then Inr (newFrontier, True)
          else mark_loop now delivered es (next + 1) (StoreSeq stored))"

text \<open>Items are pointers; nil items are skipped.\<close>

definition delivered_seqs :: "StoredMessage option list \<Rightarrow> uint64 list" where
  "delivered_seqs items = map StoreSeq (concat (map (\<lambda>i. case i of None \<Rightarrow> [] | Some m \<Rightarrow> [m]) items))"

definition MarkDelivered ::
  "'db pebble \<Rightarrow> goerr option \<Rightarrow> int64 \<Rightarrow> 'db \<Rightarrow> string \<Rightarrow> StoredMessage option list \<Rightarrow> goerr option \<times> 'db" where
  "MarkDelivered P ctx now d recipientID items =
     (case ctx of Some e \<Rightarrow> (Some e, d)
      | None \<Rightarrow>
        if items = [] then (None, d)
        else
          (case frontier P d (deliveredKey recipientID) of
             Inl e \<Rightarrow> (Some e, d)
           | Inr current \<Rightarrow>
               (case db_Iter P d (msgKey recipientID (current + 1)) (prefixUpperBound (msgPrefix recipientID)) of
                  Inl e \<Rightarrow> (Some e, d)
                | Inr (es, iterErr) \<Rightarrow>
                    (case mark_loop now (delivered_seqs items) es (current + 1) current of
                       Inl e \<Rightarrow> (Some e, d)
                     | Inr (newFrontier, broke) \<Rightarrow>
                         (case (if broke then None else iterErr) of
                            Some e \<Rightarrow> (Some e, d)
                          | None \<Rightarrow>
                              if newFrontier = current then (None, d)
                              else db_Commit P d (setFrontier [] (deliveredKey recipientID) newFrontier))))))"

section \<open>The abstract operations\<close>

definition live :: "int64 \<Rightarrow> StoredMessage \<Rightarrow> bool" where
  "live now sm \<longleftrightarrow> sint now < sint (ExpireAt sm)"

definition mb_fetch :: "int64 \<Rightarrow> uint64 \<Rightarrow> int64 \<Rightarrow> mailbox \<Rightarrow> StoredMessage list \<times> bool" where
  "mb_fetch now afterSeq limit mb =
     (let ms = filter (live now) (pending mb (afterSeq + 1))
      in (take (nat (sint limit)) ms, nat (sint limit) < length ms))"

text \<open>How far the frontier moves over the pending messages after it.\<close>

fun advance :: "int64 \<Rightarrow> uint64 set \<Rightarrow> StoredMessage list \<Rightarrow> uint64 \<Rightarrow> uint64" where
  "advance now D [] f = f"
| "advance now D (sm # sms) f =
     (if StoreSeq sm = f + 1 \<and> (\<not> live now sm \<or> StoreSeq sm \<in> D) then advance now D sms (f + 1) else f)"

definition mb_mark :: "int64 \<Rightarrow> uint64 set \<Rightarrow> mailbox \<Rightarrow> mailbox" where
  "mb_mark now D mb =
     mb\<lparr>mb_delivered := advance now D (pending mb (mb_delivered mb + 1)) (mb_delivered mb)\<rparr>"

section \<open>Facts on the loops\<close>

lemma fetch_loop_eq:
  assumes "\<forall>sm\<in>set sms. unmarshal_StoredMessage (marshal_StoredMessage sm) = Inr sm" "0 < sint limit"
    "int (length acc) \<le> sint limit"
  shows "fetch_loop now limit (map (scan_entry r) sms) acc =
    Inr (take (nat (sint limit)) (acc @ filter (live now) sms),
         nat (sint limit) < length (acc @ filter (live now) sms))"
  using assms(1,3)
proof (induction sms arbitrary: acc)
  case Nil
  then show ?case using assms(2) by (auto simp: nat_less_iff)
next
  case (Cons sm sms)
  consider "\<not> live now sm" | "live now sm" "sint limit \<le> int (length acc)"
    | "live now sm" "int (length (acc @ [sm])) \<le> sint limit" by fastforce
  then show ?case
  proof cases
    case 1
    with Cons show ?thesis by (simp add: scan_entry_def live_def)
  next
    case 2
    with Cons.prems have "nat (sint limit) = length acc" by simp
    with 2 Cons.prems show ?thesis by (simp add: scan_entry_def live_def)
  next
    case 3
    with Cons.prems have "\<not> sint limit \<le> int (length acc)" by simp
    with 3 Cons.prems Cons.IH [OF _ 3(2)] show ?thesis
      by (simp add: scan_entry_def live_def)
  qed
qed

lemma mark_loop_eq:
  assumes "\<forall>sm\<in>set sms. unmarshal_StoredMessage (marshal_StoredMessage sm) = Inr sm"
  shows "\<exists>broke. mark_loop now D (map (scan_entry r) sms) (f + 1) f = Inr (advance now (set D) sms f, broke)"
  using assms
proof (induction sms arbitrary: f)
  case Nil
  then show ?case by auto
next
  case (Cons sm sms)
  then show ?case using Cons.IH [of "f + 1"] by (auto simp: scan_entry_def live_def)
qed

lemma advance_ge:
  "sorted_wrt (<) (map StoreSeq sms) \<Longrightarrow> \<forall>sm\<in>set sms. f < StoreSeq sm \<Longrightarrow> f \<le> advance now D sms f"
proof (induction sms arbitrary: f)
  case Nil
  then show ?case by simp
next
  case (Cons sm sms)
  show ?case
  proof (cases "StoreSeq sm = f + 1 \<and> (\<not> live now sm \<or> StoreSeq sm \<in> D)")
    case True
    then have "\<forall>tm\<in>set sms. f + 1 < StoreSeq tm" using Cons.prems by auto
    then have "f + 1 \<le> advance now D sms (f + 1)" using Cons by simp
    moreover have "f < StoreSeq sm" using Cons.prems(2) by simp
    then have "f \<le> f + 1" using True by (metis less_imp_le)
    ultimately show ?thesis using True by (simp add: order_trans)
  next
    case False
    then have "advance now D (sm # sms) f = f" by (simp only: advance.simps if_False)
    then show ?thesis by simp
  qed
qed

text \<open>The frontier ends on a message of the list or does not move.\<close>

lemma advance_in: "advance now D sms f = f \<or> advance now D sms f \<in> StoreSeq ` set sms"
proof (induction sms arbitrary: f)
  case (Cons sm sms)
  then show ?case using Cons.IH [of "f + 1"] by auto
qed simp

text \<open>
  Every number between the old and the new frontier belongs to a message of the list that is
  expired or was delivered: nothing undelivered is skipped, and no gap is crossed.
\<close>

lemma advance_covers:
  assumes "sorted_wrt (<) (map StoreSeq sms)" "\<forall>sm\<in>set sms. f < StoreSeq sm"
    "f < s" "s \<le> advance now D sms f"
  shows "\<exists>sm\<in>set sms. StoreSeq sm = s \<and> (\<not> live now sm \<or> s \<in> D)"
  using assms
proof (induction sms arbitrary: f)
  case Nil
  then show ?case by simp
next
  case (Cons sm sms)
  show ?case
  proof (cases "StoreSeq sm = f + 1 \<and> (\<not> live now sm \<or> StoreSeq sm \<in> D)")
    case True
    show ?thesis
    proof (cases "s = f + 1")
      case True
      with \<open>StoreSeq sm = f + 1 \<and> _\<close> show ?thesis by auto
    next
      case False
      have "f \<noteq> - 1" using True Cons.prems(2) by auto
      then have "f + 1 < s" using False Cons.prems(3) word64_le_plus_one [of f s] by auto
      moreover have "\<forall>tm\<in>set sms. f + 1 < StoreSeq tm" using Cons.prems(1) True by auto
      ultimately show ?thesis using Cons.IH [of "f + 1"] Cons.prems(1,4) True by auto
    qed
  next
    case False
    then have "advance now D (sm # sms) f = f" by (simp only: advance.simps if_False)
    with Cons.prems(3,4) show ?thesis by (simp add: leD)
  qed
qed

lemma pending_after:
  assumes "mailbox_ok r mb" "a \<noteq> - 1"
  shows "\<forall>sm\<in>set (pending mb (a + 1)). a < StoreSeq sm"
  using assms by (auto simp: set_pending word64_le_plus_one)

lemma mb_mark_frontier:
  assumes ok: "mailbox_ok r mb"
  shows "mb_delivered mb \<le> mb_delivered (mb_mark now D mb) \<and> mb_delivered (mb_mark now D mb) \<le> mb_last mb"
proof (cases "mb_delivered mb = - 1")
  case True
  then have last: "mb_last mb = - 1" using mailbox_ok_frontiers [OF ok] by (simp add: word_order.extremum_unique)
  have "advance now D (pending mb (mb_delivered mb + 1)) (mb_delivered mb) = mb_delivered mb"
  proof (cases "pending mb 0")
    case (Cons sm sms)
    then have "StoreSeq sm \<noteq> 0" using pending_stored [OF ok, of sm 0] by (auto simp: stored_ok_def)
    with True Cons show ?thesis by simp
  qed (use True in simp)
  with True last show ?thesis by (simp add: mb_mark_def)
next
  case False
  let ?sms = "pending mb (mb_delivered mb + 1)"
  have "mb_delivered mb \<le> advance now D ?sms (mb_delivered mb)"
    using sorted_pending [OF ok] pending_after [OF ok False] by (rule advance_ge)
  moreover have "advance now D ?sms (mb_delivered mb) \<le> mb_last mb"
    using advance_in [of now D ?sms "mb_delivered mb"] mailbox_ok_frontiers [OF ok] mailbox_ok_last [OF ok]
    by (auto simp: set_pending [OF ok])
  ultimately show ?thesis by (simp add: mb_mark_def)
qed

lemma mailbox_ok_mark: "mailbox_ok r mb \<Longrightarrow> mailbox_ok r (mb_mark now D mb)"
  using mb_mark_frontier [of r mb now D] mailbox_ok_frontiers [of r mb]
  by (auto simp: mb_mark_def intro: mailbox_ok_delivered order_trans)

section \<open>Refinement\<close>

context pebble_db
begin

text \<open>A fetch that succeeds returns exactly the abstract fetch, whatever faults others had.\<close>

lemma fetch_prefix:
  assumes "\<forall>sm\<in>set sms. unmarshal_StoredMessage (marshal_StoredMessage sm) = Inr sm" "0 < sint limit"
    "prefix es (map (scan_entry r) sms)" "fetch_loop now limit es [] = Inr (items, True)"
  shows "fetch_loop now limit (map (scan_entry r) sms) [] = Inr (items, True)"
proof -
  obtain us where us: "map (scan_entry r) sms = es @ us" using assms(3) by (auto simp: prefix_def)
  have "fetch_loop now limit es acc = Inr (items, True) \<Longrightarrow>
      fetch_loop now limit (es @ us) acc = Inr (items, True)" for acc
    by (induction now limit es acc rule: fetch_loop.induct) (auto split: sum.splits if_splits)
  with us assms(4) show ?thesis by simp
qed

lemma fetch_refines:
  assumes rep: "repr M (view d)" and r: "plain r" and limit: "0 < sint limit"
    and res: "FetchMessages P ctx now d r afterSeq limit = Inr (items, hasMore)"
  shows "(items, hasMore) = mb_fetch now afterSeq limit (M r)"
proof -
  let ?sms = "pending (M r) (afterSeq + 1)"
  have un: "\<forall>sm\<in>set ?sms. unmarshal_StoredMessage (marshal_StoredMessage sm) = Inr sm"
    using pending_unmarshal [OF repr_ok [OF rep]] by blast
  have full: "fetch_loop now limit (map (scan_entry r) ?sms) [] = Inr (mb_fetch now afterSeq limit (M r))"
    using fetch_loop_eq [OF un limit, of "[]" now r] limit by (simp add: mb_fetch_def Let_def)
  obtain es ie where it: "db_Iter P d (msgKey r (afterSeq + 1)) (prefixUpperBound (msgPrefix r)) = Inr (es, ie)"
    using res limit by (auto simp: FetchMessages_def split: option.splits sum.splits)
  have "\<exists>it hm. fetch_loop now limit es [] = Inr (it, hm) \<and> items = it \<and> hasMore = hm \<and> (\<not> hm \<longrightarrow> ie = None)"
    using res limit it
    by (auto simp: FetchMessages_def split: option.splits sum.splits if_splits)
  then have loop: "fetch_loop now limit es [] = Inr (items, hasMore)" "\<not> hasMore \<longrightarrow> ie = None" by auto
  show ?thesis
  proof (cases ie)
    case None
    then have "es = map (scan_entry r) ?sms" using scan_result(2) [OF rep r it] by simp
    then show ?thesis using loop(1) full by simp
  next
    case (Some e)
    then have "hasMore" using loop by auto
    with loop have "fetch_loop now limit (map (scan_entry r) ?sms) [] = Inr (items, True)"
      using fetch_prefix [OF un limit scan_result(1) [OF rep r it]] by simp
    with full \<open>hasMore\<close> show ?thesis by simp
  qed
qed

lemma mark_prefix:
  assumes "mark_loop now D es nx f = Inr (g, True)"
  shows "mark_loop now D (es @ us) nx f = Inr (g, True)"
  using assms
  by (induction now D es nx f rule: mark_loop.induct) (auto split: sum.splits if_splits)

lemma mark_loop_scan:
  assumes rep: "repr M (view d)" and r: "plain r"
    and it: "db_Iter P d (msgKey r (f + 1)) (prefixUpperBound (msgPrefix r)) = Inr (es, ie)"
    and loop: "mark_loop now D es (f + 1) f = Inr (g, br)" and fin: "br \<or> ie = None"
  shows "g = advance now (set D) (pending (M r) (f + 1)) f"
proof -
  let ?sms = "pending (M r) (f + 1)"
  have un: "\<forall>sm\<in>set ?sms. unmarshal_StoredMessage (marshal_StoredMessage sm) = Inr sm"
    using pending_unmarshal [OF repr_ok [OF rep]] by blast
  obtain us where us: "map (scan_entry r) ?sms = es @ us"
    using scan_result(1) [OF rep r it] by (auto simp: prefix_def)
  obtain b where full: "mark_loop now D (es @ us) (f + 1) f = Inr (advance now (set D) ?sms f, b)"
    using mark_loop_eq [OF un, of now D r f] us by auto
  have "mark_loop now D (es @ us) (f + 1) f = Inr (g, br)"
  proof (cases br)
    case True
    with loop show ?thesis using mark_prefix by auto
  next
    case False
    with fin us have "us = []" using scan_result(2) [OF rep r it] by simp
    with loop show ?thesis by simp
  qed
  with full show ?thesis by simp
qed

lemma mark_commit:
  assumes rep: "repr M (view d)" and r: "plain r"
    and g: "g = advance now D (pending (M r) (mb_delivered (M r) + 1)) (mb_delivered (M r))"
      "g \<noteq> mb_delivered (M r)"
  shows "repr (M(r := mb_mark now D (M r))) (apply_batch (setFrontier [] (deliveredKey r) g) (view d))"
proof -
  have ok: "mailbox_ok r (M r)" using rep by blast
  have le: "mb_delivered (M r) \<le> g" "g \<le> mb_last (M r)"
    using mb_mark_frontier [OF ok, of now D] g(1) by (simp_all add: mb_mark_def)
  moreover have "g \<noteq> 0" using le(1) g(2) by auto
  moreover have "mb_acked (M r) \<le> g"
    using mailbox_ok_frontiers [OF ok] le(1) by (auto intro: order_trans)
  ultimately show ?thesis
    using repr_set_delivered [OF rep r, of g] g(1) by (simp add: mb_mark_def setFrontier_def)
qed

text \<open>Marking moves the delivered frontier as the abstract operation does, or not at all.\<close>

lemma mark_refines:
  assumes rep: "repr M (view d)" and r: "plain r" and items: "items \<noteq> []"
    and res: "MarkDelivered P ctx now d r items = (err, d')"
  shows "case err of
      Some e \<Rightarrow> repr M (view d')
    | None \<Rightarrow> repr (M(r := mb_mark now (set (delivered_seqs items)) (M r))) (view d')"
proof (cases err)
  case (Some e)
  with res rep Commit_failed show ?thesis
    by (auto simp: MarkDelivered_def split: option.splits sum.splits if_splits prod.splits)
next
  case None
  let ?f = "mb_delivered (M r)" and ?D = "delivered_seqs items"
  have ctx: "ctx = None" using res None by (auto simp: MarkDelivered_def split: option.splits)
  obtain cur where cur: "frontier P d (deliveredKey r) = Inr cur"
    using res None ctx items by (auto simp: MarkDelivered_def split: sum.splits)
  have f: "cur = ?f" using frontier_repr [OF cur repr_keys(4) [OF rep r]] .
  obtain es ie where it: "db_Iter P d (msgKey r (?f + 1)) (prefixUpperBound (msgPrefix r)) = Inr (es, ie)"
    using res None ctx items cur f by (auto simp: MarkDelivered_def split: sum.splits)
  obtain g br where lp: "mark_loop now ?D es (?f + 1) ?f = Inr (g, br)"
    using res None ctx items cur f it by (auto simp: MarkDelivered_def split: sum.splits)
  have eq: "(None, d') = (case (if br then None else ie) of Some e \<Rightarrow> (Some e, d)
      | None \<Rightarrow> if g = ?f then (None, d) else db_Commit P d (setFrontier [] (deliveredKey r) g))"
    using res None ctx items cur f it lp by (simp add: MarkDelivered_def)
  then have fin: "br \<or> ie = None" by (auto split: if_splits option.splits)
  note g = mark_loop_scan [OF rep r it lp fin]
  show ?thesis
  proof (cases "g = ?f")
    case True
    with eq fin None rep g show ?thesis by (auto simp: mb_mark_def split: if_splits)
  next
    case False
    with eq fin have "db_Commit P d (setFrontier [] (deliveredKey r) g) = (None, d')"
      by (auto split: if_splits)
    then show ?thesis using mark_commit [OF rep r g False] Commit_done None by simp
  qed
qed

end

context pebble_ok
begin

lemma fetch_eq:
  assumes rep: "repr M (view d)" and r: "plain r" and limit: "0 < sint limit"
  shows "FetchMessages P None now d r afterSeq limit = Inr (mb_fetch now afterSeq limit (M r))"
proof -
  let ?sms = "pending (M r) (afterSeq + 1)"
  have un: "\<forall>sm\<in>set ?sms. unmarshal_StoredMessage (marshal_StoredMessage sm) = Inr sm"
    using pending_unmarshal [OF repr_ok [OF rep]] by blast
  show ?thesis
    using fetch_loop_eq [OF un limit, of "[]" now r] limit
    by (simp add: FetchMessages_def Iter_eq range_scan [OF rep r] mb_fetch_def Let_def)
qed

lemma mark_ok:
  assumes rep: "repr M (view d)" and r: "plain r" and items: "items \<noteq> []"
  shows "\<exists>d'. MarkDelivered P None now d r items = (None, d') \<and>
    repr (M(r := mb_mark now (set (delivered_seqs items)) (M r))) (view d')"
proof -
  let ?f = "mb_delivered (M r)"
  have un: "\<forall>sm\<in>set (pending (M r) (?f + 1)). unmarshal_StoredMessage (marshal_StoredMessage sm) = Inr sm"
    using pending_unmarshal [OF repr_ok [OF rep]] by blast
  obtain b where lp: "mark_loop now (delivered_seqs items) (map (scan_entry r) (pending (M r) (?f + 1))) (?f + 1) ?f
      = Inr (advance now (set (delivered_seqs items)) (pending (M r) (?f + 1)) ?f, b)"
    using mark_loop_eq [OF un] by blast
  have "\<exists>d'. MarkDelivered P None now d r items = (None, d')"
    using lp items frontier_eq [OF repr_keys(4) [OF rep r]] Commit_ok
    by (simp add: MarkDelivered_def Iter_eq range_scan [OF rep r])
  then show ?thesis using mark_refines [OF rep r items] by fastforce
qed

end

end
