(* ===== verification/MessageAck.thy ===== *)
theory MessageAck
  imports MessageFetch
begin

text \<open>
  \<open>internal/storage/pebble/ack.go\<close>: deleting acknowledged messages in batches. The
  context is polled once per message, so it is the function from the number of the poll to
  the answer of \<open>ctx.Err()\<close>. The whole operation runs under the recipient's shard lock.
\<close>

section \<open>One batch\<close>

record ack_acc =
  aa_batch :: "batch_op list"
  aa_until :: uint64
  aa_inBatch :: nat
  aa_count :: nat

definition ack_deletes :: "string \<Rightarrow> bytes \<Rightarrow> uint64 \<Rightarrow> StoredMessage \<Rightarrow> batch_op list" where
  "ack_deletes recipientID key storeSeq stored =
     [BDelete key]
     @ (case sm_Message stored of None \<Rightarrow> [] | Some env \<Rightarrow> [BDelete (dupKey recipientID (MsgID env))])
     @ [BDelete (expKey (ExpireAt stored) recipientID storeSeq)]"

definition ack_add :: "string \<Rightarrow> bytes \<Rightarrow> uint64 \<Rightarrow> StoredMessage \<Rightarrow> ack_acc \<Rightarrow> ack_acc" where
  "ack_add recipientID key storeSeq stored acc =
     acc\<lparr>aa_batch := aa_batch acc @ ack_deletes recipientID key storeSeq stored,
         aa_until := storeSeq, aa_inBatch := Suc (aa_inBatch acc), aa_count := Suc (aa_count acc)\<rparr>"

text \<open>
  The inner loop over the iterator: the error, whether the loop was left by \<open>break\<close>,
  the number of the next poll and the accumulated batch.
\<close>

fun ack_scan ::
  "(nat \<Rightarrow> goerr option) \<Rightarrow> string \<Rightarrow> uint64 \<Rightarrow> nat \<Rightarrow> nat \<Rightarrow> (bytes \<times> bytes) list \<Rightarrow> ack_acc \<Rightarrow>
   goerr option \<times> bool \<times> nat \<times> ack_acc" where
  "ack_scan ctx recipientID ackSeq ackDeleteBatch i [] acc = (None, False, i, acc)"
| "ack_scan ctx recipientID ackSeq ackDeleteBatch i ((k, v) # es) acc =
     (case ctx i of
        Some e \<Rightarrow> (Some e, True, Suc i, acc)
      | None \<Rightarrow>
          (case parseMsgKey k of
             Inl e \<Rightarrow> (Some e, True, Suc i, acc)
           | Inr (_, storeSeq) \<Rightarrow>
               if ackSeq < storeSeq then (None, True, Suc i, acc)
               else
                 (case unmarshal_StoredMessage v of
                    Inl e \<Rightarrow> (Some e, True, Suc i, acc)
                  | Inr stored \<Rightarrow>
                      (let acc' = ack_add recipientID k storeSeq stored acc
                       in if ackDeleteBatch \<le> aa_inBatch acc' then (None, True, Suc i, acc')
                          else ack_scan ctx recipientID ackSeq ackDeleteBatch (Suc i) es acc'))))"

section \<open>The batch loop\<close>

partial_function (option) ack_loop ::
  "'db pebble \<Rightarrow> (nat \<Rightarrow> goerr option) \<Rightarrow> string \<Rightarrow> uint64 \<Rightarrow> nat \<Rightarrow> uint64 \<Rightarrow> nat \<Rightarrow> 'db \<Rightarrow> uint64 \<Rightarrow> nat \<Rightarrow>
   (uint64 \<times> nat \<times> goerr option \<times> 'db) option" where
  "ack_loop P ctx recipientID ackSeq ackDeleteBatch ackedUntil i d deletedUntil deletedCount =
     (case db_Iter P d (msgPrefix recipientID) (prefixUpperBound (msgPrefix recipientID)) of
        Inl e \<Rightarrow> Some (deletedUntil, deletedCount, Some e, d)
      | Inr (es, iterErr) \<Rightarrow>
          (case ack_scan ctx recipientID ackSeq ackDeleteBatch i es
                  \<lparr>aa_batch = [], aa_until = deletedUntil, aa_inBatch = 0, aa_count = deletedCount\<rparr> of
             (err, broke, i', acc) \<Rightarrow>
               (case (if err \<noteq> None then err else if broke then None else iterErr) of
                  Some e \<Rightarrow> Some (aa_until acc, aa_count acc, Some e, d)
                | None \<Rightarrow>
                    if aa_inBatch acc = 0 then
                      (if aa_until acc < ackSeq then
                         (case db_Commit P d (setFrontier (aa_batch acc) (ackedKey recipientID) ackSeq) of
                            (Some e, d') \<Rightarrow> Some (aa_until acc, aa_count acc, Some e, d')
                          | (None, d') \<Rightarrow> Some (ackSeq, aa_count acc, None, d'))
                       else Some (aa_until acc, aa_count acc, None, d))
                    else
                      (case db_Commit P d
                              (if ackedUntil \<le> aa_until acc
                               then setFrontier (aa_batch acc) (ackedKey recipientID) (aa_until acc)
                               else aa_batch acc) of
                         (Some e, d') \<Rightarrow> Some (aa_until acc, aa_count acc, Some e, d')
                       | (None, d') \<Rightarrow>
                           if aa_inBatch acc < ackDeleteBatch \<or> ackSeq \<le> aa_until acc
                           then Some (aa_until acc, aa_count acc, None, d')
                           else ack_loop P ctx recipientID ackSeq ackDeleteBatch ackedUntil i' d'
                                  (aa_until acc) (aa_count acc)))))"

text \<open>\<open>AckMessages\<close> returns the deleted-until number, the count and the error.\<close>

definition AckMessages ::
  "'db pebble \<Rightarrow> nat \<Rightarrow> (nat \<Rightarrow> goerr option) \<Rightarrow> 'db \<Rightarrow> string \<Rightarrow> uint64 \<Rightarrow>
   (uint64 \<times> nat \<times> goerr option \<times> 'db) option" where
  "AckMessages P ackDeleteBatch ctx d recipientID ackSeq =
     (case ctx 0 of
        Some e \<Rightarrow> Some (0, 0, Some e, d)
      | None \<Rightarrow>
          (case frontier P d (ackedKey recipientID) of
             Inl e \<Rightarrow> Some (0, 0, Some e, d)
           | Inr ackedUntil \<Rightarrow>
               if ackSeq \<le> ackedUntil then Some (ackedUntil, 0, None, d)
               else
                 (case frontier P d (deliveredKey recipientID) of
                    Inl e \<Rightarrow> Some (0, 0, Some e, d)
                  | Inr deliveredUntil \<Rightarrow>
                      if deliveredUntil < ackSeq
                      then Some (ackedUntil, 0,
                             Some (AppError CodeInvalidPayload ''ack_seq exceeds delivered frontier''), d)
                      else ack_loop P ctx recipientID ackSeq ackDeleteBatch ackedUntil 1 d ackedUntil 0)))"

text \<open>The batch size that \<open>Open\<close> configures.\<close>

definition defaultAckDeleteBatch :: nat where
  "defaultAckDeleteBatch = 1000"

section \<open>The abstract operation\<close>

text \<open>Every message up to \<open>w\<close> is gone and the acknowledged frontier is at \<open>w\<close>.\<close>

definition mb_ack_upto :: "uint64 \<Rightarrow> mailbox \<Rightarrow> mailbox" where
  "mb_ack_upto w mb = mb\<lparr>mb_msgs := (mb_msgs mb) |` {s. w < s}, mb_acked := w\<rparr>"

lemma mb_ack_upto_self: "mailbox_ok r mb \<Longrightarrow> mb_ack_upto (mb_acked mb) mb = mb"
proof -
  assume "mailbox_ok r mb"
  then have "(mb_msgs mb) |` {s. mb_acked mb < s} = mb_msgs mb"
    by (auto simp: restrict_map_def fun_eq_iff dest: mailbox_ok_unacked)
      (metis mailbox_ok_unacked not_None_eq)
  then show ?thesis by (simp add: mb_ack_upto_def)
qed

lemma mb_ack_upto_twice: "v \<le> w \<Longrightarrow> mb_ack_upto w (mb_ack_upto v mb) = mb_ack_upto w mb"
proof -
  assume "v \<le> w"
  then have "{s. v < s} \<inter> {s. w < s} = {s. w < s}" by auto
  then show ?thesis by (simp add: mb_ack_upto_def)
qed

lemma mb_ack_upto_fields [simp]:
  "mb_last (mb_ack_upto w mb) = mb_last mb" "mb_delivered (mb_ack_upto w mb) = mb_delivered mb"
  "mb_acked (mb_ack_upto w mb) = w"
  "s \<in> dom (mb_msgs (mb_ack_upto w mb)) \<longleftrightarrow> s \<in> dom (mb_msgs mb) \<and> w < s"
  by (auto simp: mb_ack_upto_def restrict_map_def split: if_splits)

section \<open>Facts on one batch\<close>

definition ack_all :: "string \<Rightarrow> StoredMessage list \<Rightarrow> ack_acc \<Rightarrow> ack_acc" where
  "ack_all r ks acc = foldl (\<lambda>a sm. ack_add r (msgKey r (StoreSeq sm)) (StoreSeq sm) sm a) acc ks"

lemma ack_all_simps [simp]:
  "ack_all r [] acc = acc"
  "ack_all r (k # ks) acc = ack_all r ks (ack_add r (msgKey r (StoreSeq k)) (StoreSeq k) k acc)"
  by (simp_all add: ack_all_def)

lemma ack_all_fields:
  "aa_inBatch (ack_all r ks acc) = aa_inBatch acc + length ks"
  "aa_count (ack_all r ks acc) = aa_count acc + length ks"
  "aa_until (ack_all r ks acc) = (if ks = [] then aa_until acc else StoreSeq (last ks))"
  "aa_batch (ack_all r ks acc) = aa_batch acc
     @ concat (map (\<lambda>sm. ack_deletes r (msgKey r (StoreSeq sm)) (StoreSeq sm) sm) ks)"
  by (induction ks arbitrary: acc) (simp_all add: ack_add_def)

text \<open>
  A batch is an initial part of the scanned messages, all acknowledged; the scan ends because
  the batch is full, because the next message is not acknowledged, or at the end.
\<close>

lemma ack_scan_result:
  assumes "\<forall>sm\<in>set sms. unmarshal_StoredMessage (marshal_StoredMessage sm) = Inr sm" "plain r"
    "ack_scan ctx r a cap i (map (scan_entry r) sms) acc = (None, broke, i', acc')"
    "aa_inBatch acc < cap"
  shows "\<exists>ks rest. sms = ks @ rest \<and> acc' = ack_all r ks acc \<and> (\<forall>sm\<in>set ks. StoreSeq sm \<le> a) \<and>
    aa_inBatch acc' \<le> cap \<and>
    (if broke then aa_inBatch acc' = cap \<or> (\<exists>sm rest'. rest = sm # rest' \<and> a < StoreSeq sm) else rest = [])"
  using assms(1,3,4)
proof (induction sms arbitrary: i acc)
  case Nil
  then show ?case by auto
next
  case (Cons sm sms)
  have un: "unmarshal_StoredMessage (marshal_StoredMessage sm) = Inr sm" using Cons.prems by simp
  have head: "map (scan_entry r) (sm # sms)
      = (msgKey r (StoreSeq sm), marshal_StoredMessage sm) # map (scan_entry r) sms"
    by (simp add: scan_entry_def)
  have ctx: "ctx i = None"
    using Cons.prems(2) by (auto simp: scan_entry_def split: option.splits)
  let ?acc = "ack_add r (msgKey r (StoreSeq sm)) (StoreSeq sm) sm acc"
  have inb: "aa_inBatch ?acc = Suc (aa_inBatch acc)" by (simp add: ack_add_def)
  consider (stop) "a < StoreSeq sm" | (full) "\<not> a < StoreSeq sm" "cap \<le> aa_inBatch ?acc"
    | (more) "\<not> a < StoreSeq sm" "aa_inBatch ?acc < cap" by fastforce
  then show ?case
  proof cases
    case stop
    then have "broke" "acc' = acc"
      using Cons.prems(2) ctx assms(2) by (auto simp: scan_entry_def parseMsgKey_msgKey)
    with stop Cons.prems(3) show ?thesis by (intro exI [of _ "[]"] exI [of _ "sm # sms"]) auto
  next
    case full
    then have "broke" "acc' = ?acc"
      using Cons.prems(2) ctx assms(2) un by (auto simp: scan_entry_def parseMsgKey_msgKey Let_def)
    with full inb Cons.prems(3) show ?thesis
      by (intro exI [of _ "[sm]"] exI [of _ sms]) auto
  next
    case more
    then have "ack_scan ctx r a cap (Suc i) (map (scan_entry r) sms) ?acc = (None, broke, i', acc')"
      using Cons.prems(2) ctx assms(2) un by (simp only: head) (simp add: parseMsgKey_msgKey Let_def)
    then obtain ks rest where "sms = ks @ rest" "acc' = ack_all r ks ?acc" "\<forall>sm\<in>set ks. StoreSeq sm \<le> a"
      "aa_inBatch acc' \<le> cap"
      "if broke then aa_inBatch acc' = cap \<or> (\<exists>sm rest'. rest = sm # rest' \<and> a < StoreSeq sm) else rest = []"
      using Cons.IH [of "Suc i" ?acc] Cons.prems(1) more(2) by auto
    with more(1) show ?thesis by (intro exI [of _ "sm # ks"] exI [of _ rest]) auto
  qed
qed

lemma ack_scan_no_error:
  assumes "\<forall>sm\<in>set sms. unmarshal_StoredMessage (marshal_StoredMessage sm) = Inr sm" "plain r"
    "\<forall>j. ctx j = None"
  shows "fst (ack_scan ctx r a cap i (map (scan_entry r) sms) acc) = None"
  using assms(1)
  by (induction sms arbitrary: i acc)
    (auto simp: scan_entry_def parseMsgKey_msgKey Let_def assms(2,3))

section \<open>Deleting a batch of messages\<close>

definition mb_remove_all :: "uint64 list \<Rightarrow> mailbox \<Rightarrow> mailbox" where
  "mb_remove_all ss mb = foldl (\<lambda>m s. mb_remove s m) mb ss"

lemma mb_remove_all_msgs: "mb_msgs (mb_remove_all ss mb) = (mb_msgs mb) |` (- set ss)"
  by (induction ss arbitrary: mb) (auto simp: mb_remove_all_def restrict_map_def fun_eq_iff)

lemma mb_remove_all_fields [simp]:
  "mb_last (mb_remove_all ss mb) = mb_last mb" "mb_delivered (mb_remove_all ss mb) = mb_delivered mb"
  "mb_acked (mb_remove_all ss mb) = mb_acked mb"
  by (induction ss arbitrary: mb) (simp_all add: mb_remove_all_def)

lemma mb_remove_all_more: "mailbox.more (mb_remove_all ss mb) = mailbox.more mb"
  by simp

lemma repr_ack_deletes:
  assumes "repr M m" "plain r" "mb_msgs (M r) (StoreSeq sm) = Some sm"
  shows "repr (M(r := mb_remove (StoreSeq sm) (M r)))
    (apply_batch (ack_deletes r (msgKey r (StoreSeq sm)) (StoreSeq sm) sm) m)"
proof -
  obtain env where "sm_Message sm = Some env"
    using mailbox_ok_stored [OF repr_ok [OF assms(1)] assms(3)] by (auto simp: stored_ok_def)
  then show ?thesis using repr_remove [OF assms] by (simp add: ack_deletes_def msg_id_def)
qed

lemma repr_ack_batch:
  assumes "repr M m" "plain r" "\<forall>sm\<in>set ks. mb_msgs (M r) (StoreSeq sm) = Some sm"
    "distinct (map StoreSeq ks)"
  shows "repr (M(r := mb_remove_all (map StoreSeq ks) (M r)))
    (apply_batch (concat (map (\<lambda>sm. ack_deletes r (msgKey r (StoreSeq sm)) (StoreSeq sm) sm) ks)) m)"
  using assms(1,3,4)
proof (induction ks arbitrary: M m)
  case Nil
  then show ?case by (simp add: mb_remove_all_def)
next
  case (Cons sm ks)
  let ?M = "M(r := mb_remove (StoreSeq sm) (M r))"
  have "repr ?M (apply_batch (ack_deletes r (msgKey r (StoreSeq sm)) (StoreSeq sm) sm) m)"
    by (rule repr_ack_deletes [OF Cons.prems(1) assms(2)]) (simp add: Cons.prems(2))
  moreover have "\<forall>tm\<in>set ks. mb_msgs (?M r) (StoreSeq tm) = Some tm"
  proof
    fix tm assume tm: "tm \<in> set ks"
    then have "StoreSeq tm \<noteq> StoreSeq sm" using Cons.prems(3) by (auto simp: image_iff)
    moreover have "mb_msgs (M r) (StoreSeq tm) = Some tm" using tm Cons.prems(2) by simp
    ultimately show "mb_msgs (?M r) (StoreSeq tm) = Some tm" by simp
  qed
  moreover have "distinct (map StoreSeq ks)" using Cons.prems(3) by simp
  ultimately have "repr (?M(r := mb_remove_all (map StoreSeq ks) (?M r)))
    (apply_batch (concat (map (\<lambda>sm. ack_deletes r (msgKey r (StoreSeq sm)) (StoreSeq sm) sm) ks))
      (apply_batch (ack_deletes r (msgKey r (StoreSeq sm)) (StoreSeq sm) sm) m))"
    by (rule Cons.IH)
  then show ?case by (simp only: fun_upd_upd fun_upd_same list.map concat.simps apply_batch_simps
        mb_remove_all_def foldl_Cons)
qed

text \<open>Removing an initial part of the pending messages is acknowledging up to its last number.\<close>

lemma remove_initial_part:
  assumes ok: "mailbox_ok r mb" and split: "pending mb 0 = ks @ rest" and ne: "ks \<noteq> []"
  shows "(mb_remove_all (map StoreSeq ks) mb)\<lparr>mb_acked := StoreSeq (last ks)\<rparr>
    = mb_ack_upto (StoreSeq (last ks)) mb"
proof -
  let ?w = "StoreSeq (last ks)"
  have sorted: "sorted_wrt (<) (map StoreSeq (ks @ rest))" using sorted_pending [OF ok, of 0] split by simp
  have ks: "StoreSeq sm \<le> ?w" if "sm \<in> set ks" for sm
    using sorted_le_last [of "map StoreSeq ks" "StoreSeq sm"] sorted that ne
    by (simp add: sorted_wrt_append last_map strict_sorted_imp_sorted)
  have rest: "?w < StoreSeq sm" if "sm \<in> set rest" for sm
    using sorted that ne by (auto simp: sorted_wrt_append)
  have dom: "s \<in> StoreSeq ` (set ks \<union> set rest)" if "s \<in> dom (mb_msgs mb)" for s
  proof -
    have "s \<in> set (map StoreSeq (pending mb 0))"
      using that map_StoreSeq_pending [OF ok, of 0] by (simp add: set_seqs_from)
    then show ?thesis using split by auto
  qed
  have "s \<in> StoreSeq ` set ks \<longleftrightarrow> s \<le> ?w" if s: "s \<in> dom (mb_msgs mb)" for s
  proof
    assume w: "s \<le> ?w"
    obtain x where "s = StoreSeq x" "x \<in> set ks \<or> x \<in> set rest"
      using dom [OF s] by auto
    with w show "s \<in> StoreSeq ` set ks" using rest [of x] leD by blast
  qed (use ks in auto)
  then have "(mb_msgs mb) |` (- set (map StoreSeq ks)) = (mb_msgs mb) |` {s. ?w < s}"
    by (intro restrict_map_cong) (auto simp: not_le)
  then show ?thesis
    by (intro mailbox.equality) (simp_all add: mb_ack_upto_def mb_remove_all_msgs mb_remove_all_more)
qed

text \<open>What one committed batch does to the mailboxes.\<close>

definition ack_batch :: "string \<Rightarrow> StoredMessage list \<Rightarrow> batch_op list" where
  "ack_batch r ks = concat (map (\<lambda>sm. ack_deletes r (msgKey r (StoreSeq sm)) (StoreSeq sm) sm) ks)"

lemma repr_ack_commit:
  assumes rep: "repr M m" and r: "plain r" and split: "pending (M r) 0 = ks @ rest" and ne: "ks \<noteq> []"
    and w: "StoreSeq (last ks) \<le> mb_delivered (M r)"
  shows "repr (M(r := mb_ack_upto (StoreSeq (last ks)) (M r)))
    (apply_batch (setFrontier (ack_batch r ks) (ackedKey r) (StoreSeq (last ks))) m)"
proof -
  let ?w = "StoreSeq (last ks)" and ?M = "M(r := mb_remove_all (map StoreSeq ks) (M r))"
  have ok: "mailbox_ok r (M r)" using rep by blast
  have mem: "\<forall>sm\<in>set ks. mb_msgs (M r) (StoreSeq sm) = Some sm"
    using set_pending [OF ok, of 0] split by auto
  have "distinct (map StoreSeq ks)"
    using sorted_pending [OF ok, of 0] split by (simp add: sorted_wrt_append strict_sorted_iff)
  then have rep': "repr ?M (apply_batch (ack_batch r ks) m)"
    unfolding ack_batch_def by (rule repr_ack_batch [OF rep r mem])
  have eq: "(?M r)\<lparr>mb_acked := ?w\<rparr> = mb_ack_upto ?w (M r)"
    using remove_initial_part [OF ok split ne] by simp
  have "?w < s" if "s \<in> dom (mb_msgs (?M r))" for s
  proof -
    have "s \<in> dom (mb_msgs (mb_ack_upto ?w (M r)))" using that eq [symmetric] by simp
    then show ?thesis by (simp only: mb_ack_upto_fields)
  qed
  moreover have "?w \<noteq> 0"
    using pending_stored [OF ok, of "last ks" 0] split ne by (auto simp: stored_ok_def)
  ultimately have "repr (?M(r := (?M r)\<lparr>mb_acked := ?w\<rparr>))
      ((apply_batch (ack_batch r ks) m)(ackedKey r \<mapsto> FormatUint ?w))"
    using w by (intro repr_set_acked [OF rep' r]) simp_all
  then show ?thesis unfolding eq by (simp add: setFrontier_def)
qed

lemma repr_ack_jump:
  assumes rep: "repr M m" and r: "plain r" and a: "mb_acked (M r) < a" "a \<le> mb_delivered (M r)"
    and none: "\<forall>s\<in>dom (mb_msgs (M r)). a < s"
  shows "repr (M(r := mb_ack_upto a (M r))) (apply_batch (setFrontier [] (ackedKey r) a) m)"
proof -
  have "(mb_msgs (M r)) |` {s. a < s} = mb_msgs (M r)"
    using none by (auto simp: restrict_map_def fun_eq_iff) (metis domIff)
  then have "mb_ack_upto a (M r) = (M r)\<lparr>mb_acked := a\<rparr>" by (simp add: mb_ack_upto_def)
  moreover have "a \<noteq> 0" using a(1) by auto
  ultimately show ?thesis
    using repr_set_acked [OF rep r, of a] a(2) none by (simp add: setFrontier_def)
qed

lemma mb_ack_upto_pending:
  assumes ok: "mailbox_ok r mb" and split: "pending mb 0 = ks @ rest" and ne: "ks \<noteq> []"
  shows "dom (mb_msgs (mb_ack_upto (StoreSeq (last ks)) mb)) = StoreSeq ` set rest"
    and "card {s \<in> dom (mb_msgs mb). s \<le> a}
      = length (filter (\<lambda>sm. StoreSeq sm \<le> a) ks) + length (filter (\<lambda>sm. StoreSeq sm \<le> a) rest)"
proof -
  let ?w = "StoreSeq (last ks)"
  have sorted: "sorted_wrt (<) (map StoreSeq (ks @ rest))" using sorted_pending [OF ok, of 0] split by simp
  have dom: "dom (mb_msgs mb) = StoreSeq ` (set ks \<union> set rest)"
  proof -
    have "dom (mb_msgs mb) = set (map StoreSeq (pending mb 0))"
      using map_StoreSeq_pending [OF ok, of 0] by (simp add: set_seqs_from)
    then show ?thesis using split by auto
  qed
  have "StoreSeq sm \<le> ?w" if "sm \<in> set ks" for sm
    using sorted_le_last [of "map StoreSeq ks" "StoreSeq sm"] sorted that ne
    by (simp add: sorted_wrt_append last_map strict_sorted_imp_sorted)
  moreover have "?w < StoreSeq sm" if "sm \<in> set rest" for sm
    using sorted that ne by (auto simp: sorted_wrt_append)
  ultimately show "dom (mb_msgs (mb_ack_upto ?w mb)) = StoreSeq ` set rest"
    using dom by (auto simp: mb_ack_upto_def dest: leD)
  have "distinct (map StoreSeq (filter (\<lambda>sm. StoreSeq sm \<le> a) (ks @ rest)))"
    using sorted by (simp add: strict_sorted_iff distinct_map_filter del: filter_append)
  then have "card (set (map StoreSeq (filter (\<lambda>sm. StoreSeq sm \<le> a) (ks @ rest))))
      = length (filter (\<lambda>sm. StoreSeq sm \<le> a) (ks @ rest))"
    by (metis distinct_card length_map)
  moreover have "set (map StoreSeq (filter (\<lambda>sm. StoreSeq sm \<le> a) (ks @ rest))) = {s \<in> dom (mb_msgs mb). s \<le> a}"
    using dom by auto
  ultimately show "card {s \<in> dom (mb_msgs mb). s \<le> a}
      = length (filter (\<lambda>sm. StoreSeq sm \<le> a) ks) + length (filter (\<lambda>sm. StoreSeq sm \<le> a) rest)"
    by simp
qed

lemma acked_less_last:
  assumes ok: "mailbox_ok r mb" and split: "pending mb 0 = ks @ rest" and ne: "ks \<noteq> []"
  shows "mb_acked mb < StoreSeq (last ks)"
proof -
  have "last ks \<in> set (pending mb 0)" using split ne by simp
  then have "mb_msgs mb (StoreSeq (last ks)) = Some (last ks)" unfolding set_pending [OF ok] by simp
  then show ?thesis by (rule mailbox_ok_unacked [OF ok])
qed

text \<open>
  What acknowledging up to \<open>a\<close> may do to the store, whether or not it ends in an error: the
  mailbox is acknowledged up to some \<open>w\<close>; without an error all messages up to \<open>a\<close> are gone,
  and the answer is \<open>w\<close> and the number of deleted messages.
\<close>

definition ack_post ::
  "mailboxes \<Rightarrow> string \<Rightarrow> uint64 \<Rightarrow> nat \<Rightarrow> uint64 \<Rightarrow> nat \<Rightarrow> goerr option \<Rightarrow> (bytes \<rightharpoonup> bytes) \<Rightarrow> bool" where
  "ack_post M r a c u' c' err m' \<longleftrightarrow>
     (\<exists>w. mb_acked (M r) \<le> w \<and> w \<le> a \<and> repr (M(r := mb_ack_upto w (M r))) m' \<and>
        (err = None \<longrightarrow> u' = w \<and> (\<forall>s\<in>dom (mb_msgs (M r)). s \<le> a \<longrightarrow> s \<le> w) \<and>
           c' = c + card {s \<in> dom (mb_msgs (M r)). s \<le> a}))"

lemma ack_post_same:
  assumes "repr M m" "mb_acked (M r) \<le> a"
  shows "ack_post M r a c u' c' (Some e) m"
  using assms mb_ack_upto_self [OF repr_ok [OF assms(1)], of r] unfolding ack_post_def
  by (intro exI [of _ "mb_acked (M r)"]) simp

lemma ack_post_jump:
  assumes "repr M m" "plain r" "mb_acked (M r) < a" "a \<le> mb_delivered (M r)"
    "\<forall>s\<in>dom (mb_msgs (M r)). a < s" "m' = apply_batch (setFrontier [] (ackedKey r) a) m"
  shows "ack_post M r a c a c None m'"
proof -
  have "{s \<in> dom (mb_msgs (M r)). s \<le> a} = {}" using assms(5) by (auto dest: leD)
  then have "card {s \<in> dom (mb_msgs (M r)). s \<le> a} = 0" by simp
  then show ?thesis
    using repr_ack_jump [OF assms(1-5)] assms(3,6) unfolding ack_post_def
    by (intro exI [of _ a]) auto
qed

lemma ack_post_step:
  assumes ok: "mailbox_ok r (M r)" and split: "pending (M r) 0 = ks @ rest" and ne: "ks \<noteq> []"
    and ks: "\<forall>sm\<in>set ks. StoreSeq sm \<le> a"
    and post: "ack_post (M(r := mb_ack_upto (StoreSeq (last ks)) (M r))) r a (c + length ks) u' c' err m'"
  shows "ack_post M r a c u' c' err m'"
proof -
  let ?w = "StoreSeq (last ks)" and ?M = "M(r := mb_ack_upto (StoreSeq (last ks)) (M r))"
  have w: "mb_acked (M r) < ?w" by (rule acked_less_last [OF ok split ne])
  obtain v where v: "?w \<le> v" "v \<le> a" "repr (?M(r := mb_ack_upto v (?M r))) m'"
      "err = None \<longrightarrow> u' = v \<and> (\<forall>s\<in>dom (mb_msgs (?M r)). s \<le> a \<longrightarrow> s \<le> v) \<and>
         c' = c + length ks + card {s \<in> dom (mb_msgs (?M r)). s \<le> a}"
    using post by (auto simp: ack_post_def)
  have "filter (\<lambda>sm. StoreSeq sm \<le> a) ks = ks" using ks by (simp add: filter_id_conv)
  then have all: "card {s \<in> dom (mb_msgs (M r)). s \<le> a}
      = length ks + length (filter (\<lambda>sm. StoreSeq sm \<le> a) rest)"
    using mb_ack_upto_pending(2) [OF ok split ne, of a] by simp
  have "distinct (map StoreSeq rest)"
    using sorted_pending [OF ok, of 0] split by (simp add: sorted_wrt_append strict_sorted_iff)
  then have "card (set (map StoreSeq (filter (\<lambda>sm. StoreSeq sm \<le> a) rest)))
      = length (filter (\<lambda>sm. StoreSeq sm \<le> a) rest)"
    by (metis distinct_card distinct_map_filter length_map)
  moreover have "{s \<in> dom (mb_msgs (?M r)). s \<le> a} = set (map StoreSeq (filter (\<lambda>sm. StoreSeq sm \<le> a) rest))"
    using mb_ack_upto_pending(1) [OF ok split ne] by auto
  ultimately have cnt: "length ks + card {s \<in> dom (mb_msgs (?M r)). s \<le> a} = card {s \<in> dom (mb_msgs (M r)). s \<le> a}"
    using all by simp
  have rep: "repr (M(r := mb_ack_upto v (M r))) m'"
    using v(1,3) by (simp add: mb_ack_upto_twice)
  have below: "s \<le> v" if "s \<in> dom (mb_msgs (M r))" "s \<le> a" "err = None" for s
    using v(1,4) that by (cases "?w < s") (auto simp del: mb_ack_upto_fields simp: mb_ack_upto_def intro: order_trans)
  show ?thesis
    unfolding ack_post_def
    using less_imp_le [OF less_le_trans [OF w v(1)]] v(2,4) rep below cnt
    by (intro exI [of _ v]) (simp only: add.assoc simp_thms, blast)
qed

lemma ack_post_last:
  assumes "repr (M(r := mb_ack_upto w (M r))) m" "\<forall>s\<in>dom (mb_msgs (mb_ack_upto w (M r))). a < s" "w \<le> a"
  shows "ack_post (M(r := mb_ack_upto w (M r))) r a c w c None m"
proof -
  have "{s \<in> dom (mb_msgs (mb_ack_upto w (M r))). s \<le> a} = {}" using assms(2) by (auto dest: leD simp del: mb_ack_upto_fields)
  then have "card {s \<in> dom (mb_msgs (mb_ack_upto w (M r))). s \<le> a} = 0" by (simp only: card.empty)
  then show ?thesis
    using assms unfolding ack_post_def
    by (intro exI [of _ w]) (auto simp: mb_ack_upto_twice simp del: mb_ack_upto_fields(4))
qed

context pebble_db
begin

lemma ack_iteration:
  assumes rep: "repr M (view d)" and r: "plain r" and cap: "0 < cap"
    and it: "db_Iter P d (msgPrefix r) (prefixUpperBound (msgPrefix r)) = Inr (es, ie)"
    and scan: "ack_scan ctx r a cap i es acc0 = (None, broke, i', acc)" "aa_inBatch acc0 = 0"
    and fin: "broke \<or> ie = None"
  shows "\<exists>ks rest. pending (M r) 0 = ks @ rest \<and> acc = ack_all r ks acc0 \<and> (\<forall>sm\<in>set ks. StoreSeq sm \<le> a) \<and>
    length ks \<le> cap \<and> (length ks = cap \<or> (\<forall>sm\<in>set rest. a < StoreSeq sm))"
proof -
  have ok: "mailbox_ok r (M r)" using rep by blast
  obtain n where es: "es = map (scan_entry r) (take n (pending (M r) 0))"
    using prefix_scan_result(1) [OF rep r it] by (metis prefixE append_eq_conv_conj take_map)
  let ?sms = "take n (pending (M r) 0)" and ?us = "drop n (pending (M r) 0)"
  have un: "\<forall>sm\<in>set ?sms. unmarshal_StoredMessage (marshal_StoredMessage sm) = Inr sm"
    using pending_unmarshal [OF ok, of _ 0] by (auto dest: in_set_takeD)
  obtain ks rest where ks: "?sms = ks @ rest" "acc = ack_all r ks acc0" "\<forall>sm\<in>set ks. StoreSeq sm \<le> a"
      "aa_inBatch acc \<le> cap"
      "if broke then aa_inBatch acc = cap \<or> (\<exists>sm rest'. rest = sm # rest' \<and> a < StoreSeq sm) else rest = []"
    using ack_scan_result [OF un r scan(1) [unfolded es]] scan(2) cap by auto
  have len: "aa_inBatch acc = length ks" using ks(2) scan(2) by (simp add: ack_all_fields)
  have split: "pending (M r) 0 = ks @ rest @ ?us" using ks(1) by (metis append_assoc append_take_drop_id)
  have sorted: "sorted_wrt (<) (map StoreSeq (rest @ ?us))"
    using sorted_pending [OF ok, of 0] by (subst (asm) split) (simp add: sorted_wrt_append)
  have "length ks = cap \<or> (\<forall>sm\<in>set (rest @ ?us). a < StoreSeq sm)"
  proof (cases broke)
    case True
    then show ?thesis using ks(5) len sorted by (fastforce intro: less_trans)
  next
    case False
    then have "?us = []" "rest = []"
      using fin ks(5) map_eq_imp_length_eq [OF prefix_scan_result(2) [OF rep r it, unfolded es]] by auto
    then show ?thesis by simp
  qed
  with split ks(2,3,4) len show ?thesis by (intro exI [of _ ks] exI [of _ "rest @ ?us"]) simp
qed

lemma ack_loop_first:
  assumes "ack_loop P ctx r a cap ackedUntil i d u c = Some (u', c', err, d')"
  shows "err \<noteq> None \<and> d' = d \<or> (\<exists>es ie broke i' acc.
    db_Iter P d (msgPrefix r) (prefixUpperBound (msgPrefix r)) = Inr (es, ie) \<and>
    ack_scan ctx r a cap i es \<lparr>aa_batch = [], aa_until = u, aa_inBatch = 0, aa_count = c\<rparr>
      = (None, broke, i', acc) \<and> (broke \<or> ie = None))"
proof (cases "db_Iter P d (msgPrefix r) (prefixUpperBound (msgPrefix r))")
  case (Inl e)
  then show ?thesis using assms by (subst (asm) ack_loop.simps) auto
next
  case (Inr it)
  obtain es ie where it: "it = (es, ie)" by fastforce
  obtain e0 broke i' acc where scan:
      "ack_scan ctx r a cap i es \<lparr>aa_batch = [], aa_until = u, aa_inBatch = 0, aa_count = c\<rparr> = (e0, broke, i', acc)"
    by (metis prod_cases4)
  show ?thesis
  proof (cases "if e0 \<noteq> None then e0 else if broke then None else ie")
    case (Some e)
    then show ?thesis using assms Inr it scan by (subst (asm) ack_loop.simps) (simp del: not_None_eq, metis option.distinct(1))
  next
    case None
    then show ?thesis using Inr it scan by (auto split: if_splits)
  qed
qed

text \<open>
  A round whose scan succeeds, in terms of the pending messages: nothing to delete and the
  frontier jumps, or a batch \<open>ks\<close> is committed and the loop stops or goes on.
\<close>

definition ack_round ::
  "(nat \<Rightarrow> 'db \<Rightarrow> uint64 \<Rightarrow> nat \<Rightarrow> (uint64 \<times> nat \<times> goerr option \<times> 'db) option) \<Rightarrow> string \<Rightarrow> uint64 \<Rightarrow> nat \<Rightarrow> nat \<Rightarrow>
   'db \<Rightarrow> uint64 \<Rightarrow> nat \<Rightarrow> StoredMessage list \<Rightarrow> (uint64 \<times> nat \<times> goerr option \<times> 'db) option" where
  "ack_round again r a cap i' d u c ks =
     (if ks = [] then
        (case db_Commit P d (setFrontier [] (ackedKey r) a) of
           (Some e, d') \<Rightarrow> Some (u, c, Some e, d')
         | (None, d') \<Rightarrow> Some (a, c, None, d'))
      else
        (let w = StoreSeq (last ks)
         in case db_Commit P d (setFrontier (ack_batch r ks) (ackedKey r) w) of
              (Some e, d') \<Rightarrow> Some (w, c + length ks, Some e, d')
            | (None, d') \<Rightarrow>
                if length ks < cap \<or> a \<le> w then Some (w, c + length ks, None, d')
                else again i' d' w (c + length ks)))"

definition ack_initial :: "mailbox \<Rightarrow> uint64 \<Rightarrow> nat \<Rightarrow> StoredMessage list \<Rightarrow> StoredMessage list \<Rightarrow> bool" where
  "ack_initial mb a cap ks rest \<longleftrightarrow>
     pending mb 0 = ks @ rest \<and> (\<forall>sm\<in>set ks. StoreSeq sm \<le> a) \<and>
     (length ks = cap \<or> (\<forall>sm\<in>set rest. a < StoreSeq sm))"

lemma ack_loop_round:
  assumes rep: "repr M (view d)" and r: "plain r" and cap: "0 < cap"
    and it: "db_Iter P d (msgPrefix r) (prefixUpperBound (msgPrefix r)) = Inr (es, ie)"
    and scan: "ack_scan ctx r a cap i es \<lparr>aa_batch = [], aa_until = u, aa_inBatch = 0, aa_count = c\<rparr>
      = (None, broke, i', acc)"
    and fin: "broke \<or> ie = None"
    and acked: "u = mb_acked (M r)" "ackedUntil \<le> u" "u < a"
  obtains ks rest where "ack_initial (M r) a cap ks rest"
    "ack_loop P ctx r a cap ackedUntil i d u c = ack_round (ack_loop P ctx r a cap ackedUntil) r a cap i' d u c ks"
proof -
  let ?acc = "\<lparr>aa_batch = [], aa_until = u, aa_inBatch = 0, aa_count = c\<rparr>"
  obtain ks rest where ks: "pending (M r) 0 = ks @ rest" "acc = ack_all r ks ?acc"
      "\<forall>sm\<in>set ks. StoreSeq sm \<le> a" "length ks = cap \<or> (\<forall>sm\<in>set rest. a < StoreSeq sm)"
    using ack_iteration [OF rep r cap it scan _ fin] by auto
  have acc: "aa_inBatch acc = length ks" "aa_count acc = c + length ks" "aa_batch acc = ack_batch r ks"
      "aa_until acc = (if ks = [] then u else StoreSeq (last ks))"
    using ks(2) by (simp_all add: ack_all_fields ack_batch_def)
  have le: "ackedUntil \<le> StoreSeq (last ks)" if "ks \<noteq> []"
    using acked acked_less_last [OF repr_ok [OF rep] ks(1) that] by auto
  have none: "(if broke then None else ie) = None" using fin by auto
  have acc_nil: "ack_batch r [] = []" by (simp add: ack_batch_def)
  have "ack_loop P ctx r a cap ackedUntil i d u c = ack_round (ack_loop P ctx r a cap ackedUntil) r a cap i' d u c ks"
    by (subst ack_loop.simps)
      (use le acked(3) acc_nil in \<open>simp add: it scan none acc ack_round_def Let_def split: option.split prod.split\<close>)
  with ks show thesis by (intro that) (auto simp: ack_initial_def)
qed

lemma ack_initial_next:
  assumes rep: "repr M (view d)" and r: "plain r" and ini: "ack_initial (M r) a cap ks rest"
    and ne: "ks \<noteq> []" and a: "a \<le> mb_delivered (M r)"
    and com: "db_Commit P d (setFrontier (ack_batch r ks) (ackedKey r) (StoreSeq (last ks))) = (None, d')"
  defines "M' \<equiv> M(r := mb_ack_upto (StoreSeq (last ks)) (M r))"
  shows "repr M' (view d')" "length (pending (M' r) 0) < length (pending (M r) 0)"
    "length ks < cap \<or> a \<le> StoreSeq (last ks) \<Longrightarrow> \<forall>s\<in>dom (mb_msgs (M' r)). a < s"
proof -
  let ?w = "StoreSeq (last ks)"
  have ok: "mailbox_ok r (M r)" using rep by blast
  have split: "pending (M r) 0 = ks @ rest" and w: "?w \<le> a" using ini ne by (auto simp: ack_initial_def)
  show rep': "repr M' (view d')"
    using repr_ack_commit [OF rep r split ne] w a Commit_done [OF com] by (simp add: M'_def)
  have dom: "dom (mb_msgs (M' r)) = StoreSeq ` set rest"
    using mb_ack_upto_pending(1) [OF ok split ne] by (simp add: M'_def)
  have ok': "mailbox_ok r (M' r)" using rep' by blast
  have "length (pending (M' r) 0) = card (dom (mb_msgs (M' r)))"
    by (simp add: pending_def seqs_from_def)
  also have "\<dots> \<le> length rest" unfolding dom by (rule order_trans [OF card_image_le card_length]) simp
  finally show "length (pending (M' r) 0) < length (pending (M r) 0)" using split ne by (simp add: le_less_trans)
  have "mb_acked (M' r) = ?w" by (simp add: M'_def)
  then have above: "?w < s" if "s \<in> dom (mb_msgs (M' r))" for s
    using mailbox_ok_unacked [OF ok'] that by auto
  show "\<forall>s\<in>dom (mb_msgs (M' r)). a < s" if stop: "length ks < cap \<or> a \<le> ?w"
  proof (cases "a \<le> ?w")
    case True
    then show ?thesis using above le_less_trans by blast
  next
    case False
    then have "\<forall>sm\<in>set rest. a < StoreSeq sm" using stop ini by (auto simp: ack_initial_def)
    then show ?thesis unfolding dom by blast
  qed
qed

lemma ack_loop_refines:
  assumes r: "plain r" and cap: "0 < cap"
    and res: "ack_loop P ctx r a cap ackedUntil i d u c = Some (u', c', err, d')"
    and rep: "repr M (view d)" and acked: "u = mb_acked (M r)" "ackedUntil \<le> u" "u < a" "a \<le> mb_delivered (M r)"
  shows "ack_post M r a c u' c' err (view d')"
  using res rep acked
proof (induction "length (pending (M r) 0)" arbitrary: M i d u c rule: less_induct)
  case less
  note res = less.prems(1) and rep = less.prems(2) and acked = less.prems(3-6)
  have ok: "mailbox_ok r (M r)" using rep by blast
  have same: ?case if "view d' = view d" "err = Some e" for e
    using ack_post_same [of M "view d" r a] rep that acked by auto
  consider (failed) "err \<noteq> None" "d' = d"
    | (go) es ie broke i' acc where
      "db_Iter P d (msgPrefix r) (prefixUpperBound (msgPrefix r)) = Inr (es, ie)"
      "ack_scan ctx r a cap i es \<lparr>aa_batch = [], aa_until = u, aa_inBatch = 0, aa_count = c\<rparr>
        = (None, broke, i', acc)" "broke \<or> ie = None"
    using ack_loop_first [OF res] by metis
  then show ?case
  proof cases
    case failed
    then show ?thesis using same by auto
  next
    case go
    obtain ks rest where ini: "ack_initial (M r) a cap ks rest"
        and eq: "ack_round (ack_loop P ctx r a cap ackedUntil) r a cap i' d u c ks = Some (u', c', err, d')"
      using ack_loop_round [OF rep r cap go acked(1-3)] res by metis
    show ?thesis
    proof (cases "ks = []")
      case True
      with ini cap have "\<forall>sm\<in>set (pending (M r) 0). a < StoreSeq sm" by (simp add: ack_initial_def)
      then have "\<forall>s\<in>set (map StoreSeq (pending (M r) 0)). a < s" by simp
      then have "\<forall>s\<in>dom (mb_msgs (M r)). a < s"
        unfolding map_StoreSeq_pending [OF ok] set_seqs_from by simp
      then show ?thesis
        using eq True ack_post_jump [OF rep r acked(3) [unfolded acked(1)] acked(4) _ Commit_done] same Commit_failed
        by (simp add: ack_round_def split: option.splits prod.splits) metis+
    next
      case False
      let ?w = "StoreSeq (last ks)" and ?M = "M(r := mb_ack_upto (StoreSeq (last ks)) (M r))"
      have split: "pending (M r) 0 = ks @ rest" "\<forall>sm\<in>set ks. StoreSeq sm \<le> a" and w: "?w \<le> a" "u < ?w"
        using ini False acked_less_last [OF ok _ False, of rest] acked(1) by (auto simp: ack_initial_def)
      obtain ce d'' where com: "db_Commit P d (setFrontier (ack_batch r ks) (ackedKey r) ?w) = (ce, d'')"
        by fastforce
      show ?thesis
      proof (cases ce)
        case (Some e)
        then show ?thesis using same eq com False Commit_failed by (auto simp: ack_round_def Let_def)
      next
        case None
        note nx = ack_initial_next [OF rep r ini False acked(4) com [unfolded None]]
        have "ack_post ?M r a (c + length ks) u' c' err (view d')"
        proof (cases "length ks < cap \<or> a \<le> ?w")
          case True
          then show ?thesis
            using eq com None False ack_post_last [OF nx(1) _ w(1)] nx(3) by (auto simp: ack_round_def Let_def)
        next
          case go_on: False
          then show ?thesis
            using eq com None False nx(1) acked w by (intro less.hyps [of ?M i' d'' ?w, OF nx(2)]) (auto simp: ack_round_def Let_def)
        qed
        then show ?thesis by (rule ack_post_step [of r M, OF ok split(1) False split(2)])
      qed
    qed
  qed
qed

text \<open>\<open>AckMessages\<close> under faults and cancellation.\<close>

lemma AckMessages_refines:
  assumes rep: "repr M (view d)" and r: "plain r" and cap: "0 < cap"
    and res: "AckMessages P cap ctx d r a = Some (u', c', err, d')"
  shows "if mb_acked (M r) < a \<and> a \<le> mb_delivered (M r) then ack_post M r a 0 u' c' err (view d')
    else d' = d \<and> (err = None \<longrightarrow> a \<le> mb_acked (M r) \<and> u' = mb_acked (M r) \<and> c' = 0)"
proof -
  have acked: "w = mb_acked (M r)" if "frontier P d (ackedKey r) = Inr w" for w
    using frontier_repr [OF that repr_keys(5) [OF rep r]] .
  have delivered: "w = mb_delivered (M r)" if "frontier P d (deliveredKey r) = Inr w" for w
    using frontier_repr [OF that repr_keys(4) [OF rep r]] .
  have fail: ?thesis if "err \<noteq> None" "d' = d"
    using that ack_post_same [OF rep, of r a] by (auto intro: less_imp_le)
  show ?thesis
  proof (cases "ctx 0 = None \<and> (\<exists>v w. frontier P d (ackedKey r) = Inr v \<and>
      (v < a \<longrightarrow> frontier P d (deliveredKey r) = Inr w))")
    case False
    then have "err \<noteq> None \<and> d' = d"
      using res
      by (cases "ctx 0"; cases "frontier P d (ackedKey r)"; cases "frontier P d (deliveredKey r)")
        (auto simp: AckMessages_def not_less split: if_splits intro: sym)
    then show ?thesis using fail by blast
  next
    case True
    then obtain v w where ctx: "ctx 0 = None" and v: "frontier P d (ackedKey r) = Inr v"
        and w: "v < a \<longrightarrow> frontier P d (deliveredKey r) = Inr w" by blast
    show ?thesis
    proof (cases "v < a \<and> a \<le> w")
      case True
      then have "ack_loop P ctx r a cap v 1 d v 0 = Some (u', c', err, d')"
        using res ctx v w by (simp add: AckMessages_def not_le [symmetric])
      then have "ack_post M r a 0 u' c' err (view d')"
        using True acked [OF v] delivered [of w] w by (intro ack_loop_refines [OF r cap _ rep]) auto
      then show ?thesis using True acked [OF v] delivered [of w] w by simp
    next
      case False
      then show ?thesis
        using res ctx v w acked [OF v] delivered [of w] by (auto simp: AckMessages_def not_less split: if_splits)
    qed
  qed
qed

end

context pebble_ok
begin

text \<open>Without faults and cancellation the loop ends: every round deletes a message or returns.\<close>

lemma ack_loop_total:
  assumes r: "plain r" and cap: "0 < cap" and ctx: "\<forall>j. ctx j = None"
    and rep: "repr M (view d)" and acked: "u = mb_acked (M r)" "ackedUntil \<le> u" "u < a" "a \<le> mb_delivered (M r)"
  shows "\<exists>u' c' d'. ack_loop P ctx r a cap ackedUntil i d u c = Some (u', c', None, d')"
  using rep acked
proof (induction "length (pending (M r) 0)" arbitrary: M i d u c rule: less_induct)
  case less
  note rep = less.prems(1) and acked = less.prems(2-5)
  let ?acc = "\<lparr>aa_batch = [], aa_until = u, aa_inBatch = 0, aa_count = c\<rparr>"
    and ?es = "map (scan_entry r) (pending (M r) 0)"
  have ok: "mailbox_ok r (M r)" using rep by blast
  have "fst (ack_scan ctx r a cap i ?es ?acc) = None"
    using pending_unmarshal [OF ok] by (intro ack_scan_no_error r ctx) blast
  then obtain broke i' acc where scan: "ack_scan ctx r a cap i ?es ?acc = (None, broke, i', acc)"
    by (metis prod.collapse fst_conv)
  have it: "db_Iter P d (msgPrefix r) (prefixUpperBound (msgPrefix r)) = Inr (?es, None)"
    by (simp add: Iter_eq prefix_scan [OF rep r])
  obtain ks rest where ini: "ack_initial (M r) a cap ks rest"
      and eq: "ack_loop P ctx r a cap ackedUntil i d u c
        = ack_round (ack_loop P ctx r a cap ackedUntil) r a cap i' d u c ks"
    using ack_loop_round [OF rep r cap it scan _ acked(1-3)] by blast
  show ?case
  proof (cases "ks = []")
    case True
    then show ?thesis
      using Commit_ok [of d "setFrontier [] (ackedKey r) a"] unfolding eq by (auto simp: ack_round_def)
  next
    case False
    let ?w = "StoreSeq (last ks)"
    have w: "u < ?w"
      using acked_less_last [OF ok _ False, of rest] acked(1) ini by (simp add: ack_initial_def)
    obtain d'' where com: "db_Commit P d (setFrontier (ack_batch r ks) (ackedKey r) ?w) = (None, d'')"
      using Commit_ok by blast
    note nx = ack_initial_next [OF rep r ini False acked(4) com]
    show ?thesis
    proof (cases "length ks < cap \<or> a \<le> ?w")
      case True
      then show ?thesis unfolding eq using com False by (auto simp: ack_round_def Let_def)
    next
      case go_on: False
      then have "\<exists>u' c' d'. ack_loop P ctx r a cap ackedUntil i' d'' ?w (c + length ks) = Some (u', c', None, d')"
        using acked w by (intro less.hyps [of "M(r := mb_ack_upto ?w (M r))", OF nx(2) nx(1)]) auto
      then show ?thesis unfolding eq using com False go_on by (simp add: ack_round_def Let_def)
    qed
  qed
qed

lemma ack_ok:
  assumes rep: "repr M (view d)" and r: "plain r" and cap: "0 < cap" and ctx: "\<forall>j. ctx j = None"
    and a: "mb_acked (M r) < a" "a \<le> mb_delivered (M r)"
  obtains w d' where "AckMessages P cap ctx d r a = Some (w, card {s \<in> dom (mb_msgs (M r)). s \<le> a}, None, d')"
    "repr (M(r := mb_ack_upto w (M r))) (view d')" "mb_acked (M r) \<le> w" "w \<le> a"
    "\<forall>s\<in>dom (mb_msgs (M r)). s \<le> a \<longrightarrow> s \<le> w"
proof -
  let ?v = "mb_acked (M r)"
  obtain u' c' d' where loop: "ack_loop P ctx r a cap ?v 1 d ?v 0 = Some (u', c', None, d')"
    using ack_loop_total [OF r cap ctx rep refl order_refl a] by blast
  have "ack_post M r a 0 u' c' None (view d')"
    using ack_loop_refines [OF r cap loop rep refl order_refl a] .
  moreover have "AckMessages P cap ctx d r a = Some (u', c', None, d')"
    using loop a ctx frontier_eq [OF repr_keys(5) [OF rep r]] frontier_eq [OF repr_keys(4) [OF rep r]]
    by (simp add: AckMessages_def not_le [symmetric])
  ultimately show thesis using that by (auto simp: ack_post_def)
qed

lemma ack_again:
  assumes "repr M (view d)" "plain r" "ctx 0 = None" "a \<le> mb_acked (M r)"
  shows "AckMessages P cap ctx d r a = Some (mb_acked (M r), 0, None, d)"
  using assms(3,4) frontier_eq [OF repr_keys(5) [OF assms(1,2)]] by (simp add: AckMessages_def)

lemma ack_beyond:
  assumes "repr M (view d)" "plain r" "ctx 0 = None" "mb_delivered (M r) < a"
  shows "AckMessages P cap ctx d r a
    = Some (mb_acked (M r), 0, Some (AppError CodeInvalidPayload ''ack_seq exceeds delivered frontier''), d)"
proof -
  have "mb_acked (M r) < a"
    using mailbox_ok_frontiers [OF repr_ok [OF assms(1)], of r] assms(4) by (auto intro: le_less_trans)
  then show ?thesis
    using assms(3,4) frontier_eq [OF repr_keys(5) [OF assms(1,2)]] frontier_eq [OF repr_keys(4) [OF assms(1,2)]]
    by (simp add: AckMessages_def)
qed

end

end
