(* ===== verification/MessageGC.thy ===== *)
theory MessageGC
  imports MessageAck
begin

text \<open>
  \<open>internal/storage/pebble/gc.go\<close>: deleting expired messages. The scan collects
  references without a lock; each reference is then deleted under the lock of its recipient,
  so other operations may come between the scan and the deletions.
\<close>

section \<open>The scan\<close>

record expiredRef =
  ref_expireAt :: int64
  ref_recipientID :: string
  ref_storeSeq :: uint64
  ref_expKey :: bytes

text \<open>The error, whether the loop was left by \<open>break\<close>, the next poll and the references.\<close>

fun gc_scan ::
  "(nat \<Rightarrow> goerr option) \<Rightarrow> int64 \<Rightarrow> int64 \<Rightarrow> nat \<Rightarrow> (bytes \<times> bytes) list \<Rightarrow> expiredRef list \<Rightarrow>
   goerr option \<times> bool \<times> nat \<times> expiredRef list" where
  "gc_scan ctx now limit i [] refs = (None, False, i, refs)"
| "gc_scan ctx now limit i ((k, v) # es) refs =
     (case ctx i of
        Some e \<Rightarrow> (Some e, True, Suc i, refs)
      | None \<Rightarrow>
          (case parseExpKey k of
             Inl e \<Rightarrow> (Some e, True, Suc i, refs)
           | Inr (expireAt, recipientID, storeSeq) \<Rightarrow>
               if sint now < sint expireAt then (None, True, Suc i, refs)
               else
                 (let refs' = refs @ [\<lparr>ref_expireAt = expireAt, ref_recipientID = recipientID,
                                       ref_storeSeq = storeSeq, ref_expKey = k\<rparr>]
                  in if sint limit \<le> int (length refs') then (None, True, Suc i, refs')
                     else gc_scan ctx now limit (Suc i) es refs')))"

section \<open>Deleting one reference\<close>

text \<open>The part of a stored message that the deletion reads.\<close>

record gcMessage =
  gm_MsgID :: string

record gcStored =
  gs_ExpireAt :: int64
  gs_Message :: gcMessage

definition field_gcMessage :: "gcMessage \<Rightarrow> string \<Rightarrow> json \<Rightarrow> gcMessage option" where
  "field_gcMessage x k v =
     (if key_is ''msg_id'' k then map_option (\<lambda>y. x\<lparr>gm_MsgID := y\<rparr>) (dec_str (gm_MsgID x) v) else Some x)"

definition field_gcStored :: "gcStored \<Rightarrow> string \<Rightarrow> json \<Rightarrow> gcStored option" where
  "field_gcStored x k v =
     (if key_is ''expire_at'' k then map_option (\<lambda>y. x\<lparr>gs_ExpireAt := y\<rparr>) (dec_int (gs_ExpireAt x) v)
      else if key_is ''message'' k
        then map_option (\<lambda>y. x\<lparr>gs_Message := y\<rparr>) (dec_struct field_gcMessage (gs_Message x) v)
      else Some x)"

definition unmarshal_gcStored :: "bytes \<Rightarrow> gcStored res" where
  "unmarshal_gcStored =
     unmarshal \<lparr>gs_ExpireAt = 0, gs_Message = \<lparr>gm_MsgID = []\<rparr>\<rparr> (dec_struct field_gcStored)"

definition gc_delete_ref :: "'db pebble \<Rightarrow> 'db \<Rightarrow> expiredRef \<Rightarrow> goerr option \<times> 'db" where
  "gc_delete_ref P d ref =
     (let key = msgKey (ref_recipientID ref) (ref_storeSeq ref)
      in case db_Get P d key of
           Inr msgValue \<Rightarrow>
             (case unmarshal_gcStored msgValue of
                Inl e \<Rightarrow> (Some e, d)
              | Inr stored \<Rightarrow>
                  db_Commit P d
                    ([BDelete key]
                     @ (if gm_MsgID (gs_Message stored) \<noteq> []
                        then [BDelete (dupKey (ref_recipientID ref) (gm_MsgID (gs_Message stored)))] else [])
                     @ [BDelete (ref_expKey ref)]))
         | Inl getErr \<Rightarrow>
             if getErr \<noteq> ErrNotFound then (Some getErr, d)
             else db_Commit P d [BDelete (ref_expKey ref)])"

text \<open>The second loop: the number of deleted references, the error and the store.\<close>

fun gc_delete ::
  "'db pebble \<Rightarrow> (nat \<Rightarrow> goerr option) \<Rightarrow> nat \<Rightarrow> expiredRef list \<Rightarrow> nat \<Rightarrow> 'db \<Rightarrow> nat \<times> goerr option \<times> 'db" where
  "gc_delete P ctx i [] deleted d = (deleted, None, d)"
| "gc_delete P ctx i (ref # refs) deleted d =
     (case ctx i of
        Some e \<Rightarrow> (deleted, Some e, d)
      | None \<Rightarrow>
          (case gc_delete_ref P d ref of
             (Some e, d') \<Rightarrow> (deleted, Some e, d')
           | (None, d') \<Rightarrow> gc_delete P ctx (Suc i) refs (Suc deleted) d'))"

definition DeleteExpired ::
  "'db pebble \<Rightarrow> (nat \<Rightarrow> goerr option) \<Rightarrow> 'db \<Rightarrow> int64 \<Rightarrow> int64 \<Rightarrow> nat \<times> goerr option \<times> 'db" where
  "DeleteExpired P ctx d now limit =
     (if sint limit \<le> 0 then (0, None, d)
      else case db_Iter P d ''exp/'' (expUpperBound now) of
             Inl e \<Rightarrow> (0, Some e, d)
           | Inr (es, iterErr) \<Rightarrow>
               (case gc_scan ctx now limit 0 es [] of
                  (err, broke, i, refs) \<Rightarrow>
                    (case (if err \<noteq> None then err else if broke then None else iterErr) of
                       Some e \<Rightarrow> (0, Some e, d)
                     | None \<Rightarrow> gc_delete P ctx i refs 0 d)))"

section \<open>The abstract operation\<close>

text \<open>A reference to an expired message of the mailboxes.\<close>

definition ref_of :: "int64 \<Rightarrow> string \<Rightarrow> uint64 \<Rightarrow> expiredRef" where
  "ref_of e r s = \<lparr>ref_expireAt = e, ref_recipientID = r, ref_storeSeq = s, ref_expKey = expKey e r s\<rparr>"

definition ref_live :: "mailboxes \<Rightarrow> int64 \<Rightarrow> expiredRef \<Rightarrow> bool" where
  "ref_live M now ref \<longleftrightarrow>
     (\<exists>sm r s. ref = ref_of (ExpireAt sm) r s \<and> plain r \<and> mb_msgs (M r) s = Some sm \<and>
        sint (ExpireAt sm) \<le> sint now)"

text \<open>
  What stays true of a reference while others change the store: the message is gone, or it is
  the one the reference was made for.
\<close>

definition ref_safe :: "mailboxes \<Rightarrow> expiredRef \<Rightarrow> bool" where
  "ref_safe M ref \<longleftrightarrow>
     (\<exists>e r s. ref = ref_of e r s \<and> plain r \<and> 0 \<le> sint e \<and>
        (\<forall>sm. mb_msgs (M r) s = Some sm \<longrightarrow> ExpireAt sm = e))"

definition gc_remove :: "expiredRef \<Rightarrow> mailboxes \<Rightarrow> mailboxes" where
  "gc_remove ref M = M(ref_recipientID ref := mb_remove (ref_storeSeq ref) (M (ref_recipientID ref)))"

definition gc_remove_all :: "expiredRef list \<Rightarrow> mailboxes \<Rightarrow> mailboxes" where
  "gc_remove_all refs M = foldl (\<lambda>M ref. gc_remove ref M) M refs"

lemma gc_remove_all_simps [simp]:
  "gc_remove_all [] M = M" "gc_remove_all (ref # refs) M = gc_remove_all refs (gc_remove ref M)"
  by (simp_all add: gc_remove_all_def)

lemma gc_remove_all_fields [simp]:
  "mb_last (gc_remove_all refs M r) = mb_last (M r)"
  "mb_delivered (gc_remove_all refs M r) = mb_delivered (M r)"
  "mb_acked (gc_remove_all refs M r) = mb_acked (M r)"
  by (induction refs arbitrary: M) (simp_all add: gc_remove_def)

lemma gc_remove_all_msgs:
  "mb_msgs (gc_remove_all refs M r) s =
     (if (r, s) \<in> (\<lambda>ref. (ref_recipientID ref, ref_storeSeq ref)) ` set refs then None else mb_msgs (M r) s)"
  by (induction refs arbitrary: M) (auto simp: gc_remove_def)

lemma ref_live_safe: "repr M m \<Longrightarrow> ref_live M now ref \<Longrightarrow> ref_safe M ref"
proof -
  assume rep: "repr M m" and "ref_live M now ref"
  then obtain sm r s where ref: "ref = ref_of (ExpireAt sm) r s" "plain r" and sm: "mb_msgs (M r) s = Some sm"
    by (auto simp: ref_live_def)
  have "0 \<le> sint (ExpireAt sm)"
    using mailbox_ok_stored [OF repr_ok [OF rep] sm] by (simp add: stored_ok_def)
  with ref sm show ?thesis unfolding ref_safe_def by (intro exI conjI) auto
qed

lemma ref_safe_remove: "ref_safe M ref \<Longrightarrow> ref_safe (gc_remove ref' M) ref"
proof -
  assume "ref_safe M ref"
  then obtain e r s where ref: "ref = ref_of e r s" "plain r" "0 \<le> sint e"
      and same: "\<forall>sm. mb_msgs (M r) s = Some sm \<longrightarrow> ExpireAt sm = e"
    by (auto simp: ref_safe_def)
  have "mb_msgs (gc_remove ref' M r) s = Some sm \<Longrightarrow> mb_msgs (M r) s = Some sm" for sm
    by (auto simp: gc_remove_def split: if_splits)
  with same have "\<forall>sm. mb_msgs (gc_remove ref' M r) s = Some sm \<longrightarrow> ExpireAt sm = e" by blast
  with ref show ?thesis unfolding ref_safe_def by (intro exI conjI)
qed

section \<open>Deleting one reference does the abstract removal\<close>

lemma fold_key_gc [json_simps]: "fold_key ''expire_at'' = ''EXPIRE_AT''"
  by (rule fold_key_names)

lemma unmarshal_gcStored_marshal:
  assumes "wf_StoredMessage sm" "sm_Message sm = Some env"
  shows "unmarshal_gcStored (marshal_StoredMessage sm)
    = Inr \<lparr>gs_ExpireAt = ExpireAt sm, gs_Message = \<lparr>gm_MsgID = MsgID env\<rparr>\<rparr>"
proof -
  have "dec_struct field_gcMessage x (enc_OfflineMessageEnvelope env) = Some \<lparr>gm_MsgID = MsgID env\<rparr>" for x
    by (cases "TTLSec env")
      (simp_all add: enc_OfflineMessageEnvelope_def field_gcMessage_def key_is_def json_simps)
  then have "dec_struct field_gcStored \<lparr>gs_ExpireAt = 0, gs_Message = \<lparr>gm_MsgID = []\<rparr>\<rparr> (enc_StoredMessage sm)
      = Some \<lparr>gs_ExpireAt = ExpireAt sm, gs_Message = \<lparr>gm_MsgID = MsgID env\<rparr>\<rparr>"
    using assms(2) by (simp add: enc_StoredMessage_def field_gcStored_def key_is_def json_simps)
  then show ?thesis
    using assms(1)
    by (simp add: unmarshal_gcStored_def marshal_StoredMessage_def unmarshal_def
        json_parse_print wf_enc_StoredMessage depth_enc_StoredMessage)
qed

context pebble_db
begin

lemma gc_ref_refines:
  assumes rep: "repr M (view d)" and safe: "ref_safe M ref" and res: "gc_delete_ref P d ref = (err, d')"
  shows "repr (if err = None then gc_remove ref M else M) (view d')"
proof -
  obtain e r s where ref: "ref = ref_of e r s" and r: "plain r" and e: "0 \<le> sint e"
      and same: "\<forall>sm. mb_msgs (M r) s = Some sm \<longrightarrow> ExpireAt sm = e"
    using safe by (auto simp: ref_safe_def)
  have ok: "mailbox_ok r (M r)" using rep by blast
  have fail: "repr M (view d')" if "err = Some x" "d' = d \<or> (\<exists>b. db_Commit P d b = (Some x, d'))" for x
    using that rep Commit_failed by auto
  have key: "view d (msgKey r s) = map_option marshal_StoredMessage (mb_msgs (M r) s)"
    using repr_keys(1) [OF rep r] by simp
  show ?thesis
  proof (cases "db_Get P d (msgKey r s)")
    case (Inl x)
    show ?thesis
    proof (cases "x = ErrNotFound \<and> err = None")
      case False
      then show ?thesis using res Inl fail by (cases err) (auto simp: gc_delete_ref_def ref ref_of_def split: if_splits)
    next
      case True
      then have none: "mb_msgs (M r) s = None" using Get_missing Inl key by auto
      have "db_Commit P d [BDelete (expKey e r s)] = (None, d')"
        using res Inl True by (simp add: gc_delete_ref_def ref ref_of_def)
      then have "view d' = (view d)(enc_key (KExp e r s) := None)" using Commit_done by fastforce
      then have "repr M (view d')"
        using repr_delete_absent [OF rep, of "KExp e r s"] r e none by simp
      moreover have "gc_remove ref M = M" using none by (simp add: gc_remove_def ref ref_of_def mb_remove_def fun_upd_idem)
      ultimately show ?thesis by simp
    qed
  next
    case (Inr v)
    then obtain sm where sm: "mb_msgs (M r) s = Some sm" "v = marshal_StoredMessage sm"
      using Get_found [OF Inr] key by auto
    note st = mailbox_ok_stored [OF ok sm(1)]
    then obtain env where env: "sm_Message sm = Some env" "MsgID env \<noteq> []" "StoreSeq sm = s" "wf_StoredMessage sm"
      by (auto simp: stored_ok_def)
    have com: "db_Commit P d [BDelete (msgKey r s), BDelete (dupKey r (MsgID env)), BDelete (expKey e r s)] = (err, d')"
      using res Inr sm(2) env unmarshal_gcStored_marshal [OF env(4,1)] by (simp add: gc_delete_ref_def ref ref_of_def)
    show ?thesis
    proof (cases err)
      case None
      have "repr (M(r := mb_remove s (M r))) (view d')"
        using repr_ack_deletes [OF rep r, of sm] Commit_done [OF com [unfolded None]] sm(1) env same
        by (simp add: ack_deletes_def)
      then show ?thesis using None by (simp add: gc_remove_def ref ref_of_def)
    next
      case (Some x)
      then show ?thesis using fail com by auto
    qed
  qed
qed

lemma gc_delete_refines:
  assumes "repr M (view d)" "\<forall>ref\<in>set refs. ref_safe M ref" "gc_delete P ctx i refs n d = (n', err, d')"
  shows "\<exists>k \<le> length refs. n' = n + k \<and> (err = None \<longrightarrow> k = length refs) \<and>
    repr (gc_remove_all (take k refs) M) (view d')"
  using assms
proof (induction refs arbitrary: M i n d)
  case Nil
  then show ?case by simp
next
  case (Cons ref refs)
  obtain e1 d1 where one: "gc_delete_ref P d ref = (e1, d1)" by fastforce
  note rep1 = gc_ref_refines [OF Cons.prems(1) _ one]
  show ?case
  proof (cases "ctx i = None \<and> e1 = None")
    case True
    then have "gc_delete P ctx (Suc i) refs (Suc n) d1 = (n', err, d')" using Cons.prems(3) one by simp
    moreover have "repr (gc_remove ref M) (view d1)" using rep1 True Cons.prems(2) by simp
    moreover have "\<forall>x\<in>set refs. ref_safe (gc_remove ref M) x" using Cons.prems(2) ref_safe_remove by auto
    ultimately obtain k where "k \<le> length refs" "n' = Suc n + k" "err = None \<longrightarrow> k = length refs"
        "repr (gc_remove_all (take k refs) (gc_remove ref M)) (view d')"
      using Cons.IH by blast
    then show ?thesis by (intro exI [of _ "Suc k"]) simp
  next
    case False
    then have "n' = n \<and> err \<noteq> None \<and> repr M (view d')"
      using Cons.prems one rep1 by (cases "ctx i"; cases e1) (auto intro: sym)
    then show ?thesis by (intro exI [of _ 0]) simp
  qed
qed

end

section \<open>What the scan collects\<close>

definition exp_entry :: "mailboxes \<Rightarrow> bytes \<Rightarrow> expiredRef \<Rightarrow> bool" where
  "exp_entry M k ref \<longleftrightarrow>
     (\<exists>r s sm. plain r \<and> mb_msgs (M r) s = Some sm \<and> k = expKey (ExpireAt sm) r s \<and> ref = ref_of (ExpireAt sm) r s)"

lemma exp_entries:
  assumes rep: "repr M m" and k: "(k, v) \<in> set (entries m ''exp/'' (expUpperBound now))" and fin: "finite (dom m)"
  shows "\<exists>ref. exp_entry M k ref"
proof -
  have k: "k \<in> dom m" "''exp/'' \<le> k" "k < expUpperBound now" using k fin by (auto simp: entries_def)
  then obtain l where l: "wf_lkey l" "k = enc_key l"
    using rep holds_keyE unfolding repr_def by metis
  then obtain e r s where lk: "l = KExp e r s" using exp_scan_in k by blast
  have "m k = lval M l" using holds_lookup rep l unfolding repr_def by blast
  with k(1) have "lval M l \<noteq> None" by (metis domIff)
  with lk l show ?thesis by (auto simp: exp_entry_def split: option.splits if_splits)
qed

lemma parse_exp_entry:
  assumes "repr M m" "exp_entry M k ref"
  shows "parseExpKey k = Inr (ref_expireAt ref, ref_recipientID ref, ref_storeSeq ref)" "ref_expKey ref = k"
proof -
  obtain r s sm where r: "plain r" "mb_msgs (M r) s = Some sm" "k = expKey (ExpireAt sm) r s" "ref = ref_of (ExpireAt sm) r s"
    using assms(2) by (auto simp: exp_entry_def)
  have "0 \<le> sint (ExpireAt sm)"
    using mailbox_ok_stored [OF repr_ok [OF assms(1)] r(2)] by (simp add: stored_ok_def)
  with r show "parseExpKey k = Inr (ref_expireAt ref, ref_recipientID ref, ref_storeSeq ref)" "ref_expKey ref = k"
    by (simp_all add: parseExpKey_expKey ref_of_def)
qed

lemma exp_entry_unique:
  assumes "repr M m" "exp_entry M k ref" "exp_entry M k ref'"
  shows "ref = ref'"
  using parse_exp_entry [OF assms(1,2)] parse_exp_entry [OF assms(1,3)] by (intro expiredRef.equality) auto

lemma gc_scan_result:
  assumes rep: "repr M m" and es: "\<forall>x\<in>set es. \<exists>ref. exp_entry M (fst x) ref"
    and res: "gc_scan ctx now limit i es refs = (None, broke, i', refs')"
    and "int (length refs) < sint limit"
  shows "\<exists>es1 es2 new. es = es1 @ es2 \<and> refs' = refs @ new \<and> list_all2 (\<lambda>x. exp_entry M (fst x)) es1 new \<and>
    (\<forall>ref\<in>set new. sint (ref_expireAt ref) \<le> sint now) \<and> int (length refs') \<le> sint limit \<and>
    (if broke then int (length refs') = sint limit \<or>
       (\<exists>x es3 ref. es2 = x # es3 \<and> exp_entry M (fst x) ref \<and> sint now < sint (ref_expireAt ref)) else es2 = [])"
  using es res assms(4)
proof (induction es arbitrary: i refs)
  case Nil
  then show ?case by auto
next
  case (Cons x es)
  obtain k v where x: "x = (k, v)" by fastforce
  obtain ref where ref: "exp_entry M k ref" using Cons.prems(1) x by auto
  note parse = parse_exp_entry [OF rep ref]
  have self: "\<lparr>ref_expireAt = ref_expireAt ref, ref_recipientID = ref_recipientID ref,
      ref_storeSeq = ref_storeSeq ref, ref_expKey = k\<rparr> = ref" using parse(2) by simp
  have ctx: "ctx i = None" using Cons.prems(2) x by (auto split: option.splits)
  have step: "gc_scan ctx now limit i (x # es) refs =
      (if sint now < sint (ref_expireAt ref) then (None, True, Suc i, refs)
       else if sint limit \<le> int (length (refs @ [ref])) then (None, True, Suc i, refs @ [ref])
       else gc_scan ctx now limit (Suc i) es (refs @ [ref]))"
    using parse(1) x ctx by (simp add: Let_def self)
  consider (stop) "sint now < sint (ref_expireAt ref)"
    | (full) "sint (ref_expireAt ref) \<le> sint now" "sint limit \<le> int (length (refs @ [ref]))"
    | (go) "sint (ref_expireAt ref) \<le> sint now" "int (length (refs @ [ref])) < sint limit" by linarith
  then show ?case
  proof cases
    case stop
    then have "broke" "refs' = refs" using step Cons.prems(2) by auto
    then show ?thesis
      using stop ref x Cons.prems(3) by (intro exI [of _ "[]"] exI [of _ "x # es"]) auto
  next
    case full
    then have "broke" "refs' = refs @ [ref]" using step Cons.prems(2) by auto
    then show ?thesis
      using full ref x Cons.prems(3) by (intro exI [of _ "[x]"] exI [of _ es] exI [of _ "[ref]"]) auto
  next
    case go
    then have "gc_scan ctx now limit (Suc i) es (refs @ [ref]) = (None, broke, i', refs')"
      using step Cons.prems(2) by auto
    then obtain es1 es2 new where "es = es1 @ es2" "refs' = (refs @ [ref]) @ new"
        "list_all2 (\<lambda>x. exp_entry M (fst x)) es1 new" "\<forall>ref\<in>set new. sint (ref_expireAt ref) \<le> sint now"
        "int (length refs') \<le> sint limit"
        "if broke then int (length refs') = sint limit \<or>
           (\<exists>x es3 ref. es2 = x # es3 \<and> exp_entry M (fst x) ref \<and> sint now < sint (ref_expireAt ref)) else es2 = []"
      using Cons.IH [of "Suc i" "refs @ [ref]"] Cons.prems(1) go(2) by auto
    with ref x go(1) show ?thesis by (intro exI [of _ "x # es1"] exI [of _ es2] exI [of _ "ref # new"]) auto
  qed
qed

lemma exp_entry_inj: "exp_entry M k ref \<Longrightarrow> exp_entry M k' ref \<Longrightarrow> k = k'"
  by (auto simp: exp_entry_def ref_of_def)

lemma exp_entry_key:
  assumes "exp_entry M k ref" "exp_entry M k' ref'"
    "(ref_recipientID ref, ref_storeSeq ref) = (ref_recipientID ref', ref_storeSeq ref')"
  shows "ref = ref'"
  using assms by (auto simp: exp_entry_def ref_of_def)

definition ref_key :: "expiredRef \<Rightarrow> string \<times> uint64" where
  "ref_key ref = (ref_recipientID ref, ref_storeSeq ref)"

lemma distinct_refs:
  assumes "list_all2 (\<lambda>x. exp_entry M (fst x)) es refs" "distinct (map fst es)"
  shows "distinct (map ref_key refs)"
  using assms
proof (induction es refs rule: list_all2_induct)
  case (Cons x es ref refs)
  have "ref_key ref \<notin> ref_key ` set refs"
  proof
    assume "ref_key ref \<in> ref_key ` set refs"
    then obtain ref' where ref': "ref' \<in> set refs" "ref_key ref = ref_key ref'" by auto
    then obtain y where y: "y \<in> set es" "exp_entry M (fst y) ref'"
      using Cons.hyps(2) by (metis in_set_conv_nth list_all2_conv_all_nth)
    then have "ref' = ref" using exp_entry_key [OF y(2) Cons.hyps(1)] ref'(2) by (simp add: ref_key_def)
    then have "fst y = fst x" using exp_entry_inj y(2) Cons.hyps(1) by blast
    then show False using Cons.prems y(1) by (metis distinct.simps(2) image_eqI list.simps(9) list.set_map)
  qed
  with Cons show ?case by simp
qed simp

lemma distinct_entries: "finite (dom m) \<Longrightarrow> distinct (map fst (entries m lo hi))"
  by (simp add: entries_def comp_def)

text \<open>Every expired message has an entry in the scanned range.\<close>

lemma exp_entries_complete:
  assumes rep: "repr M m" and fin: "finite (dom m)" and now: "0 \<le> sint now" "sint now < 2 ^ 63 - 1"
    and sm: "plain r" "mb_msgs (M r) s = Some sm" "sint (ExpireAt sm) \<le> sint now"
  shows "expKey (ExpireAt sm) r s \<in> set (map fst (entries m ''exp/'' (expUpperBound now)))"
proof -
  let ?l = "KExp (ExpireAt sm) r s"
  have "0 \<le> sint (ExpireAt sm)"
    using mailbox_ok_stored [OF repr_ok [OF rep] sm(2)] by (simp add: stored_ok_def)
  then have l: "wf_lkey ?l" using sm(1) by simp
  have "m (enc_key ?l) = lval M ?l" using holds_lookup rep l unfolding repr_def by blast
  then have "enc_key ?l \<in> dom m" using sm(2) by auto
  moreover have "''exp/'' \<le> enc_key ?l \<and> enc_key ?l < expUpperBound now"
    using exp_scan_range [OF l now] sm(3) by blast
  ultimately show ?thesis using fin by (simp add: entries_def)
qed

lemma exp_entries_expired:
  assumes rep: "repr M m" and fin: "finite (dom m)" and now: "0 \<le> sint now" "sint now < 2 ^ 63 - 1"
    and x: "x \<in> set (entries m ''exp/'' (expUpperBound now))" "exp_entry M (fst x) ref"
  shows "sint (ref_expireAt ref) \<le> sint now"
proof -
  obtain r s sm where r: "plain r" "mb_msgs (M r) s = Some sm" "fst x = enc_key (KExp (ExpireAt sm) r s)"
      "ref = ref_of (ExpireAt sm) r s"
    using x(2) by (auto simp: exp_entry_def)
  have "0 \<le> sint (ExpireAt sm)"
    using mailbox_ok_stored [OF repr_ok [OF rep] r(2)] by (simp add: stored_ok_def)
  then have l: "wf_lkey (KExp (ExpireAt sm) r s)" using r(1) by simp
  have "''exp/'' \<le> fst x \<and> fst x < expUpperBound now" using x(1) fin by (auto simp: entries_def)
  then show ?thesis using exp_scan_range [OF l now] r(3,4) by (auto simp: ref_of_def)
qed

section \<open>The whole operation\<close>

text \<open>
  The references that the scan of one \<open>DeleteExpired\<close> collects: distinct expired
  messages, at most \<open>limit\<close>, and all of them if there are fewer.
\<close>

definition gc_selects :: "mailboxes \<Rightarrow> int64 \<Rightarrow> int64 \<Rightarrow> expiredRef list \<Rightarrow> bool" where
  "gc_selects M now limit refs \<longleftrightarrow>
     (\<forall>ref\<in>set refs. ref_live M now ref) \<and> distinct (map ref_key refs) \<and> int (length refs) \<le> sint limit \<and>
     (0 \<le> sint now \<longrightarrow> sint now < 2 ^ 63 - 1 \<longrightarrow> int (length refs) < sint limit \<longrightarrow>
       (\<forall>r s sm. plain r \<longrightarrow> mb_msgs (M r) s = Some sm \<longrightarrow> sint (ExpireAt sm) \<le> sint now \<longrightarrow>
          ref_of (ExpireAt sm) r s \<in> set refs))"

context pebble_db
begin

lemma iter_entries:
  assumes "db_Iter P d lo hi = Inr (es, ie)"
  shows "prefix es (entries (view d) lo hi)" "ie = None \<Longrightarrow> es = entries (view d) lo hi"
  using assms Iter_done Iter_stopped by (cases ie; auto)+

lemma gc_scan_selects:
  assumes rep: "repr M (view d)" and limit: "0 < sint limit"
    and it: "db_Iter P d ''exp/'' (expUpperBound now) = Inr (es, ie)"
    and scan: "gc_scan ctx now limit 0 es [] = (None, broke, i, refs)" and fin: "broke \<or> ie = None"
  shows "gc_selects M now limit refs"
proof -
  let ?all = "entries (view d) ''exp/'' (expUpperBound now)"
  obtain us where all: "?all = es @ us" using iter_entries(1) [OF it] by (auto simp: prefix_def)
  have ent: "\<forall>x\<in>set ?all. \<exists>ref. exp_entry M (fst x) ref"
    using exp_entries [OF rep _ finite_view] by (metis prod.collapse)
  obtain es1 es2 where es: "es = es1 @ es2" and l2: "list_all2 (\<lambda>x. exp_entry M (fst x)) es1 refs"
      and exp: "\<forall>ref\<in>set refs. sint (ref_expireAt ref) \<le> sint now" and len: "int (length refs) \<le> sint limit"
      and why: "if broke then int (length refs) = sint limit \<or>
         (\<exists>x es3 ref. es2 = x # es3 \<and> exp_entry M (fst x) ref \<and> sint now < sint (ref_expireAt ref)) else es2 = []"
    using gc_scan_result [OF rep _ scan] ent limit all by auto
  have entry: "\<exists>x\<in>set es1. exp_entry M (fst x) ref" if "ref \<in> set refs" for ref
    using that l2 by (metis in_set_conv_nth list_all2_conv_all_nth)
  have live: "ref_live M now ref" if ref: "ref \<in> set refs" for ref
  proof -
    from entry [OF ref] obtain r s sm where r: "plain r" "mb_msgs (M r) s = Some sm" "ref = ref_of (ExpireAt sm) r s"
      by (auto simp: exp_entry_def)
    moreover have "sint (ExpireAt sm) \<le> sint now" using exp ref r(3) by (force simp: ref_of_def)
    ultimately show ?thesis unfolding ref_live_def by blast
  qed
  have dist: "distinct (map ref_key refs)"
    using distinct_refs [OF l2] distinct_entries [OF finite_view, of d "''exp/''" "expUpperBound now"] all es by simp
  have "ref_of (ExpireAt sm) r s \<in> set refs"
    if now: "0 \<le> sint now" "sint now < 2 ^ 63 - 1" and few: "int (length refs) < sint limit"
      and sm: "plain r" "mb_msgs (M r) s = Some sm" "sint (ExpireAt sm) \<le> sint now" for r s sm
  proof -
    have "\<not> (\<exists>x es3 ref. es2 = x # es3 \<and> exp_entry M (fst x) ref \<and> sint now < sint (ref_expireAt ref))"
      using exp_entries_expired [OF rep finite_view now] all es by fastforce
    then have "\<not> broke" "es2 = []" using why few by (auto split: if_splits)
    then have "?all = es1" using fin iter_entries(2) [OF it] es by simp
    then obtain x where x: "x \<in> set es1" "fst x = expKey (ExpireAt sm) r s"
      using exp_entries_complete [OF rep finite_view now sm] by auto
    then obtain ref where "ref \<in> set refs" "exp_entry M (fst x) ref"
      using l2 by (metis in_set_conv_nth list_all2_conv_all_nth)
    moreover have "exp_entry M (fst x) (ref_of (ExpireAt sm) r s)" using x(2) sm by (auto simp: exp_entry_def)
    ultimately show ?thesis using exp_entry_unique [OF rep] by metis
  qed
  with live dist len show ?thesis by (auto simp: gc_selects_def)
qed

lemma DeleteExpired_refines:
  assumes rep: "repr M (view d)" and limit: "0 < sint limit"
    and res: "DeleteExpired P ctx d now limit = (n, err, d')"
  shows "\<exists>refs. n \<le> length refs \<and> (err = None \<longrightarrow> n = length refs \<and> gc_selects M now limit refs) \<and>
    (\<forall>ref\<in>set refs. ref_live M now ref) \<and> repr (gc_remove_all (take n refs) M) (view d')"
proof (cases "n = 0 \<and> err \<noteq> None \<and> d' = d")
  case True
  then show ?thesis using rep by (intro exI [of _ "[]"]) auto
next
  case False
  obtain es ie where it: "db_Iter P d ''exp/'' (expUpperBound now) = Inr (es, ie)"
    using res limit False by (auto simp: DeleteExpired_def split: sum.splits)
  obtain e0 broke i refs where scan: "gc_scan ctx now limit 0 es [] = (e0, broke, i, refs)" by (metis prod_cases4)
  have none: "e0 = None" "broke \<or> ie = None"
    using res limit False it scan by (auto simp: DeleteExpired_def split: option.splits if_splits)
  then have del: "gc_delete P ctx i refs 0 d = (n, err, d')"
    using res limit it scan by (auto simp: DeleteExpired_def)
  have sel: "gc_selects M now limit refs" using gc_scan_selects [OF rep limit it scan [unfolded none(1)] none(2)] .
  then have "\<forall>ref\<in>set refs. ref_safe M ref" using ref_live_safe [OF rep] by (auto simp: gc_selects_def)
  from gc_delete_refines [OF rep this del] sel show ?thesis
    by (intro exI [of _ refs]) (auto simp: gc_selects_def)
qed

end

context pebble_ok
begin

lemma gc_ref_ok:
  assumes rep: "repr M (view d)" and safe: "ref_safe M ref"
  shows "fst (gc_delete_ref P d ref) = None"
proof -
  obtain e r s where ref: "ref = ref_of e r s" and r: "plain r"
    using safe by (auto simp: ref_safe_def)
  have com: "fst (db_Commit P d b) = None" for b using Commit_ok by (metis fst_conv)
  have key: "view d (msgKey r s) = map_option marshal_StoredMessage (mb_msgs (M r) s)"
    using repr_keys(1) [OF rep r] by simp
  show ?thesis
  proof (cases "mb_msgs (M r) s")
    case None
    then show ?thesis using key com by (simp add: gc_delete_ref_def ref ref_of_def Get_eq Let_def)
  next
    case (Some sm)
    then obtain env where "sm_Message sm = Some env" "wf_StoredMessage sm"
      using mailbox_ok_stored [OF repr_ok [OF rep] Some] by (auto simp: stored_ok_def)
    then show ?thesis
      using key Some com unmarshal_gcStored_marshal by (simp add: gc_delete_ref_def ref ref_of_def Get_eq Let_def)
  qed
qed

lemma gc_delete_ok:
  assumes "repr M (view d)" "\<forall>ref\<in>set refs. ref_safe M ref" "\<forall>j. ctx j = None"
  shows "fst (snd (gc_delete P ctx i refs n d)) = None"
  using assms
proof (induction refs arbitrary: M i n d)
  case (Cons ref refs)
  obtain d' where d': "gc_delete_ref P d ref = (None, d')"
    using gc_ref_ok [OF Cons.prems(1)] Cons.prems(2) by (metis list.set_intros(1) prod.collapse)
  then have "repr (gc_remove ref M) (view d')"
    using gc_ref_refines [OF Cons.prems(1) _ d'] Cons.prems(2) by simp
  moreover have "\<forall>x\<in>set refs. ref_safe (gc_remove ref M) x" using Cons.prems(2) ref_safe_remove by auto
  ultimately show ?case using Cons.IH Cons.prems(3) d' by simp
qed simp

lemma gc_scan_no_error:
  assumes rep: "repr M m" and "\<forall>x\<in>set es. \<exists>ref. exp_entry M (fst x) ref" "\<forall>j. ctx j = None"
  shows "fst (gc_scan ctx now limit i es refs) = None"
  using assms(2)
proof (induction es arbitrary: i refs)
  case (Cons x es)
  obtain k v where x: "x = (k, v)" by fastforce
  then obtain ref where "exp_entry M k ref" using Cons.prems by auto
  then have "parseExpKey k = Inr (ref_expireAt ref, ref_recipientID ref, ref_storeSeq ref)"
    by (rule parse_exp_entry(1) [OF rep])
  then show ?case using Cons x assms(3) by (simp add: Let_def)
qed simp

lemma DeleteExpired_ok:
  assumes rep: "repr M (view d)" and limit: "0 < sint limit" and ctx: "\<forall>j. ctx j = None"
  obtains refs d' where "DeleteExpired P ctx d now limit = (length refs, None, d')"
    "gc_selects M now limit refs" "repr (gc_remove_all refs M) (view d')"
proof -
  let ?es = "entries (view d) ''exp/'' (expUpperBound now)"
  have it: "db_Iter P d ''exp/'' (expUpperBound now) = Inr (?es, None)" by (rule Iter_eq)
  have "\<forall>x\<in>set ?es. \<exists>ref. exp_entry M (fst x) ref"
    using exp_entries [OF rep _ finite_view] by (metis prod.collapse)
  then have "fst (gc_scan ctx now limit 0 ?es []) = None" by (rule gc_scan_no_error [OF rep _ ctx])
  then obtain broke i refs where scan: "gc_scan ctx now limit 0 ?es [] = (None, broke, i, refs)"
    by (metis prod.collapse fst_conv)
  have sel: "gc_selects M now limit refs" using gc_scan_selects [OF rep limit it scan] by simp
  then have safe: "\<forall>ref\<in>set refs. ref_safe M ref" using ref_live_safe [OF rep] by (auto simp: gc_selects_def)
  obtain n d' where del: "gc_delete P ctx i refs 0 d = (n, None, d')"
    using gc_delete_ok [OF rep safe ctx, of i 0] by (metis prod.collapse)
  have "DeleteExpired P ctx d now limit = (n, None, d')"
    using limit it scan del by (simp add: DeleteExpired_def)
  moreover have "n = length refs" "repr (gc_remove_all refs M) (view d')"
    using gc_delete_refines [OF rep safe del] by auto
  ultimately show thesis using sel that by blast
qed

end

end
