(* ===== verification/Storage.thy ===== *)
theory Storage
  imports MessageGC
begin

text \<open>
  \<open>internal/storage/storage.go\<close> and \<open>internal/storage/pebble/db.go\<close>: the storage
  interface the services and the garbage collector call, and the store that implements it.
  The Go interfaces \<open>Storage\<close> and \<open>QuotaStorage\<close> are a record of operations; what
  their clients may rely on is the contract of two locales, stated over mailboxes:
  \<open>mailbox_storage\<close> holds with faults and cancelled contexts, \<open>live_storage\<close> adds
  that operations succeed. The pebble store meets both.
\<close>

section \<open>The interface\<close>

text \<open>
  A call receives what it reads from its environment: the context (its state, or its state at
  each poll) and the reading of the clock. None is a call that does not return.
\<close>

record 'st storage =
  i_StoreMessage :: "goerr option \<Rightarrow> int64 \<Rightarrow> 'st \<Rightarrow> StoredMessage option \<Rightarrow>
    ((uint64 \<times> int64 \<times> bool) res \<times> 'st) option"
  i_StoreMessageWithQuota :: "goerr option \<Rightarrow> int64 \<Rightarrow> 'st \<Rightarrow> StoredMessage option \<Rightarrow> int64 \<Rightarrow> int64 \<Rightarrow>
    ((uint64 \<times> int64 \<times> bool) res \<times> 'st) option"
  i_FetchMessages :: "goerr option \<Rightarrow> int64 \<Rightarrow> 'st \<Rightarrow> string \<Rightarrow> uint64 \<Rightarrow> int64 \<Rightarrow>
    (StoredMessage list \<times> bool) res"
  i_MarkDelivered :: "goerr option \<Rightarrow> int64 \<Rightarrow> 'st \<Rightarrow> string \<Rightarrow> StoredMessage option list \<Rightarrow>
    goerr option \<times> 'st"
  i_AckMessages :: "(nat \<Rightarrow> goerr option) \<Rightarrow> 'st \<Rightarrow> string \<Rightarrow> uint64 \<Rightarrow>
    (uint64 \<times> nat \<times> goerr option \<times> 'st) option"
  i_DeleteExpired :: "(nat \<Rightarrow> goerr option) \<Rightarrow> 'st \<Rightarrow> int64 \<Rightarrow> int64 \<Rightarrow> nat \<times> goerr option \<times> 'st"

text \<open>The store that \<open>Open\<close> returns, over the database library \<open>P\<close>.\<close>

definition pebble_store :: "'db pebble \<Rightarrow> 'db storage" where
  "pebble_store P =
     \<lparr>i_StoreMessage = StoreMessage P,
      i_StoreMessageWithQuota = StoreMessageWithQuota P,
      i_FetchMessages = FetchMessages P,
      i_MarkDelivered = MarkDelivered P,
      i_AckMessages = AckMessages P defaultAckDeleteBatch,
      i_DeleteExpired = DeleteExpired P\<rparr>"

section \<open>The contract\<close>

text \<open>What storing a message may do, and what its answer means.\<close>

definition store_post ::
  "('st \<Rightarrow> mailboxes \<Rightarrow> bool) \<Rightarrow> mailboxes \<Rightarrow> int64 \<Rightarrow> StoredMessage \<Rightarrow> OfflineMessageEnvelope \<Rightarrow>
   (uint64 \<times> int64 \<times> bool) res \<Rightarrow> 'st \<Rightarrow> bool" where
  "store_post model M now msg env res st' \<longleftrightarrow>
     (case res of
        Inl e \<Rightarrow> model st' M
      | Inr (s, ex, dup) \<Rightarrow>
          if dup then model st' M \<and> (\<exists>sm. mb_msgs (M (RecipientID env)) s = Some sm \<and>
            msg_id sm = MsgID env \<and> ExpireAt sm = ex)
          else find_id (M (RecipientID env)) (MsgID env) = None \<and>
            s = mb_last (M (RecipientID env)) + 1 \<and>
            ex = ExpireAt (next_message (M (RecipientID env)) now msg env) \<and>
            model st' (M(RecipientID env := mb_add (next_message (M (RecipientID env)) now msg env)
                                              (M (RecipientID env)))))"

text \<open>What acknowledging up to \<open>a\<close> may do.\<close>

definition acks :: "mailbox \<Rightarrow> uint64 \<Rightarrow> uint64 \<Rightarrow> bool" where
  "acks mb a w \<longleftrightarrow> mb_acked mb \<le> w \<and> w \<le> a \<and> (\<forall>s\<in>dom (mb_msgs mb). s \<le> a \<longrightarrow> s \<le> w)"

locale mailbox_storage =
  fixes S :: "'st storage"
    and model :: "'st \<Rightarrow> mailboxes \<Rightarrow> bool"
  assumes model_ok: "model st M \<Longrightarrow> mailbox_ok r (M r)"
    and model_finite: "model st M \<Longrightarrow> finite {(r, s). plain r \<and> mb_msgs (M r) s \<noteq> None}"
    and store_law: "model st M \<Longrightarrow> sm_Message msg = Some env \<Longrightarrow> storable env \<Longrightarrow>
      mb_last (M (RecipientID env)) \<noteq> - 1 \<Longrightarrow> 0 \<le> sint (now + EffectiveTTL (Some env) 0) \<Longrightarrow>
      i_StoreMessageWithQuota S ctx now st (Some msg) mm mbytes = Some (res, st') \<Longrightarrow>
      store_post model M now msg env res st'"
    and fetch_law: "model st M \<Longrightarrow> plain r \<Longrightarrow> 0 < sint limit \<Longrightarrow>
      i_FetchMessages S ctx now st r after limit = Inr got \<Longrightarrow> got = mb_fetch now after limit (M r)"
    and mark_law: "model st M \<Longrightarrow> plain r \<Longrightarrow> i_MarkDelivered S ctx now st r items = (err, st') \<Longrightarrow>
      model st' (if err = None \<and> items \<noteq> [] then M(r := mb_mark now (set (delivered_seqs items)) (M r)) else M)"
    and ack_law: "model st M \<Longrightarrow> plain r \<Longrightarrow> i_AckMessages S poll st r a = Some (u, c, err, st') \<Longrightarrow>
      model st' M \<and> (err = None \<longrightarrow> a \<le> mb_acked (M r) \<and> u = mb_acked (M r) \<and> c = 0) \<or>
      (mb_acked (M r) < a \<and> a \<le> mb_delivered (M r) \<and>
       (\<exists>w. mb_acked (M r) \<le> w \<and> w \<le> a \<and> model st' (M(r := mb_ack_upto w (M r))) \<and>
          (err = None \<longrightarrow> u = w \<and> acks (M r) a w \<and> c = card {s \<in> dom (mb_msgs (M r)). s \<le> a})))"
    and gc_law: "model st M \<Longrightarrow> i_DeleteExpired S poll st now limit = (n, err, st') \<Longrightarrow>
      \<exists>refs. length refs = n \<and> (\<forall>ref\<in>set refs. ref_live M now ref) \<and> model st' (gc_remove_all refs M) \<and>
        (err = None \<longrightarrow> 0 < sint limit \<longrightarrow> gc_selects M now limit refs)"
    and gc_off: "sint limit \<le> 0 \<Longrightarrow> i_DeleteExpired S poll st now limit = (0, None, st)"

locale live_storage = mailbox_storage +
  assumes store_live: "model st M \<Longrightarrow> sm_Message msg = Some env \<Longrightarrow> storable env \<Longrightarrow>
      find_id (M (RecipientID env)) (MsgID env) = None \<Longrightarrow>
      mb_last (M (RecipientID env)) \<noteq> - 1 \<Longrightarrow> 0 \<le> sint (now + EffectiveTTL (Some env) 0) \<Longrightarrow>
      usage_count (M (RecipientID env)) < 2 ^ 63 \<Longrightarrow>
      usage_bytes (M (RecipientID env)) +
        length (marshal_StoredMessage (next_message (M (RecipientID env)) now msg env)) < 2 ^ 63 \<Longrightarrow>
      (0 < sint mm \<Longrightarrow> int (usage_count (M (RecipientID env))) < sint mm) \<Longrightarrow>
      (0 < sint mbytes \<Longrightarrow> int (usage_bytes (M (RecipientID env)) +
        length (marshal_StoredMessage (next_message (M (RecipientID env)) now msg env))) \<le> sint mbytes) \<Longrightarrow>
      \<exists>s ex st'. i_StoreMessageWithQuota S None now st (Some msg) mm mbytes = Some (Inr (s, ex, False), st')"
    and fetch_live: "model st M \<Longrightarrow> plain r \<Longrightarrow> 0 < sint limit \<Longrightarrow>
      \<exists>res. i_FetchMessages S None now st r after limit = Inr res"
    and mark_live: "model st M \<Longrightarrow> plain r \<Longrightarrow> fst (i_MarkDelivered S None now st r items) = None"
    and ack_live: "model st M \<Longrightarrow> plain r \<Longrightarrow> a \<le> mb_delivered (M r) \<Longrightarrow> (\<forall>j. poll j = None) \<Longrightarrow>
      \<exists>u c st'. i_AckMessages S poll st r a = Some (u, c, None, st')"
    and gc_live: "model st M \<Longrightarrow> (\<forall>j. poll j = None) \<Longrightarrow> fst (snd (i_DeleteExpired S poll st now limit)) = None"

section \<open>The pebble store meets the contract\<close>

lemma repr_finite:
  assumes rep: "repr M m" and fin: "finite (dom m)"
  shows "finite {(r, s). plain r \<and> mb_msgs (M r) s \<noteq> None}" (is "finite ?A")
proof -
  have inj: "inj_on (\<lambda>(r, s). msgKey r s) ?A"
    by (rule inj_on_inverseI [where g = "\<lambda>k. projr (parseMsgKey k)"]) (auto simp: parseMsgKey_msgKey)
  have "(\<lambda>(r, s). msgKey r s) ` ?A \<subseteq> dom m"
    using repr_keys(1) [OF rep] by auto
  then have "finite ((\<lambda>(r, s). msgKey r s) ` ?A)" using fin by (rule finite_subset)
  then show ?thesis using inj by (rule finite_imageD)
qed

context pebble_db
begin

definition pmodel :: "'db \<Rightarrow> mailboxes \<Rightarrow> bool" where
  "pmodel d M \<longleftrightarrow> repr M (view d)"

lemma pebble_store_law:
  assumes "pmodel d M" "sm_Message msg = Some env" "storable env"
    "mb_last (M (RecipientID env)) \<noteq> - 1" "0 \<le> sint (now + EffectiveTTL (Some env) 0)"
    "StoreMessageWithQuota P ctx now d (Some msg) mm mbytes = Some (res, d')"
  shows "store_post pmodel M now msg env res d'"
  using store_refines [OF assms(1) [unfolded pmodel_def] assms(2-5) assms(6) [unfolded StoreMessageWithQuota_def]]
    assms(1) by (auto simp: store_post_def pmodel_def Let_def split: sum.splits if_splits)

lemma pebble_ack_law:
  assumes "pmodel d M" "plain r" "AckMessages P defaultAckDeleteBatch poll d r a = Some (u, c, err, d')"
  shows "pmodel d' M \<and> (err = None \<longrightarrow> a \<le> mb_acked (M r) \<and> u = mb_acked (M r) \<and> c = 0) \<or>
    (mb_acked (M r) < a \<and> a \<le> mb_delivered (M r) \<and>
     (\<exists>w. mb_acked (M r) \<le> w \<and> w \<le> a \<and> pmodel d' (M(r := mb_ack_upto w (M r))) \<and>
        (err = None \<longrightarrow> u = w \<and> acks (M r) a w \<and> c = card {s \<in> dom (mb_msgs (M r)). s \<le> a})))"
proof (cases "mb_acked (M r) < a \<and> a \<le> mb_delivered (M r)")
  case True
  then have "ack_post M r a 0 u c err (view d')"
    using AckMessages_refines [OF assms(1) [unfolded pmodel_def] assms(2) _ assms(3)]
    by (simp add: defaultAckDeleteBatch_def)
  with True show ?thesis unfolding ack_post_def acks_def pmodel_def by auto
next
  case False
  then have "d' = d" "err = None \<longrightarrow> a \<le> mb_acked (M r) \<and> u = mb_acked (M r) \<and> c = 0"
    using AckMessages_refines [OF assms(1) [unfolded pmodel_def] assms(2) _ assms(3)]
    by (auto simp: defaultAckDeleteBatch_def split: if_splits)
  with assms(1) show ?thesis by simp
qed

lemma pebble_gc_law:
  assumes "pmodel d M" "DeleteExpired P poll d now limit = (n, err, d')"
  shows "\<exists>refs. length refs = n \<and> (\<forall>ref\<in>set refs. ref_live M now ref) \<and> pmodel d' (gc_remove_all refs M) \<and>
    (err = None \<longrightarrow> 0 < sint limit \<longrightarrow> gc_selects M now limit refs)"
proof (cases "0 < sint limit")
  case False
  then show ?thesis using assms by (intro exI [of _ "[]"]) (auto simp: DeleteExpired_def)
next
  case True
  obtain refs where "n \<le> length refs" "err = None \<longrightarrow> n = length refs \<and> gc_selects M now limit refs"
      "\<forall>ref\<in>set refs. ref_live M now ref" "repr (gc_remove_all (take n refs) M) (view d')"
    using DeleteExpired_refines [OF assms(1) [unfolded pmodel_def] True assms(2)] by blast
  then show ?thesis by (intro exI [of _ "take n refs"]) (auto simp: pmodel_def dest: in_set_takeD)
qed

lemma pebble_mark_law:
  assumes "pmodel d M" "plain r" "MarkDelivered P ctx now d r items = (err, d')"
  shows "pmodel d' (if err = None \<and> items \<noteq> [] then M(r := mb_mark now (set (delivered_seqs items)) (M r)) else M)"
proof (cases "items = []")
  case True
  then show ?thesis using assms by (auto simp: MarkDelivered_def split: option.splits)
next
  case False
  then show ?thesis
    using mark_refines [OF assms(1) [unfolded pmodel_def] assms(2) False assms(3)]
    by (auto simp: pmodel_def split: option.splits)
qed

end

sublocale pebble_db \<subseteq> storage: mailbox_storage "pebble_store P" pmodel
proof unfold_locales
  fix st M r
  assume m: "pmodel st M"
  then show "mailbox_ok r (M r)" by (auto simp: pmodel_def)
  from m show "finite {(r, s). plain r \<and> mb_msgs (M r) s \<noteq> None}"
    using repr_finite [OF _ finite_view] by (auto simp: pmodel_def)
next
  fix st M r limit ctx now "after" res
  assume "pmodel st M" "plain r" "0 < sint limit" "i_FetchMessages (pebble_store P) ctx now st r after limit = Inr res"
  then show "res = mb_fetch now after limit (M r)"
    using fetch_refines by (cases res) (auto simp: pmodel_def pebble_store_def)
qed (simp_all add: pebble_store_def pebble_store_law pebble_ack_law pebble_gc_law pebble_mark_law
  DeleteExpired_def)

sublocale pebble_ok \<subseteq> storage: live_storage "pebble_store P" pmodel
proof unfold_locales
  fix st M msg env and now mm mbytes :: int64
  assume m: "pmodel st M" and env: "sm_Message msg = Some env" "storable env"
    and fresh: "find_id (M (RecipientID env)) (MsgID env) = None"
    and room: "mb_last (M (RecipientID env)) \<noteq> - 1" "0 \<le> sint (now + EffectiveTTL (Some env) 0)"
    and small: "usage_count (M (RecipientID env)) < 2 ^ 63" "usage_bytes (M (RecipientID env)) +
        length (marshal_StoredMessage (next_message (M (RecipientID env)) now msg env)) < 2 ^ 63"
    and quota: "0 < sint mm \<Longrightarrow> int (usage_count (M (RecipientID env))) < sint mm"
      "0 < sint mbytes \<Longrightarrow> int (usage_bytes (M (RecipientID env)) +
        length (marshal_StoredMessage (next_message (M (RecipientID env)) now msg env))) \<le> sint mbytes"
  have r: "plain (RecipientID env)" using env(2) by (simp add: storable_def)
  have "check_quota P st (RecipientID env)
      (marshal_StoredMessage (next_message (M (RecipientID env)) now msg env)) mm mbytes = Inr ()"
    using quota by (auto simp: check_quota_eq [OF m [unfolded pmodel_def] r small])
  then show "\<exists>s ex st'. i_StoreMessageWithQuota (pebble_store P) None now st (Some msg) mm mbytes
      = Some (Inr (s, ex, False), st')"
    using store_fresh [OF m [unfolded pmodel_def] env fresh room, of True mm mbytes]
    by (auto simp: pebble_store_def StoreMessageWithQuota_def)
next
  fix st M r "after" and limit now :: int64
  assume "pmodel st M" "plain r" "0 < sint limit"
  then show "\<exists>res. i_FetchMessages (pebble_store P) None now st r after limit = Inr res"
    using fetch_eq by (auto simp: pmodel_def pebble_store_def)
next
  fix st M r now items
  assume "pmodel st M" "plain r"
  then show "fst (i_MarkDelivered (pebble_store P) None now st r items) = None"
    using mark_ok [of M st r items now] by (cases "items = []") (auto simp: pmodel_def pebble_store_def MarkDelivered_def)
next
  fix st M r a and poll :: "nat \<Rightarrow> goerr option"
  assume m: "pmodel st M" "plain r" "a \<le> mb_delivered (M r)" "\<forall>j. poll j = None"
  show "\<exists>u c st'. i_AckMessages (pebble_store P) poll st r a = Some (u, c, None, st')"
  proof (cases "a \<le> mb_acked (M r)")
    case True
    then show ?thesis using ack_again m by (simp add: pebble_store_def pmodel_def)
  next
    case False
    then have a: "mb_acked (M r) < a" "0 < defaultAckDeleteBatch" by (auto simp: defaultAckDeleteBatch_def)
    obtain w d' where "AckMessages P defaultAckDeleteBatch poll st r a
        = Some (w, card {s \<in> dom (mb_msgs (M r)). s \<le> a}, None, d')"
      by (rule ack_ok [OF m(1) [unfolded pmodel_def] m(2) a(2) m(4) a(1) m(3)])
    then show ?thesis by (simp add: pebble_store_def)
  qed
next
  fix st M now limit and poll :: "nat \<Rightarrow> goerr option"
  assume m: "pmodel st M" "\<forall>j. poll j = None"
  show "fst (snd (i_DeleteExpired (pebble_store P) poll st now limit)) = None"
  proof (cases "0 < sint limit")
    case True
    obtain n d' where "DeleteExpired P poll st now limit = (n, None, d')"
      by (rule DeleteExpired_ok [OF m(1) [unfolded pmodel_def] True m(2), of now]) (rule that)
    then show ?thesis by (simp add: pebble_store_def)
  qed (simp add: pebble_store_def DeleteExpired_def)
qed

text \<open>The contracts as facts about any database library.\<close>

context pebble_db
begin

lemma is_storage: "mailbox_storage (pebble_store P) pmodel"
  by (rule storage.mailbox_storage_axioms)

end

context pebble_ok
begin

lemma is_live: "live_storage (pebble_store P) pmodel"
  by (rule storage.live_storage_axioms)

end

end
