(* ===== verification/Metrics.thy ===== *)
theory Metrics
  imports Prelude
begin

text \<open>\<open>internal/metrics/metrics.go\<close>: the atomic counters of the node.\<close>

record Metrics =
  StoreRequestsTotal :: uint64
  StoreSuccessTotal :: uint64
  StoreDuplicateTotal :: uint64
  FetchRequestsTotal :: uint64
  FetchMessagesReturnedTotal :: uint64
  AckRequestsTotal :: uint64
  AckDeletedTotal :: uint64
  GCDeletedTotal :: uint64
  InvalidSignatureTotal :: uint64
  RateLimitedTotal :: uint64

definition New_Metrics :: Metrics where
  "New_Metrics =
     \<lparr>StoreRequestsTotal = 0, StoreSuccessTotal = 0, StoreDuplicateTotal = 0, FetchRequestsTotal = 0,
      FetchMessagesReturnedTotal = 0, AckRequestsTotal = 0, AckDeletedTotal = 0, GCDeletedTotal = 0,
      InvalidSignatureTotal = 0, RateLimitedTotal = 0\<rparr>"

end
