(* ===== verification/Ratelimit.thy ===== *)
theory Ratelimit
  imports Prelude
begin

text \<open>
  \<open>internal/ratelimit/limiter.go\<close>: at most \<open>limit\<close> requests per sender and minute. A
  time is the number of nanoseconds since the zero time of Go; the zero value of a window is
  the zero time with count 0. \<open>Allow\<close> runs under the limiter's mutex, so it is one step.
\<close>

section \<open>The limiter\<close>

type_synonym time = int

definition minute :: int where
  "minute = 60 * 10 ^ 9"

definition Truncate :: "time \<Rightarrow> int \<Rightarrow> time" where
  "Truncate t d = (if d \<le> 0 then t else t - t mod d)"

record senderWindow =
  WindowStart :: time
  Count :: int64

record Limiter =
  lim_limit :: int64
  lim_windows :: "string \<rightharpoonup> senderWindow"

definition New_Limiter :: "int64 \<Rightarrow> Limiter" where
  "New_Limiter limit = \<lparr>lim_limit = limit, lim_windows = Map.empty\<rparr>"

definition window_of :: "Limiter \<Rightarrow> string \<Rightarrow> senderWindow" where
  "window_of l senderID =
     (case lim_windows l senderID of None \<Rightarrow> \<lparr>WindowStart = 0, Count = 0\<rparr> | Some w \<Rightarrow> w)"

definition Allow :: "Limiter \<Rightarrow> time \<Rightarrow> string \<Rightarrow> bool \<times> Limiter" where
  "Allow l now senderID =
     (if sint (lim_limit l) \<le> 0 then (True, l)
      else
        (let window = Truncate now minute;
             old = window_of l senderID;
             state = (if WindowStart old \<noteq> window then \<lparr>WindowStart = window, Count = 0\<rparr> else old)
         in if sint (lim_limit l) \<le> sint (Count state)
            then (False, l\<lparr>lim_windows := (lim_windows l)(senderID \<mapsto> state)\<rparr>)
            else (True, l\<lparr>lim_windows := (lim_windows l)(senderID \<mapsto> state\<lparr>Count := Count state + 1\<rparr>)\<rparr>)))"

section \<open>Sequences of requests\<close>

text \<open>Requests in order: sender and time; the answers.\<close>

fun Allow_all :: "Limiter \<Rightarrow> (string \<times> time) list \<Rightarrow> bool list \<times> Limiter" where
  "Allow_all l [] = ([], l)"
| "Allow_all l ((s, t) # calls) =
     (case Allow l t s of (ok, l') \<Rightarrow> (case Allow_all l' calls of (oks, l'') \<Rightarrow> (ok # oks, l'')))"

lemma Allow_all_snoc:
  "Allow_all l (calls @ [(s, t)]) =
     (case Allow_all l calls of (oks, l') \<Rightarrow> (case Allow l' t s of (ok, l'') \<Rightarrow> (oks @ [ok], l'')))"
  by (induction l calls rule: Allow_all.induct) (auto split: prod.splits)

lemma Allow_all_length: "length (fst (Allow_all l calls)) = length calls"
  by (induction l calls rule: Allow_all.induct) (auto split: prod.splits)

lemma Truncate_mono: "t \<le> u \<Longrightarrow> Truncate t minute \<le> Truncate u minute"
proof -
  assume "t \<le> u"
  then have "t div minute \<le> u div minute" by (simp add: zdiv_mono1 minute_def)
  then have "minute * (t div minute) \<le> minute * (u div minute)" by (simp add: minute_def)
  then show ?thesis by (simp add: Truncate_def minute_def minus_mod_eq_mult_div)
qed

text \<open>How much of the window \<open>w\<close> is used up according to the state.\<close>

definition used :: "Limiter \<Rightarrow> string \<Rightarrow> time \<Rightarrow> int" where
  "used l s w = (if WindowStart (window_of l s) = w then sint (Count (window_of l s)) else 0)"

lemma Allow_step:
  assumes "0 < sint (lim_limit l)" "0 \<le> used l s (Truncate t minute)"
    "Allow l t s = (ok, l')"
  shows "lim_limit l' = lim_limit l" "ok \<longleftrightarrow> used l s (Truncate t minute) < sint (lim_limit l)"
    "used l' s w = (if w = Truncate t minute then used l s w + (if ok then 1 else 0) else 0)"
    "s' \<noteq> s \<Longrightarrow> used l' s' w = used l s' w"
proof -
  let ?w = "Truncate t minute" and ?old = "window_of l s"
  let ?st = "if WindowStart ?old \<noteq> ?w then \<lparr>WindowStart = ?w, Count = 0\<rparr> else ?old"
  have u: "sint (Count ?st) = used l s ?w" by (simp add: used_def)
  have st: "WindowStart ?st = ?w" by simp
  have big: "sint (lim_limit l) < 2 ^ 63" using sint_lt [of "lim_limit l"] by simp
  have inc: "sint (Count ?st + 1) = sint (Count ?st) + 1" if "sint (Count ?st) < sint (lim_limit l)"
    using that big u assms(2) by (intro sint_succ) auto
  have eq: "(ok, l') = (if sint (lim_limit l) \<le> used l s ?w
      then (False, l\<lparr>lim_windows := (lim_windows l)(s \<mapsto> ?st)\<rparr>)
      else (True, l\<lparr>lim_windows := (lim_windows l)(s \<mapsto> ?st\<lparr>Count := Count ?st + 1\<rparr>)\<rparr>))"
    using assms(1,3) u by (simp add: Allow_def Let_def)
  then show "lim_limit l' = lim_limit l" "ok \<longleftrightarrow> used l s ?w < sint (lim_limit l)"
    by (auto split: if_splits)
  show "used l' s w = (if w = ?w then used l s w + (if ok then 1 else 0) else 0)"
    using eq inc u st by (auto simp: used_def window_of_def split: if_splits)
  show "used l' s' w = used l s' w" if "s' \<noteq> s"
    using eq that by (auto simp: used_def window_of_def split: if_splits)
qed

section \<open>What the limiter promises\<close>

text \<open>
  The requests of a sender that count against a request of the window \<open>w\<close>: its latest ones,
  back to the last one in another window. While the clock does not go back these are all its
  requests in that window; when it does, the window starts anew.
\<close>

definition recent :: "string \<Rightarrow> time \<Rightarrow> (string \<times> time) list \<Rightarrow> nat" where
  "recent s w calls =
     length (takeWhile (\<lambda>t. Truncate t minute = w) (map snd (filter (\<lambda>c. fst c = s) (rev calls))))"

lemma recent_simps [simp]:
  "recent s w [] = 0"
  "recent s w (calls @ [(s', t)]) =
     (if s' \<noteq> s then recent s w calls else if Truncate t minute = w then Suc (recent s w calls) else 0)"
  by (simp_all add: recent_def)

lemma recent_all:
  assumes "sorted (map snd calls)" "\<forall>(s', t)\<in>set calls. Truncate t minute \<le> w"
  shows "recent s w calls = length (filter (\<lambda>(s', t). s' = s \<and> Truncate t minute = w) calls)"
  using assms
proof (induction calls rule: rev_induct)
  case (snoc c calls)
  obtain s' t where c: "c = (s', t)" by fastforce
  have IH: "recent s w calls = length (filter (\<lambda>(s', t). s' = s \<and> Truncate t minute = w) calls)"
    using snoc by (auto simp: sorted_append)
  have "filter (\<lambda>(s', t). s' = s \<and> Truncate t minute = w) calls = []" if "Truncate t minute \<noteq> w"
  proof -
    have "Truncate t' minute < w" if "(s'', t') \<in> set calls" for s'' t'
    proof -
      have "t' \<le> t" using snoc.prems(1) that c by (auto simp: sorted_append)
      moreover have "Truncate t minute < w" using snoc.prems(2) c \<open>Truncate t minute \<noteq> w\<close> by auto
      ultimately show ?thesis using Truncate_mono le_less_trans by blast
    qed
    then show ?thesis by (auto simp: filter_empty_conv)
  qed
  then show ?case using IH by (auto simp: c)
qed simp

text \<open>The state of a sender counts these requests, as far as they were allowed.\<close>

lemma Allow_all_spec:
  assumes limit: "0 < sint limit" and run: "Allow_all (New_Limiter limit) calls = (oks, l)"
  shows "lim_limit l = limit \<and> (\<forall>s w. used l s w = min (sint limit) (int (recent s w calls))) \<and>
    (\<forall>i<length calls. oks ! i \<longleftrightarrow>
       int (recent (fst (calls ! i)) (Truncate (snd (calls ! i)) minute) (take i calls)) < sint limit)"
  using run
proof (induction calls arbitrary: oks l rule: rev_induct)
  case Nil
  then show ?case using limit by (auto simp: New_Limiter_def used_def window_of_def)
next
  case (snoc c calls)
  obtain s t where c: "c = (s, t)" by fastforce
  obtain oks0 l0 where run0: "Allow_all (New_Limiter limit) calls = (oks0, l0)" by fastforce
  obtain ok l1 where step: "Allow l0 t s = (ok, l1)" by fastforce
  have res: "oks = oks0 @ [ok]" "l = l1" using snoc.prems c run0 step by (simp_all add: Allow_all_snoc)
  have l0: "lim_limit l0 = limit" and u: "used l0 s' w = min (sint limit) (int (recent s' w calls))" for s' w
    using snoc.IH [OF run0] by auto
  have len: "length oks0 = length calls" using Allow_all_length [of "New_Limiter limit" calls] run0 by simp
  have nonneg: "0 \<le> used l0 s (Truncate t minute)" using u limit by simp
  note st = Allow_step [OF _ nonneg step, unfolded l0, OF limit]
  have "used l s' w = min (sint limit) (int (recent s' w (calls @ [c])))" for s' w
    using st(2,3) st(4) [of s'] u limit by (cases "s' = s") (auto simp: res c)
  moreover have "oks ! i \<longleftrightarrow> int (recent (fst ((calls @ [c]) ! i)) (Truncate (snd ((calls @ [c]) ! i)) minute)
      (take i (calls @ [c]))) < sint limit" if "i < length (calls @ [c])" for i
  proof (cases "i < length calls")
    case True
    then show ?thesis using snoc.IH [OF run0] len by (auto simp: res nth_append)
  next
    case False
    then have "i = length calls" using that by simp
    then show ?thesis using len st(2) u by (auto simp: res c nth_append)
  qed
  ultimately show ?case using st(1) res by simp
qed

section \<open>The clock of a limiter\<close>

text \<open>
  A limiter reads the time from a function that a caller may replace: the readings of its
  successive calls. Without a limit it is not called, and nil replaces nothing.
\<close>

record clocked_limiter =
  cl_limiter :: Limiter
  cl_nowFunc :: "nat \<Rightarrow> time"
  cl_calls :: nat

definition New_clocked :: "(nat \<Rightarrow> time) \<Rightarrow> int64 \<Rightarrow> clocked_limiter" where
  "New_clocked timeNow limit = \<lparr>cl_limiter = New_Limiter limit, cl_nowFunc = timeNow, cl_calls = 0\<rparr>"

definition SetNowFunc :: "(nat \<Rightarrow> time) option \<Rightarrow> clocked_limiter \<Rightarrow> clocked_limiter" where
  "SetNowFunc nowFunc l =
     (case nowFunc of None \<Rightarrow> l | Some f \<Rightarrow> l\<lparr>cl_nowFunc := f, cl_calls := 0\<rparr>)"

definition Allow_clocked :: "clocked_limiter \<Rightarrow> string \<Rightarrow> bool \<times> clocked_limiter" where
  "Allow_clocked l senderID =
     (if sint (lim_limit (cl_limiter l)) \<le> 0 then (True, l)
      else (case Allow (cl_limiter l) (cl_nowFunc l (cl_calls l)) senderID of
              (ok, l') \<Rightarrow> (ok, l\<lparr>cl_limiter := l', cl_calls := Suc (cl_calls l)\<rparr>)))"

fun Allow_clocked_all :: "clocked_limiter \<Rightarrow> string list \<Rightarrow> bool list \<times> clocked_limiter" where
  "Allow_clocked_all l [] = ([], l)"
| "Allow_clocked_all l (s # ss) =
     (case Allow_clocked l s of (ok, l') \<Rightarrow>
        (case Allow_clocked_all l' ss of (oks, l'') \<Rightarrow> (ok # oks, l'')))"

lemma Allow_limit: "Allow l t s = (ok, l') \<Longrightarrow> lim_limit l' = lim_limit l"
  by (auto simp: Allow_def Let_def split: if_splits)

text \<open>With a limit, the calls are those of the limiter at the readings of the clock, in order.\<close>

lemma Allow_clocked_all_eq:
  assumes "0 < sint (lim_limit (cl_limiter l))" "Allow_clocked_all l ss = (oks, l')"
  shows "Allow_all (cl_limiter l) (zip ss (map (\<lambda>i. cl_nowFunc l (cl_calls l + i)) [0..<length ss])) = (oks, cl_limiter l')"
  using assms
proof (induction ss arbitrary: l oks)
  case (Cons s ss)
  obtain ok k where k: "Allow (cl_limiter l) (cl_nowFunc l (cl_calls l)) s = (ok, k)" by fastforce
  let ?l1 = "l\<lparr>cl_limiter := k, cl_calls := Suc (cl_calls l)\<rparr>"
  obtain oks1 where rest: "Allow_clocked_all ?l1 ss = (oks1, l')" "oks = ok # oks1"
    using Cons.prems k by (auto simp: Allow_clocked_def split: prod.splits)
  have "map (\<lambda>i. cl_nowFunc l (cl_calls l + i)) [0..<length (s # ss)]
      = cl_nowFunc l (cl_calls l) # map (\<lambda>i. cl_nowFunc ?l1 (cl_calls ?l1 + i)) [0..<length ss]"
    by (simp add: upt_conv_Cons map_Suc_upt [symmetric] del: upt_Suc)
  then show ?case
    using Cons.IH [OF _ rest(1)] Cons.prems(1) Allow_limit [OF k] k rest(2) by simp
qed simp

text \<open>The limiter at its own clock, for any limit.\<close>

lemma Allow_clocked_all_length: "length (fst (Allow_clocked_all l ss)) = length ss"
  by (induction ss arbitrary: l) (auto split: prod.splits, metis fst_conv)

lemma Allow_clocked_spec:
  assumes run: "Allow_clocked_all (New_clocked clock limit) senders = (oks, l)" and i: "i < length senders"
  shows "oks ! i \<longleftrightarrow> sint limit \<le> 0 \<or>
    int (recent (senders ! i) (Truncate (clock i) minute) (zip (take i senders) (map clock [0..<i]))) < sint limit"
proof (cases "0 < sint limit")
  case True
  let ?calls = "zip senders (map clock [0..<length senders])"
  have "Allow_all (New_Limiter limit) ?calls = (oks, cl_limiter l)"
    using Allow_clocked_all_eq [OF _ run] True by (simp add: New_clocked_def New_Limiter_def)
  from Allow_all_spec [OF True this] i True show ?thesis by (simp add: take_zip take_map)
next
  case False
  then have off: "Allow_clocked_all k ss = (replicate (length ss) True, k)" if "lim_limit (cl_limiter k) = limit" for k ss
    using that by (induction ss) (simp_all add: Allow_clocked_def)
  then show ?thesis using run i False by (auto simp: New_clocked_def New_Limiter_def)
qed

lemma recent_monotone:
  assumes mono: "\<forall>j k. j \<le> k \<longrightarrow> clock j \<le> clock k" and i: "i \<le> length senders"
  shows "recent s (Truncate (clock i) minute) (zip (take i senders) (map clock [0..<i])) =
    card {j. j < i \<and> senders ! j = s \<and> Truncate (clock j) minute = Truncate (clock i) minute}"
proof -
  let ?calls = "zip (take i senders) (map clock [0..<i])" and ?w = "Truncate (clock i) minute"
  have len: "length ?calls = i" using i by simp
  have "sorted (map snd ?calls)" using mono i by (simp add: sorted_iff_nth_mono)
  moreover have "\<forall>(s', t)\<in>set ?calls. Truncate t minute \<le> ?w"
    using mono i by (auto simp: in_set_zip intro!: Truncate_mono)
  ultimately have "recent s ?w ?calls = length (filter (\<lambda>(s', t). s' = s \<and> Truncate t minute = ?w) ?calls)"
    by (rule recent_all)
  also have "\<dots> = card {j. j < length ?calls \<and> (\<lambda>(s', t). s' = s \<and> Truncate t minute = ?w) (?calls ! j)}"
    by (rule length_filter_conv_card)
  also have "{j. j < length ?calls \<and> (\<lambda>(s', t). s' = s \<and> Truncate t minute = ?w) (?calls ! j)} =
      {j. j < i \<and> senders ! j = s \<and> Truncate (clock j) minute = ?w}"
    using i by (auto simp: len)
  finally show ?thesis .
qed

end
