(* ===== verification/Auth.thy ===== *)
theory Auth
  imports Protocol
begin

text \<open>
  Package \<open>internal/auth\<close>: the canonical bytes that a signature covers
  (\<open>canonical.go\<close>) and the verification of signatures (\<open>verify.go\<close>). Peer identities
  and keys come from the library \<open>go-libp2p\<close> and are a parameter: a record of the three
  operations that are called.
\<close>

section \<open>Canonical bytes\<close>

definition canonical_envelope :: "OfflineMessageEnvelope \<Rightarrow> int64 \<Rightarrow> json" where
  "canonical_envelope msg defaultTTL =
     JArr [jint (env_Version msg), JStr (MsgID msg), JStr (SenderID msg), JStr (RecipientID msg),
           JStr (ConversationID msg), jint (CreatedAt msg), jint (EffectiveTTL (Some msg) defaultTTL),
           JStr (cp_Algorithm (Cipher msg)), JStr (cp_RecipientKeyID (Cipher msg)),
           JStr (cp_Nonce (Cipher msg)), JStr (cp_Ciphertext (Cipher msg))]"

definition CanonicalMessageEnvelope :: "OfflineMessageEnvelope \<Rightarrow> int64 \<Rightarrow> bytes" where
  "CanonicalMessageEnvelope msg defaultTTL = json_print (canonical_envelope msg defaultTTL)"

definition canonical_ack :: "AckRequest \<Rightarrow> json" where
  "canonical_ack req =
     JArr [jint (areq_Version req), JStr (areq_RecipientID req), JStr (areq_DeviceID req),
           juint (areq_AckSeq req), jint (areq_AckedAt req)]"

definition CanonicalAck :: "AckRequest \<Rightarrow> bytes" where
  "CanonicalAck req = json_print (canonical_ack req)"

section \<open>Base64\<close>

text \<open>
  \<open>base64.StdEncoding.DecodeString\<close>: the standard alphabet with padding; line breaks are
  skipped, and the unused low bits of the last symbol are not checked.
\<close>

definition b64_symbol :: "char \<Rightarrow> nat option" where
  "b64_symbol c =
     (let n = of_char c :: nat
      in if 65 \<le> n \<and> n \<le> 90 then Some (n - 65)
         else if 97 \<le> n \<and> n \<le> 122 then Some (n - 71)
         else if 48 \<le> n \<and> n \<le> 57 then Some (n + 4)
         else if c = CHR ''+'' then Some 62
         else if c = CHR ''/'' then Some 63
         else None)"

fun b64_quanta :: "string \<Rightarrow> bytes option" where
  "b64_quanta [] = Some []"
| "b64_quanta (a # b # c # d # rest) =
     (case (b64_symbol a, b64_symbol b) of
        (Some x, Some y) \<Rightarrow>
          if rest = [] \<and> c = CHR ''='' \<and> d = CHR ''=''
          then Some [char_of (x * 4 + y div 16)]
          else (case b64_symbol c of
                  None \<Rightarrow> None
                | Some z \<Rightarrow>
                    if rest = [] \<and> d = CHR ''=''
                    then Some [char_of (x * 4 + y div 16), char_of ((y mod 16) * 16 + z div 4)]
                    else (case (b64_symbol d, b64_quanta rest) of
                            (Some w, Some out) \<Rightarrow>
                              Some (char_of (x * 4 + y div 16) # char_of ((y mod 16) * 16 + z div 4)
                                    # char_of ((z mod 4) * 64 + w) # out)
                          | _ \<Rightarrow> None))
      | _ \<Rightarrow> None)"
| "b64_quanta _ = None"

definition base64_DecodeString :: "string \<Rightarrow> bytes option" where
  "base64_DecodeString s = b64_quanta (filter (\<lambda>c. c \<noteq> CHR 0x0A \<and> c \<noteq> CHR 0x0D) s)"

section \<open>Verification\<close>

record ('pid, 'key) libp2p =
  peer_Decode :: "string \<Rightarrow> 'pid res"
  ExtractPublicKey :: "'pid \<Rightarrow> 'key res"
  key_Verify :: "'key \<Rightarrow> bytes \<Rightarrow> bytes \<Rightarrow> bool res"

text \<open>The Go interface \<open>Verifier\<close>; a nil pointer is None, a nil error is None.\<close>

record verifier =
  VerifyMessageEnvelope :: "OfflineMessageEnvelope option \<Rightarrow> goerr option"
  VerifyAck :: "AckRequest option \<Rightarrow> goerr option"

text \<open>The steps that both methods of \<open>PeerVerifier\<close> share, with their error texts.\<close>

definition verify_signed ::
  "('pid, 'key) libp2p \<Rightarrow> string \<Rightarrow> string \<Rightarrow> string \<Rightarrow> string \<Rightarrow> Signature \<Rightarrow> string \<Rightarrow> bytes \<Rightarrow> goerr option" where
  "verify_signed L code badID noKey failed sig signer payload =
     (if sig_Algorithm sig \<noteq> ''ed25519'' then Some (AppError code ''unsupported signature algorithm'')
      else case peer_Decode L signer of
             Inl _ \<Rightarrow> Some (AppError code badID)
           | Inr pid \<Rightarrow>
               (case ExtractPublicKey L pid of
                  Inl _ \<Rightarrow> Some (AppError code noKey)
                | Inr pubKey \<Rightarrow>
                    (case base64_DecodeString (sig_Value sig) of
                       None \<Rightarrow> Some (AppError code ''invalid signature encoding'')
                     | Some s \<Rightarrow>
                         (case key_Verify L pubKey payload s of
                            Inl _ \<Rightarrow> Some (AppError code failed)
                          | Inr ok \<Rightarrow> if ok then None else Some (AppError code failed)))))"

definition Peer_VerifyMessageEnvelope ::
  "('pid, 'key) libp2p \<Rightarrow> int64 \<Rightarrow> OfflineMessageEnvelope option \<Rightarrow> goerr option" where
  "Peer_VerifyMessageEnvelope L defaultTTLSec msg =
     (case msg of
        None \<Rightarrow> Some (AppError CodeInvalidPayload ''message is required'')
      | Some m \<Rightarrow>
          verify_signed L CodeInvalidSignature ''invalid sender_id'' ''sender public key not available''
            ''message signature verification failed'' (env_Signature m) (SenderID m)
            (CanonicalMessageEnvelope m defaultTTLSec))"

definition Peer_VerifyAck :: "('pid, 'key) libp2p \<Rightarrow> AckRequest option \<Rightarrow> goerr option" where
  "Peer_VerifyAck L req =
     (case req of
        None \<Rightarrow> Some (AppError CodeInvalidPayload ''ack is required'')
      | Some r \<Rightarrow>
          verify_signed L CodeInvalidAckSignature ''invalid recipient_id'' ''recipient public key not available''
            ''ack signature verification failed'' (areq_Signature r) (areq_RecipientID r)
            (CanonicalAck r))"

definition NewVerifier :: "('pid, 'key) libp2p \<Rightarrow> int64 \<Rightarrow> verifier" where
  "NewVerifier L defaultTTLSec =
     \<lparr>VerifyMessageEnvelope = Peer_VerifyMessageEnvelope L defaultTTLSec, VerifyAck = Peer_VerifyAck L\<rparr>"

section \<open>What a signature covers\<close>

text \<open>The signature \<open>sig\<close> over \<open>payload\<close> is good for the identity \<open>signer\<close>.\<close>

definition signed_by :: "('pid, 'key) libp2p \<Rightarrow> string \<Rightarrow> bytes \<Rightarrow> Signature \<Rightarrow> bool" where
  "signed_by L signer payload sig \<longleftrightarrow>
     sig_Algorithm sig = ''ed25519'' \<and>
     (\<exists>pid key s. peer_Decode L signer = Inr pid \<and> ExtractPublicKey L pid = Inr key \<and>
        base64_DecodeString (sig_Value sig) = Some s \<and> key_Verify L key payload s = Inr True)"

lemma verify_signed_accepts:
  "verify_signed L code badID noKey failed sig signer payload = None \<longleftrightarrow> signed_by L signer payload sig"
  by (auto simp: verify_signed_def signed_by_def split: sum.splits option.splits)

lemma verify_signed_code:
  "verify_signed L code badID noKey failed sig signer payload = Some e \<Longrightarrow> \<exists>m. e = AppError code m"
  by (auto simp: verify_signed_def split: sum.splits option.splits if_splits)

lemma canonical_depth: "json_depth (canonical_envelope m t) = 1" "json_depth (canonical_ack r) = 1"
  by (simp_all add: canonical_envelope_def canonical_ack_def)

lemma wf_canonical_envelope: "wf_Envelope m \<Longrightarrow> wf_json (canonical_envelope m t)"
  by (simp add: canonical_envelope_def wf_Envelope_def wf_CipherPayload_def)

definition wf_AckRequest :: "AckRequest \<Rightarrow> bool" where
  "wf_AckRequest r \<longleftrightarrow> utf8_valid (areq_RecipientID r) \<and> utf8_valid (areq_DeviceID r)"

lemma wf_canonical_ack: "wf_AckRequest r \<Longrightarrow> wf_json (canonical_ack r)"
  by (simp add: canonical_ack_def wf_AckRequest_def)

lemma json_print_inj:
  assumes "json_print j = json_print j'" "wf_json j" "wf_json j'" "json_depth j \<le> max_nesting" "json_depth j' \<le> max_nesting"
  shows "j = j'"
proof -
  have "Some j = Some j'"
    unfolding json_parse_print [OF assms(2,4), symmetric] json_parse_print [OF assms(3,5), symmetric]
    by (rule arg_cong [OF assms(1)])
  then show ?thesis by (rule option.inject [THEN iffD1])
qed

lemma jint_inj [simp]: "jint a = jint b \<longleftrightarrow> a = b"
proof
  assume "jint a = jint b"
  then have "dec_int 0 (jint a) = dec_int 0 (jint b)" by (rule arg_cong)
  then show "a = b" by (simp only: dec_scalars option.inject)
qed (rule arg_cong)

lemma juint_inj [simp]: "juint a = juint b \<longleftrightarrow> a = b"
proof
  assume "juint a = juint b"
  then have "dec_uint 0 (juint a) = dec_uint 0 (juint b)" by (rule arg_cong)
  then show "a = b" by (simp only: dec_scalars option.inject)
qed (rule arg_cong)

lemma canonical_envelope_inj:
  assumes "wf_Envelope m" "wf_Envelope m'" "CanonicalMessageEnvelope m t = CanonicalMessageEnvelope m' t'"
  shows "canonical_envelope m t = canonical_envelope m' t'"
  using json_print_inj [OF assms(3) [unfolded CanonicalMessageEnvelope_def]] assms(1,2)
  by (simp add: wf_canonical_envelope canonical_depth max_nesting_def)

lemma canonical_ack_inj:
  assumes "wf_AckRequest r" "wf_AckRequest r'" "CanonicalAck r = CanonicalAck r'"
  shows "canonical_ack r = canonical_ack r'"
  using json_print_inj [OF assms(3) [unfolded CanonicalAck_def]] assms(1,2)
  by (simp add: wf_canonical_ack canonical_depth max_nesting_def)

lemma canonical_separate:
  assumes "wf_Envelope m" "wf_AckRequest r"
  shows "CanonicalMessageEnvelope m t \<noteq> CanonicalAck r"
proof
  assume "CanonicalMessageEnvelope m t = CanonicalAck r"
  then have "canonical_envelope m t = canonical_ack r"
    unfolding CanonicalMessageEnvelope_def CanonicalAck_def
    by (rule json_print_inj) (simp_all add: wf_canonical_envelope wf_canonical_ack assms canonical_depth max_nesting_def)
  then show False by (simp add: canonical_envelope_def canonical_ack_def)
qed

end
