(* ===== verification/Service.thy ===== *)
theory Service
  imports Storage Metrics Ratelimit Auth
begin

text \<open>
  Package \<open>internal/service\<close>: request validation and the three handlers. A handler works
  on the state the services share (store, rate limiters, counters); storage and verifier are
  the records that stand for their Go interfaces. Logging is left out.
\<close>

section \<open>Validation\<close>

definition invalid :: "string \<Rightarrow> goerr option" where
  "invalid m = Some (AppError CodeInvalidPayload m)"

definition validateStoreRequest :: "StoreRequest option \<Rightarrow> goerr option" where
  "validateStoreRequest req =
     (case req of
        None \<Rightarrow> invalid ''message is required''
      | Some rq \<Rightarrow>
          (case sreq_Message rq of
             None \<Rightarrow> invalid ''message is required''
           | Some msg \<Rightarrow>
               if sreq_Version rq \<noteq> 1 then invalid ''store request version must be 1''
               else if env_Version msg \<noteq> 1 then invalid ''message version must be 1''
               else if MsgID msg = [] then invalid ''msg_id is required''
               else if SenderID msg = [] then invalid ''sender_id is required''
               else if RecipientID msg = [] then invalid ''recipient_id is required''
               else if ConversationID msg = [] then invalid ''conversation_id is required''
               else if sint (CreatedAt msg) \<le> 0 then invalid ''created_at is required''
               else if cp_Algorithm (Cipher msg) = [] then invalid ''cipher.algorithm is required''
               else if cp_RecipientKeyID (Cipher msg) = [] then invalid ''cipher.recipient_key_id is required''
               else if cp_Nonce (Cipher msg) = [] then invalid ''cipher.nonce is required''
               else if cp_Ciphertext (Cipher msg) = [] then invalid ''cipher.ciphertext is required''
               else if sig_Algorithm (env_Signature msg) = [] then invalid ''signature.algorithm is required''
               else if sig_Value (env_Signature msg) = [] then invalid ''signature.value is required''
               else None))"

definition validateFetchRequest :: "FetchRequest option \<Rightarrow> int64 \<Rightarrow> goerr option" where
  "validateFetchRequest req fetchLimitMax =
     (case req of
        None \<Rightarrow> invalid ''fetch request is required''
      | Some rq \<Rightarrow>
          if freq_Version rq \<noteq> 1 then invalid ''fetch request version must be 1''
          else if freq_RecipientID rq = [] then invalid ''recipient_id is required''
          else if sint (freq_Limit rq) \<le> 0 then invalid ''limit must be positive''
          else if sint fetchLimitMax < sint (freq_Limit rq) then invalid ''limit exceeds fetch_limit_max''
          else None)"

definition validateAckRequest :: "AckRequest option \<Rightarrow> goerr option" where
  "validateAckRequest req =
     (case req of
        None \<Rightarrow> invalid ''ack request is required''
      | Some rq \<Rightarrow>
          if areq_Version rq \<noteq> 1 then invalid ''ack request version must be 1''
          else if areq_RecipientID rq = [] then invalid ''recipient_id is required''
          else if areq_DeviceID rq = [] then invalid ''device_id is required''
          else if areq_DeviceID rq \<noteq> areq_RecipientID rq then invalid ''v1 device_id must equal recipient_id''
          else if sint (areq_AckedAt rq) \<le> 0 then invalid ''acked_at is required''
          else if sig_Algorithm (areq_Signature rq) = [] then invalid ''signature.algorithm is required''
          else if sig_Value (areq_Signature rq) = [] then invalid ''signature.value is required''
          else None)"

definition messageSize :: "OfflineMessageEnvelope \<Rightarrow> int" where
  "messageSize msg = int (length (marshal_Envelope msg))"

section \<open>State, configuration and environment\<close>

record 'st node =
  n_store :: 'st
  n_remoteLimiter :: Limiter
  n_senderLimiter :: Limiter
  n_metrics :: Metrics

record StoreService =
  ss_defaultTTLSec :: int64
  ss_maxTTLSec :: int64
  ss_maxMessageSize :: int64
  ss_maxMessagesPerRecipient :: int64
  ss_maxBytesPerRecipient :: int64

text \<open>What one call reads from outside: its context and the clocks.\<close>

record call_env =
  c_ctx :: "goerr option"
  c_poll :: "nat \<Rightarrow> goerr option"
  c_now :: int64
  c_remoteTime :: time
  c_senderTime :: time

definition count :: "(Metrics \<Rightarrow> Metrics) \<Rightarrow> 'st node \<Rightarrow> 'st node" where
  "count f n = n\<lparr>n_metrics := f (n_metrics n)\<rparr>"

abbreviation addStoreRequests :: "Metrics \<Rightarrow> Metrics" where
  "addStoreRequests m \<equiv> m\<lparr>StoreRequestsTotal := StoreRequestsTotal m + 1\<rparr>"
abbreviation addStoreSuccess :: "Metrics \<Rightarrow> Metrics" where
  "addStoreSuccess m \<equiv> m\<lparr>StoreSuccessTotal := StoreSuccessTotal m + 1\<rparr>"
abbreviation addStoreDuplicate :: "Metrics \<Rightarrow> Metrics" where
  "addStoreDuplicate m \<equiv> m\<lparr>StoreDuplicateTotal := StoreDuplicateTotal m + 1\<rparr>"
abbreviation addFetchRequests :: "Metrics \<Rightarrow> Metrics" where
  "addFetchRequests m \<equiv> m\<lparr>FetchRequestsTotal := FetchRequestsTotal m + 1\<rparr>"
abbreviation addFetched :: "nat \<Rightarrow> Metrics \<Rightarrow> Metrics" where
  "addFetched k m \<equiv> m\<lparr>FetchMessagesReturnedTotal := FetchMessagesReturnedTotal m + of_nat k\<rparr>"
abbreviation addAckRequests :: "Metrics \<Rightarrow> Metrics" where
  "addAckRequests m \<equiv> m\<lparr>AckRequestsTotal := AckRequestsTotal m + 1\<rparr>"
abbreviation addAckDeleted :: "nat \<Rightarrow> Metrics \<Rightarrow> Metrics" where
  "addAckDeleted k m \<equiv> m\<lparr>AckDeletedTotal := AckDeletedTotal m + of_nat k\<rparr>"
abbreviation addInvalidSignature :: "Metrics \<Rightarrow> Metrics" where
  "addInvalidSignature m \<equiv> m\<lparr>InvalidSignatureTotal := InvalidSignatureTotal m + 1\<rparr>"
abbreviation addRateLimited :: "Metrics \<Rightarrow> Metrics" where
  "addRateLimited m \<equiv> m\<lparr>RateLimitedTotal := RateLimitedTotal m + 1\<rparr>"

section \<open>Storing\<close>

definition store_error :: "(goerr \<Rightarrow> string) \<Rightarrow> goerr \<Rightarrow> StoreResponse" where
  "store_error txt err =
     \<lparr>sresp_OK = False, sresp_Duplicate = False, sresp_StoreSeq = 0, sresp_ExpireAt = 0,
      sresp_ErrorCode = ErrorCode (Some err), sresp_ErrorMessage = ErrorMessage txt (Some err)\<rparr>"

definition store_reply :: "bool \<Rightarrow> uint64 \<Rightarrow> int64 \<Rightarrow> StoreResponse" where
  "store_reply duplicate storeSeq expireAt =
     \<lparr>sresp_OK = True, sresp_Duplicate = duplicate, sresp_StoreSeq = storeSeq, sresp_ExpireAt = expireAt,
      sresp_ErrorCode = [], sresp_ErrorMessage = []\<rparr>"

text \<open>The message as the handler goes on with it: a copy with the default TTL filled in.\<close>

definition with_ttl :: "StoreService \<Rightarrow> OfflineMessageEnvelope \<Rightarrow> OfflineMessageEnvelope" where
  "with_ttl cfg msg = (case TTLSec msg of None \<Rightarrow> msg\<lparr>TTLSec := Some (ss_defaultTTLSec cfg)\<rparr> | Some _ \<Rightarrow> msg)"

text \<open>The last step: the call of the storage and the answer made from its result.\<close>

definition store_persist ::
  "'st storage \<Rightarrow> (goerr \<Rightarrow> string) \<Rightarrow> StoreService \<Rightarrow> call_env \<Rightarrow> OfflineMessageEnvelope \<Rightarrow> 'st node \<Rightarrow>
   (StoreResponse \<times> 'st node) option" where
  "store_persist S txt cfg c msg n =
     (case i_StoreMessageWithQuota S (c_ctx c) (c_now c) (n_store n)
             (Some \<lparr>StoreSeq = 0, ReceivedAt = 0, ExpireAt = 0, sm_Message = Some msg\<rparr>)
             (ss_maxMessagesPerRecipient cfg) (ss_maxBytesPerRecipient cfg) of
        None \<Rightarrow> None
      | Some (Inl err, st) \<Rightarrow>
          (let n' = n\<lparr>n_store := st\<rparr>; code = ErrorCode (Some err)
           in if code = CodeRecipientQuotaExceeded then Some (store_error txt err, n')
              else if code = CodeRecipientBytesExceeded then Some (store_error txt err, n')
              else Some (store_error txt (AppError CodeInternalError (Error txt err)), n'))
      | Some (Inr (storeSeq, expireAt, duplicate), st) \<Rightarrow>
          (let n' = n\<lparr>n_store := st\<rparr>
           in if duplicate then Some (store_reply True storeSeq expireAt, count addStoreDuplicate n')
              else Some (store_reply False storeSeq expireAt, count addStoreSuccess n')))"

definition Store_Handle ::
  "'st storage \<Rightarrow> verifier \<Rightarrow> (goerr \<Rightarrow> string) \<Rightarrow> StoreService \<Rightarrow> call_env \<Rightarrow> string \<Rightarrow> StoreRequest option \<Rightarrow>
   'st node \<Rightarrow> (StoreResponse \<times> 'st node) option" where
  "Store_Handle S V txt cfg c remotePeerID req n0 =
     (let n1 = count addStoreRequests n0
      in case validateStoreRequest req of
           Some err \<Rightarrow> Some (store_error txt err, n1)
         | None \<Rightarrow>
             (let msg = with_ttl cfg (the (Clone (sreq_Message (the req))));
                  ttl = EffectiveTTL (Some msg) (ss_defaultTTLSec cfg)
              in if sint ttl \<le> 0
                 then Some (store_error txt (AppError CodeInvalidPayload ''ttl_sec must be positive''), n1)
                 else if sint (ss_maxTTLSec cfg) < sint ttl
                 then Some (store_error txt (AppError CodeTTLTooLarge ''ttl_sec exceeds max_ttl_sec''), n1)
                 else
                   (case Allow (n_remoteLimiter n1) (c_remoteTime c) remotePeerID of
                      (False, rl) \<Rightarrow>
                        Some (store_error txt (AppError CodeRateLimited ''remote peer rate limit exceeded''),
                              count addRateLimited (n1\<lparr>n_remoteLimiter := rl\<rparr>))
                    | (True, rl) \<Rightarrow>
                        (let n2 = n1\<lparr>n_remoteLimiter := rl\<rparr>
                         in case VerifyMessageEnvelope V (Some msg) of
                              Some err \<Rightarrow> Some (store_error txt err, count addInvalidSignature n2)
                            | None \<Rightarrow>
                                (case Allow (n_senderLimiter n2) (c_senderTime c) (SenderID msg) of
                                   (False, sl) \<Rightarrow>
                                     Some (store_error txt (AppError CodeRateLimited ''sender rate limit exceeded''),
                                           count addRateLimited (n2\<lparr>n_senderLimiter := sl\<rparr>))
                                 | (True, sl) \<Rightarrow>
                                     (let n3 = n2\<lparr>n_senderLimiter := sl\<rparr>
                                      in if sint (ss_maxMessageSize cfg) < messageSize msg
                                         then Some (store_error txt
                                                (AppError CodeMessageTooLarge ''message exceeds max_message_size''), n3)
                                         else store_persist S txt cfg c msg n3))))))"

section \<open>Fetching\<close>

definition fetch_error :: "(goerr \<Rightarrow> string) \<Rightarrow> goerr \<Rightarrow> FetchResponse" where
  "fetch_error txt err =
     \<lparr>fresp_OK = False, fresp_Items = [], fresp_HasMore = False,
      fresp_ErrorCode = ErrorCode (Some err), fresp_ErrorMessage = ErrorMessage txt (Some err)\<rparr>"

definition Fetch_Handle ::
  "'st storage \<Rightarrow> (goerr \<Rightarrow> string) \<Rightarrow> int64 \<Rightarrow> call_env \<Rightarrow> string \<Rightarrow> FetchRequest option \<Rightarrow> 'st node \<Rightarrow>
   FetchResponse \<times> 'st node" where
  "Fetch_Handle S txt fetchLimitMax c remotePeerID req n0 =
     (let n1 = count addFetchRequests n0
      in case validateFetchRequest req fetchLimitMax of
           Some err \<Rightarrow> (fetch_error txt err, n1)
         | None \<Rightarrow>
             (let rq = the req
              in if remotePeerID \<noteq> freq_RecipientID rq
                 then (fetch_error txt (AppError CodeUnauthorized ''remote peer is not recipient''), n1)
                 else
                   (case i_FetchMessages S (c_ctx c) (c_now c) (n_store n1) (freq_RecipientID rq)
                           (freq_AfterSeq rq) (freq_Limit rq) of
                      Inl err \<Rightarrow> (fetch_error txt (AppError CodeInternalError (Error txt err)), n1)
                    | Inr (items, hasMore) \<Rightarrow>
                        (\<lparr>fresp_OK = True, fresp_Items = items, fresp_HasMore = hasMore,
                          fresp_ErrorCode = [], fresp_ErrorMessage = []\<rparr>,
                         count (addFetched (length items)) n1))))"

definition Fetch_MarkDelivered ::
  "'st storage \<Rightarrow> call_env \<Rightarrow> string \<Rightarrow> StoredMessage list \<Rightarrow> 'st node \<Rightarrow> goerr option \<times> 'st node" where
  "Fetch_MarkDelivered S c recipientID items n =
     (case i_MarkDelivered S (c_ctx c) (c_now c) (n_store n) recipientID (map Some items) of
        (err, st) \<Rightarrow> (err, n\<lparr>n_store := st\<rparr>))"

section \<open>Acknowledging\<close>

definition ack_error :: "(goerr \<Rightarrow> string) \<Rightarrow> goerr \<Rightarrow> AckResponse" where
  "ack_error txt err =
     \<lparr>aresp_OK = False, aresp_DeletedUntilSeq = 0,
      aresp_ErrorCode = ErrorCode (Some err), aresp_ErrorMessage = ErrorMessage txt (Some err)\<rparr>"

definition Ack_Handle ::
  "'st storage \<Rightarrow> verifier \<Rightarrow> (goerr \<Rightarrow> string) \<Rightarrow> call_env \<Rightarrow> string \<Rightarrow> AckRequest option \<Rightarrow> 'st node \<Rightarrow>
   (AckResponse \<times> 'st node) option" where
  "Ack_Handle S V txt c remotePeerID req n0 =
     (let n1 = count addAckRequests n0
      in case validateAckRequest req of
           Some err \<Rightarrow> Some (ack_error txt err, n1)
         | None \<Rightarrow>
             (case VerifyAck V req of
                Some err \<Rightarrow> Some (ack_error txt err, count addInvalidSignature n1)
              | None \<Rightarrow>
                  (let rq = the req
                   in if remotePeerID \<noteq> areq_RecipientID rq
                      then Some (ack_error txt (AppError CodeUnauthorized ''remote peer is not recipient''), n1)
                      else
                        (case i_AckMessages S (c_poll c) (n_store n1) (areq_RecipientID rq) (areq_AckSeq rq) of
                           None \<Rightarrow> None
                         | Some (deletedUntil, deletedCount, Some err, st) \<Rightarrow>
                             Some (ack_error txt err, n1\<lparr>n_store := st\<rparr>)
                         | Some (deletedUntil, deletedCount, None, st) \<Rightarrow>
                             Some (\<lparr>aresp_OK = True, aresp_DeletedUntilSeq = deletedUntil,
                                    aresp_ErrorCode = [], aresp_ErrorMessage = []\<rparr>,
                                   (if 0 < deletedCount then count (addAckDeleted deletedCount) else id)
                                     (n1\<lparr>n_store := st\<rparr>))))))"

section \<open>Facts\<close>

lemma count_store [simp]: "n_store (count f n) = n_store n"
  by (simp add: count_def)

lemma with_ttl_simps [simp]:
  "MsgID (with_ttl cfg m) = MsgID m" "SenderID (with_ttl cfg m) = SenderID m"
  "RecipientID (with_ttl cfg m) = RecipientID m" "wf_Envelope (with_ttl cfg m) = wf_Envelope m"
  by (simp_all add: with_ttl_def wf_Envelope_def split: option.split)

lemma with_ttl_effective:
  "EffectiveTTL (Some (with_ttl cfg m)) d = EffectiveTTL (Some m) (ss_defaultTTLSec cfg)"
  by (simp add: with_ttl_def EffectiveTTL_def split: option.split)

lemma Clone_same [simp]: "Clone m = m"
  by (cases m) (auto simp: Clone_def split: option.split)

lemma invalid_not_None [simp]: "invalid m \<noteq> None"
  by (simp add: invalid_def)

lemma validateStoreRequest_None:
  assumes "validateStoreRequest req = None"
  obtains rq msg where "req = Some rq" "sreq_Message rq = Some msg" "MsgID msg \<noteq> []" "SenderID msg \<noteq> []"
    "RecipientID msg \<noteq> []" "env_Version msg = 1" "sreq_Version rq = 1" "0 < sint (CreatedAt msg)"
  using assms by (auto simp: validateStoreRequest_def split: option.splits if_splits)

text \<open>What a request has passed when the handler reaches the storage.\<close>

definition store_admitted :: "verifier \<Rightarrow> StoreService \<Rightarrow> OfflineMessageEnvelope \<Rightarrow> bool" where
  "store_admitted V cfg msg \<longleftrightarrow>
     MsgID msg \<noteq> [] \<and> RecipientID msg \<noteq> [] \<and>
     0 < sint (EffectiveTTL (Some msg) 0) \<and> sint (EffectiveTTL (Some msg) 0) \<le> sint (ss_maxTTLSec cfg) \<and>
     VerifyMessageEnvelope V (Some msg) = None \<and> messageSize msg \<le> sint (ss_maxMessageSize cfg)"

text \<open>
  Either the request is refused and the store is not touched, or the storage is called with
  the admitted message.
\<close>

lemma Store_Handle_cases:
  assumes "Store_Handle S V txt cfg c remote req n = Some (resp, n')"
  shows "(\<not> sresp_OK resp \<and> n_store n' = n_store n) \<or>
    (\<exists>rq msg m. req = Some rq \<and> sreq_Message rq = Some msg \<and> store_admitted V cfg (with_ttl cfg msg) \<and>
       n_store m = n_store n \<and> store_persist S txt cfg c (with_ttl cfg msg) m = Some (resp, n'))"
proof (cases "validateStoreRequest req")
  case (Some e)
  then show ?thesis using assms by (auto simp: Store_Handle_def store_error_def Let_def)
next
  case None
  then obtain rq msg where rq: "req = Some rq" "sreq_Message rq = Some msg" "MsgID msg \<noteq> []" "RecipientID msg \<noteq> []"
    by (auto elim: validateStoreRequest_None)
  have ttl: "EffectiveTTL (Some (with_ttl cfg msg)) d = EffectiveTTL (Some (with_ttl cfg msg)) 0" for d
    by (simp add: with_ttl_effective)
  show ?thesis
    using assms None rq
    by (auto simp: Store_Handle_def Let_def ttl [of "ss_defaultTTLSec cfg"] store_error_def store_admitted_def
        split: if_splits prod.splits bool.splits option.splits)
qed

lemma with_ttl_storable:
  "wf_Envelope msg \<Longrightarrow> plain (RecipientID msg) \<Longrightarrow> store_admitted V cfg (with_ttl cfg msg) \<Longrightarrow>
   storable (with_ttl cfg msg)"
  by (simp add: storable_def store_admitted_def)

lemma Fetch_Handle_OK:
  assumes "Fetch_Handle S txt mx c remote req n = (resp, n')" "fresp_OK resp"
  obtains rq where "req = Some rq" "remote = freq_RecipientID rq" "0 < sint (freq_Limit rq)"
    "sint (freq_Limit rq) \<le> sint mx"
    "i_FetchMessages S (c_ctx c) (c_now c) (n_store n) (freq_RecipientID rq) (freq_AfterSeq rq) (freq_Limit rq)
       = Inr (fresp_Items resp, fresp_HasMore resp)"
  using assms
  by (auto simp: Fetch_Handle_def validateFetchRequest_def fetch_error_def Let_def
      split: option.splits if_splits sum.splits)

lemma Fetch_Handle_store: "Fetch_Handle S txt mx c remote req n = (resp, n') \<Longrightarrow> n_store n' = n_store n"
  by (auto simp: Fetch_Handle_def Let_def split: option.splits if_splits sum.splits)

text \<open>An acknowledgement reaches the storage only signed and sent by the recipient.\<close>

lemma Ack_Handle_cases:
  assumes "Ack_Handle S V txt c remote req n = Some (resp, n')"
  shows "(\<not> aresp_OK resp \<and> n_store n' = n_store n) \<or>
    (\<exists>rq u k err. req = Some rq \<and> VerifyAck V req = None \<and> remote = areq_RecipientID rq \<and>
       i_AckMessages S (c_poll c) (n_store n) (areq_RecipientID rq) (areq_AckSeq rq) = Some (u, k, err, n_store n') \<and>
       (aresp_OK resp \<longleftrightarrow> err = None) \<and> (err = None \<longrightarrow> aresp_DeletedUntilSeq resp = u))"
proof (cases req)
  case None
  then show ?thesis
    using assms by (auto simp: Ack_Handle_def validateAckRequest_def invalid_def ack_error_def Let_def)
next
  case (Some rq)
  then show ?thesis
    using assms
    by (auto simp: Ack_Handle_def ack_error_def Let_def split: option.splits if_splits prod.splits)
qed

lemma canonical_with_ttl:
  "CanonicalMessageEnvelope (with_ttl cfg m) t = CanonicalMessageEnvelope m (ss_defaultTTLSec cfg)"
  by (auto simp: CanonicalMessageEnvelope_def canonical_envelope_def with_ttl_effective)
    (simp_all add: with_ttl_def split: option.split)

lemma with_ttl_signature [simp]: "env_Signature (with_ttl cfg m) = env_Signature m"
  by (simp add: with_ttl_def split: option.split)

lemma verified_signed:
  "VerifyMessageEnvelope (NewVerifier L t) (Some (with_ttl cfg m)) = None \<Longrightarrow>
   signed_by L (SenderID m) (CanonicalMessageEnvelope m (ss_defaultTTLSec cfg)) (env_Signature m)"
  by (simp add: NewVerifier_def Peer_VerifyMessageEnvelope_def verify_signed_accepts canonical_with_ttl)

section \<open>The handlers over a storage that meets its contract\<close>

context mailbox_storage
begin

lemma Store_Handle_spec:
  assumes m: "model (n_store n) M" and h: "Store_Handle S V txt cfg c remote req n = Some (resp, n')"
    and msg: "\<And>rq msg. req = Some rq \<Longrightarrow> sreq_Message rq = Some msg \<Longrightarrow>
      store_admitted V cfg (with_ttl cfg msg) \<Longrightarrow> wf_Envelope msg \<and> plain (RecipientID msg) \<and> mb_last (M (RecipientID msg)) \<noteq> - 1 \<and>
      0 \<le> sint (c_now c + EffectiveTTL (Some msg) (ss_defaultTTLSec cfg))"
  shows "if \<not> sresp_OK resp then model (n_store n') M
    else \<exists>rq msg. req = Some rq \<and> sreq_Message rq = Some msg \<and> store_admitted V cfg (with_ttl cfg msg) \<and>
      store_post model M (c_now c) \<lparr>StoreSeq = 0, ReceivedAt = 0, ExpireAt = 0, sm_Message = Some (with_ttl cfg msg)\<rparr>
        (with_ttl cfg msg) (Inr (sresp_StoreSeq resp, sresp_ExpireAt resp, sresp_Duplicate resp)) (n_store n')"
proof (cases "\<not> sresp_OK resp \<and> n_store n' = n_store n")
  case True
  then show ?thesis using m by simp
next
  case False
  then obtain rq msg k where rq: "req = Some rq" "sreq_Message rq = Some msg"
      and adm: "store_admitted V cfg (with_ttl cfg msg)" and k: "n_store k = n_store n"
      and per: "store_persist S txt cfg c (with_ttl cfg msg) k = Some (resp, n')"
    using Store_Handle_cases [OF h] by blast
  let ?sm = "\<lparr>StoreSeq = 0, ReceivedAt = 0, ExpireAt = 0, sm_Message = Some (with_ttl cfg msg)\<rparr>"
  obtain res st where st: "i_StoreMessageWithQuota S (c_ctx c) (c_now c) (n_store n) (Some ?sm)
      (ss_maxMessagesPerRecipient cfg) (ss_maxBytesPerRecipient cfg) = Some (res, st)"
    using per k by (auto simp: store_persist_def split: option.splits)
  have post: "store_post model M (c_now c) ?sm (with_ttl cfg msg) res st"
    using store_law [OF m _ with_ttl_storable [OF _ _ adm] _ _ st] msg [OF rq adm] by (simp add: with_ttl_effective)
  show ?thesis
  proof (cases res)
    case (Inl e)
    then have "\<not> sresp_OK resp" "n_store n' = st"
      using per k st by (auto simp: store_persist_def store_error_def Let_def split: if_splits)
    then show ?thesis using post Inl by (simp add: store_post_def)
  next
    case (Inr t)
    obtain s ex dup where t: "t = (s, ex, dup)" by (metis prod_cases3)
    then have "sresp_OK resp" "n_store n' = st"
        "(sresp_StoreSeq resp, sresp_ExpireAt resp, sresp_Duplicate resp) = (s, ex, dup)"
      using per k st Inr by (auto simp: store_persist_def store_reply_def Let_def split: if_splits)
    then show ?thesis using post Inr t rq adm by simp
  qed
qed

lemma Fetch_Handle_spec:
  assumes m: "model (n_store n) M" and h: "Fetch_Handle S txt mx c remote req n = (resp, n')"
    and ok: "fresp_OK resp" and r: "plain remote"
  shows "\<exists>rq. req = Some rq \<and> freq_RecipientID rq = remote \<and>
    (fresp_Items resp, fresp_HasMore resp) = mb_fetch (c_now c) (freq_AfterSeq rq) (freq_Limit rq) (M remote)"
  using Fetch_Handle_OK [OF h ok] fetch_law [OF m r] by metis

lemma Ack_Handle_spec:
  assumes m: "model (n_store n) M" and h: "Ack_Handle S V txt c remote req n = Some (resp, n')" and r: "plain remote"
  shows "model (n_store n') M \<and> (aresp_OK resp \<longrightarrow> aresp_DeletedUntilSeq resp = mb_acked (M remote)) \<or>
    (\<exists>rq w. req = Some rq \<and> areq_RecipientID rq = remote \<and> VerifyAck V req = None \<and>
       mb_acked (M remote) \<le> w \<and> w \<le> areq_AckSeq rq \<and> areq_AckSeq rq \<le> mb_delivered (M remote) \<and>
       model (n_store n') (M(remote := mb_ack_upto w (M remote))) \<and>
       (aresp_OK resp \<longrightarrow> aresp_DeletedUntilSeq resp = w \<and> acks (M remote) (areq_AckSeq rq) w))"
proof (cases "\<not> aresp_OK resp \<and> n_store n' = n_store n")
  case True
  then show ?thesis using m by simp
next
  case False
  then obtain rq u k err where rq: "req = Some rq" "VerifyAck V req = None" "remote = areq_RecipientID rq"
      and ack: "i_AckMessages S (c_poll c) (n_store n) (areq_RecipientID rq) (areq_AckSeq rq) = Some (u, k, err, n_store n')"
      and resp: "aresp_OK resp \<longleftrightarrow> err = None" "err = None \<longrightarrow> aresp_DeletedUntilSeq resp = u"
    using Ack_Handle_cases [OF h] by blast
  from ack_law [OF m r ack [folded rq(3)]] rq resp show ?thesis by auto
qed

end

end
