(* ===== verification/Codec.thy ===== *)
theory Codec
  imports Protocol
begin

text \<open>
  \<open>internal/p2p/codec.go\<close>: frames with a 32-bit big-endian length. A reader is the bytes
  it will still yield and the error it reports after them; a writer is what was written and
  the errors of the coming writes.
\<close>

section \<open>Readers and writers\<close>

record reader =
  rd_data :: bytes
  rd_end :: goerr

definition EOF :: goerr where "EOF = IOError ''EOF''"
definition ErrUnexpectedEOF :: goerr where "ErrUnexpectedEOF = IOError ''unexpected EOF''"

text \<open>\<open>io.ReadFull\<close> for a buffer of \<open>n\<close> bytes.\<close>

definition ReadFull :: "reader \<Rightarrow> nat \<Rightarrow> bytes res \<times> reader" where
  "ReadFull r n =
     (if n \<le> length (rd_data r) then (Inr (take n (rd_data r)), r\<lparr>rd_data := drop n (rd_data r)\<rparr>)
      else (Inl (if rd_data r \<noteq> [] \<and> rd_end r = EOF then ErrUnexpectedEOF else rd_end r), r\<lparr>rd_data := []\<rparr>))"

record writer =
  wr_out :: bytes
  wr_errs :: "goerr option list"

text \<open>A write that fails may have written a part; what it wrote is not used afterwards.\<close>

definition Write :: "writer \<Rightarrow> bytes \<Rightarrow> goerr option \<times> writer" where
  "Write w p =
     (case wr_errs w of
        Some e # errs \<Rightarrow> (Some e, w\<lparr>wr_errs := errs\<rparr>)
      | None # errs \<Rightarrow> (None, w\<lparr>wr_out := wr_out w @ p, wr_errs := errs\<rparr>)
      | [] \<Rightarrow> (None, w\<lparr>wr_out := wr_out w @ p\<rparr>))"

section \<open>Frames\<close>

definition byte :: "nat \<Rightarrow> char" where "byte n = char_of n"

definition PutUint32 :: "uint32 \<Rightarrow> bytes" where
  "PutUint32 w =
     [byte (unat w div 2 ^ 24), byte (unat w div 2 ^ 16 mod 256), byte (unat w div 2 ^ 8 mod 256), byte (unat w mod 256)]"

definition Uint32 :: "bytes \<Rightarrow> uint32" where
  "Uint32 h = of_nat (foldl (\<lambda>n c. n * 256 + of_char c) 0 h)"

definition frame_error :: "nat \<Rightarrow> goerr" where
  "frame_error n = FmtError (''frame too large: '' @ fmt_nat n)"

definition ReadFrame :: "reader \<Rightarrow> uint32 \<Rightarrow> bytes res \<times> reader" where
  "ReadFrame r maxSize =
     (case ReadFull r 4 of
        (Inl e, r') \<Rightarrow> (Inl e, r')
      | (Inr header, r') \<Rightarrow>
          (let sz = Uint32 header
           in if sz = 0 \<or> maxSize < sz then (Inl (frame_error (unat sz)), r')
              else ReadFull r' (unat sz)))"

definition WriteFrame :: "writer \<Rightarrow> bytes \<Rightarrow> uint32 \<Rightarrow> goerr option \<times> writer" where
  "WriteFrame w payload maxSize =
     (if length payload = 0 \<or> maxSize < of_nat (length payload)
      then (Some (frame_error (length payload)), w)
      else case Write w (PutUint32 (of_nat (length payload))) of
             (Some e, w') \<Rightarrow> (Some e, w')
           | (None, w') \<Rightarrow> Write w' payload)"

definition ReadJSON :: "'a \<Rightarrow> ('a \<Rightarrow> json \<Rightarrow> 'a option) \<Rightarrow> reader \<Rightarrow> uint32 \<Rightarrow> 'a res \<times> reader" where
  "ReadJSON zero d r maxSize =
     (case ReadFrame r maxSize of
        (Inl e, r') \<Rightarrow> (Inl e, r')
      | (Inr frame, r') \<Rightarrow> (unmarshal zero d frame, r'))"

definition WriteJSON :: "writer \<Rightarrow> json \<Rightarrow> uint32 \<Rightarrow> goerr option \<times> writer" where
  "WriteJSON w v maxSize = WriteFrame w (json_print v) maxSize"

section \<open>Facts\<close>

lemma of_char_byte [simp]: "(of_char (byte n) :: nat) = n mod 256"
  by (simp add: byte_def)

lemma length_PutUint32 [simp]: "length (PutUint32 w) = 4"
  by (simp add: PutUint32_def)

lemma unat_uint32: "unat (w :: uint32) < 2 ^ 32"
  using unsigned_less [of w] by simp

lemma Uint32_PutUint32 [simp]: "Uint32 (PutUint32 w) = w"
proof -
  let ?n = "unat w"
  have n: "?n < 2 ^ 32" by (rule unat_uint32)
  then have top: "?n div 2 ^ 24 mod 256 = ?n div 2 ^ 24" by simp
  have s1: "?n div 2 ^ 24 = ?n div 2 ^ 16 div 256" "?n div 2 ^ 16 = ?n div 2 ^ 8 div 256" "?n div 2 ^ 8 = ?n div 256"
    by (simp_all add: div_mult2_eq [symmetric])
  have "((?n div 2 ^ 24 * 256 + ?n div 2 ^ 16 mod 256) * 256 + ?n div 2 ^ 8 mod 256) * 256 + ?n mod 256 = ?n"
    unfolding s1 by (simp only: div_mult_mod_eq)
  then show ?thesis using top by (simp add: Uint32_def PutUint32_def)
qed

lemma Uint32_bound: "unat (Uint32 h) < 2 ^ 32"
  by (rule unat_uint32)

text \<open>What \<open>ReadFrame\<close> returns: no more than the limit, and the bytes after the header.\<close>

lemma ReadFrame_bound:
  assumes "ReadFrame r maxSize = (Inr p, r')"
  shows "p \<noteq> []" "length p \<le> unat maxSize" "rd_data r = take 4 (rd_data r) @ p @ rd_data r'"
proof -
  let ?h = "take 4 (rd_data r)" and ?d = "drop 4 (rd_data r)"
  have four: "4 \<le> length (rd_data r)"
    using assms by (auto simp: ReadFrame_def ReadFull_def split: if_splits)
  have sz: "Uint32 ?h \<noteq> 0" "Uint32 ?h \<le> maxSize" "unat (Uint32 ?h) \<le> length ?d" "p = take (unat (Uint32 ?h)) ?d"
      "rd_data r' = drop (unat (Uint32 ?h)) ?d"
    using assms four by (auto simp: ReadFrame_def ReadFull_def Let_def not_less split: if_splits)
  then have len: "length p = unat (Uint32 ?h)" by simp
  show "p \<noteq> []" using sz(1) len by (metis length_0_conv unat_eq_zero)
  show "length p \<le> unat maxSize" using sz(2) len by (simp add: word_le_nat_alt)
  show "rd_data r = ?h @ p @ rd_data r'" by (simp only: sz(4,5) append_take_drop_id)
qed

lemma WriteFrame_ok:
  assumes "wr_errs w = []" "payload \<noteq> []" "length payload < 2 ^ 32" "of_nat (length payload) \<le> maxSize"
  shows "WriteFrame w payload maxSize
    = (None, w\<lparr>wr_out := wr_out w @ PutUint32 (of_nat (length payload)) @ payload\<rparr>)"
  using assms by (simp add: WriteFrame_def Write_def not_less)

lemma ReadFrame_frame:
  assumes "payload \<noteq> []" "length payload < 2 ^ 32" "of_nat (length payload) \<le> maxSize"
  shows "ReadFrame \<lparr>rd_data = PutUint32 (of_nat (length payload)) @ payload @ rest, rd_end = e\<rparr> maxSize
    = (Inr payload, \<lparr>rd_data = rest, rd_end = e\<rparr>)"
proof -
  have u: "unat (of_nat (length payload) :: uint32) = length payload"
    using assms(2) by (simp add: unat_of_nat take_bit_nat_eq_self)
  then have nz: "(of_nat (length payload) :: uint32) \<noteq> 0" using assms(1) by auto
  show ?thesis using assms(3) u nz by (simp add: ReadFrame_def ReadFull_def Let_def not_less)
qed

end
