(* ===== verification/Server.thy ===== *)
theory Server
  imports Service Codec
begin

text \<open>
  \<open>internal/p2p/protocols.go\<close>: the RPC server of the offline store. A stream carries one
  request frame and gets one response frame, or is reset. The stream of the library is its
  remote peer, what can be read, what happens on writing, and the results of setting the two
  deadlines.
\<close>

definition RPCProtocol :: string where "RPCProtocol = ''/meshchat/offline-store/rpc/1.0.0''"

record FrameLimits =
  fl_RPCRequest :: uint32
  fl_RPCResponse :: uint32

record rpc_stream =
  str_remote :: string
  str_readDeadline :: "goerr option"
  str_in :: reader
  str_writeDeadline :: "goerr option"
  str_out :: writer

datatype stream_end = Closed | Reset

section \<open>Responses\<close>

definition rpcErrorString :: "bool \<Rightarrow> string \<Rightarrow> string" where
  "rpcErrorString ok msg = (if ok then [] else msg)"

definition writeRPCFromStore :: "string \<Rightarrow> StoreResponse \<Rightarrow> RPCResponse" where
  "writeRPCFromStore requestID inner =
     \<lparr>rresp_RequestID = requestID, rresp_OK = sresp_OK inner,
      rresp_Error = rpcErrorString (sresp_OK inner) (sresp_ErrorMessage inner),
      rresp_Body = enc_StoreResponse inner\<rparr>"

definition writeRPCFromFetch :: "string \<Rightarrow> FetchResponse \<Rightarrow> RPCResponse" where
  "writeRPCFromFetch requestID inner =
     \<lparr>rresp_RequestID = requestID, rresp_OK = fresp_OK inner,
      rresp_Error = rpcErrorString (fresp_OK inner) (fresp_ErrorMessage inner),
      rresp_Body = enc_FetchResponse inner\<rparr>"

definition writeRPCFromAck :: "string \<Rightarrow> AckResponse \<Rightarrow> RPCResponse" where
  "writeRPCFromAck requestID inner =
     \<lparr>rresp_RequestID = requestID, rresp_OK = aresp_OK inner,
      rresp_Error = rpcErrorString (aresp_OK inner) (aresp_ErrorMessage inner),
      rresp_Body = enc_AckResponse inner\<rparr>"

text \<open>\<open>quote\<close> is the formatting of a string by the verb \<open>%q\<close>.\<close>

definition writeRPCUnknownMethod :: "(string \<Rightarrow> string) \<Rightarrow> string \<Rightarrow> string \<Rightarrow> RPCResponse" where
  "writeRPCUnknownMethod quote requestID method =
     (let msg = ''unknown method: '' @ quote method
      in \<lparr>rresp_RequestID = requestID, rresp_OK = False, rresp_Error = msg,
          rresp_Body = enc_RPCErrorBody
            \<lparr>eb_ErrorCode = CodeRPCUnknownMethod, eb_ErrorMessage = msg, eb_Method = method\<rparr>\<rparr>)"

definition writeRPCError :: "string \<Rightarrow> string \<Rightarrow> string \<Rightarrow> RPCResponse" where
  "writeRPCError requestID code errMsg =
     \<lparr>rresp_RequestID = requestID, rresp_OK = False, rresp_Error = errMsg,
      rresp_Body = enc_RPCErrorBody \<lparr>eb_ErrorCode = code, eb_ErrorMessage = errMsg, eb_Method = []\<rparr>\<rparr>"

definition writeRPC :: "FrameLimits \<Rightarrow> rpc_stream \<Rightarrow> RPCResponse \<Rightarrow> writer \<times> stream_end" where
  "writeRPC fl stream resp =
     (case str_writeDeadline stream of
        Some e \<Rightarrow> (str_out stream, Reset)
      | None \<Rightarrow>
          (case WriteJSON (str_out stream) (enc_RPCResponse resp) (fl_RPCResponse fl) of
             (Some e, w) \<Rightarrow> (w, Reset)
           | (None, w) \<Rightarrow> (w, Closed)))"

section \<open>Requests\<close>

definition handleStoreRPC ::
  "'st storage \<Rightarrow> verifier \<Rightarrow> (goerr \<Rightarrow> string) \<Rightarrow> StoreService \<Rightarrow> call_env \<Rightarrow> string \<Rightarrow> RPCRequest \<Rightarrow> 'st node \<Rightarrow>
   (RPCResponse \<times> 'st node) option" where
  "handleStoreRPC S V txt cfg c remotePeerID rpcReq n =
     (case unmarshal_raw zero_StoreRequest dec_StoreRequest (rpc_Body rpcReq) of
        Inl err \<Rightarrow>
          Some (writeRPCFromStore (rpc_RequestID rpcReq)
                  \<lparr>sresp_OK = False, sresp_Duplicate = False, sresp_StoreSeq = 0, sresp_ExpireAt = 0,
                   sresp_ErrorCode = CodeInvalidPayload, sresp_ErrorMessage = Error txt err\<rparr>, n)
      | Inr req \<Rightarrow>
          (case Store_Handle S V txt cfg c remotePeerID (Some req) n of
             None \<Rightarrow> None
           | Some (resp, n') \<Rightarrow> Some (writeRPCFromStore (rpc_RequestID rpcReq) resp, n')))"

text \<open>A successful fetch marks what it returns as delivered before the response is written.\<close>

definition handleFetchRPC ::
  "'st storage \<Rightarrow> (goerr \<Rightarrow> string) \<Rightarrow> int64 \<Rightarrow> call_env \<Rightarrow> call_env \<Rightarrow> string \<Rightarrow> RPCRequest \<Rightarrow> 'st node \<Rightarrow>
   RPCResponse \<times> 'st node" where
  "handleFetchRPC S txt fetchLimitMax c c' remotePeerID rpcReq n =
     (case unmarshal_raw zero_FetchRequest dec_FetchRequest (rpc_Body rpcReq) of
        Inl err \<Rightarrow>
          (writeRPCFromFetch (rpc_RequestID rpcReq)
             \<lparr>fresp_OK = False, fresp_Items = [], fresp_HasMore = False,
              fresp_ErrorCode = CodeInvalidPayload, fresp_ErrorMessage = Error txt err\<rparr>, n)
      | Inr req \<Rightarrow>
          (case Fetch_Handle S txt fetchLimitMax c remotePeerID (Some req) n of
             (resp, n') \<Rightarrow>
               (writeRPCFromFetch (rpc_RequestID rpcReq) resp,
                if fresp_OK resp then snd (Fetch_MarkDelivered S c' (freq_RecipientID req) (fresp_Items resp) n')
                else n')))"

definition handleAckRPC ::
  "'st storage \<Rightarrow> verifier \<Rightarrow> (goerr \<Rightarrow> string) \<Rightarrow> call_env \<Rightarrow> string \<Rightarrow> RPCRequest \<Rightarrow> 'st node \<Rightarrow>
   (RPCResponse \<times> 'st node) option" where
  "handleAckRPC S V txt c remotePeerID rpcReq n =
     (case unmarshal_raw zero_AckRequest dec_AckRequest (rpc_Body rpcReq) of
        Inl err \<Rightarrow>
          Some (writeRPCFromAck (rpc_RequestID rpcReq)
                  \<lparr>aresp_OK = False, aresp_DeletedUntilSeq = 0,
                   aresp_ErrorCode = CodeInvalidPayload, aresp_ErrorMessage = Error txt err\<rparr>, n)
      | Inr req \<Rightarrow>
          (case Ack_Handle S V txt c remotePeerID (Some req) n of
             None \<Rightarrow> None
           | Some (resp, n') \<Rightarrow> Some (writeRPCFromAck (rpc_RequestID rpcReq) resp, n')))"

text \<open>The response to a frame, and the state after it.\<close>

definition rpc_dispatch ::
  "'st storage \<Rightarrow> verifier \<Rightarrow> (goerr \<Rightarrow> string) \<Rightarrow> (string \<Rightarrow> string) \<Rightarrow> StoreService \<Rightarrow> int64 \<Rightarrow> call_env \<Rightarrow> call_env \<Rightarrow>
   string \<Rightarrow> bytes \<Rightarrow> 'st node \<Rightarrow> (RPCResponse \<times> 'st node) option" where
  "rpc_dispatch S V txt quote cfg fetchLimitMax c c' remotePeerID frame n =
     (case unmarshal zero_RPCRequest dec_RPCRequest frame of
        Inl err \<Rightarrow> Some (writeRPCError [] CodeRPCInvalidRequest (Error txt err), n)
      | Inr rpcReq \<Rightarrow>
          if rpc_RequestID rpcReq = []
          then Some (writeRPCError [] CodeRPCMissingRequestID ''request_id is required'', n)
          else if rpc_Method rpcReq = MethodOfflineStore
          then handleStoreRPC S V txt cfg c remotePeerID rpcReq n
          else if rpc_Method rpcReq = MethodOfflineFetch
          then Some (handleFetchRPC S txt fetchLimitMax c c' remotePeerID rpcReq n)
          else if rpc_Method rpcReq = MethodOfflineAck
          then handleAckRPC S V txt c remotePeerID rpcReq n
          else Some (writeRPCUnknownMethod quote (rpc_RequestID rpcReq) (rpc_Method rpcReq), n))"

definition HandleRPC ::
  "'st storage \<Rightarrow> verifier \<Rightarrow> (goerr \<Rightarrow> string) \<Rightarrow> (string \<Rightarrow> string) \<Rightarrow> StoreService \<Rightarrow> int64 \<Rightarrow> FrameLimits \<Rightarrow>
   call_env \<Rightarrow> call_env \<Rightarrow> rpc_stream \<Rightarrow> 'st node \<Rightarrow> (writer \<times> stream_end \<times> 'st node) option" where
  "HandleRPC S V txt quote cfg fetchLimitMax fl c c' stream n =
     (case str_readDeadline stream of
        Some e \<Rightarrow> Some (str_out stream, Reset, n)
      | None \<Rightarrow>
          (case ReadFrame (str_in stream) (fl_RPCRequest fl) of
             (Inl e, _) \<Rightarrow> Some (str_out stream, Reset, n)
           | (Inr frame, _) \<Rightarrow>
               (case rpc_dispatch S V txt quote cfg fetchLimitMax c c' (str_remote stream) frame n of
                  None \<Rightarrow> None
                | Some (resp, n') \<Rightarrow>
                    (case writeRPC fl stream resp of (w, e) \<Rightarrow> Some (w, e, n')))))"

section \<open>Facts\<close>

lemma response_id [simp]:
  "rresp_RequestID (writeRPCFromStore i a) = i" "rresp_RequestID (writeRPCFromFetch i b) = i"
  "rresp_RequestID (writeRPCFromAck i c) = i" "rresp_RequestID (writeRPCUnknownMethod q i m) = i"
  "rresp_RequestID (writeRPCError i cd e) = i"
  by (simp_all add: writeRPCFromStore_def writeRPCFromFetch_def writeRPCFromAck_def writeRPCUnknownMethod_def
      writeRPCError_def Let_def)

lemma handle_id:
  "handleStoreRPC S V txt cfg c remote q n = Some (resp, n') \<Longrightarrow> rresp_RequestID resp = rpc_RequestID q"
  "handleFetchRPC S txt mx c c' remote q n = (resp, n') \<Longrightarrow> rresp_RequestID resp = rpc_RequestID q"
  "handleAckRPC S V txt c remote q n = Some (resp, n') \<Longrightarrow> rresp_RequestID resp = rpc_RequestID q"
  by (auto simp: handleStoreRPC_def handleFetchRPC_def handleAckRPC_def split: sum.splits option.splits prod.splits)

lemma rpc_dispatch_id:
  assumes "rpc_dispatch S V txt quote cfg mx c c' remote frame n = Some (resp, n')"
  shows "rresp_RequestID resp =
    (case unmarshal zero_RPCRequest dec_RPCRequest frame of Inl _ \<Rightarrow> [] | Inr q \<Rightarrow> rpc_RequestID q)"
  using assms
  by (auto simp: rpc_dispatch_def handle_id split: sum.splits if_splits dest: handle_id)

lemma writeRPC_result:
  assumes "writeRPC fl stream resp = (w, e)" "wr_errs (str_out stream) = []"
  shows "e = Closed \<and> wr_out w = wr_out (str_out stream)
      @ PutUint32 (of_nat (length (json_print (enc_RPCResponse resp)))) @ json_print (enc_RPCResponse resp)
    \<or> e = Reset \<and> wr_out w = wr_out (str_out stream)"
  using assms
  by (auto simp: writeRPC_def WriteJSON_def WriteFrame_def Write_def split: option.splits if_splits)

text \<open>Over a storage that meets its contract, a fetch marks what it returned, and no more.\<close>

context mailbox_storage
begin

lemma handleFetchRPC_spec:
  assumes m: "model (n_store n) M" and r: "plain remote"
    and h: "handleFetchRPC S txt mx c c' remote q n = (resp, n')"
  shows "\<not> rresp_OK resp \<and> model (n_store n') M \<or>
    (\<exists>req items hasMore. unmarshal_raw zero_FetchRequest dec_FetchRequest (rpc_Body q) = Inr req \<and>
       freq_RecipientID req = remote \<and>
       (items, hasMore) = mb_fetch (c_now c) (freq_AfterSeq req) (freq_Limit req) (M remote) \<and>
       resp = writeRPCFromFetch (rpc_RequestID q) \<lparr>fresp_OK = True, fresp_Items = items, fresp_HasMore = hasMore,
         fresp_ErrorCode = [], fresp_ErrorMessage = []\<rparr> \<and>
       (model (n_store n') (M(remote := mb_mark (c_now c') (StoreSeq ` set items) (M remote))) \<or>
        model (n_store n') M))"
proof (cases "unmarshal_raw zero_FetchRequest dec_FetchRequest (rpc_Body q)")
  case (Inl e)
  then show ?thesis using h m by (auto simp: handleFetchRPC_def writeRPCFromFetch_def)
next
  case (Inr req)
  obtain fr n1 where f: "Fetch_Handle S txt mx c remote (Some req) n = (fr, n1)" by fastforce
  note st = Fetch_Handle_store [OF f]
  show ?thesis
  proof (cases "fresp_OK fr")
    case False
    then show ?thesis using h m Inr f st by (auto simp: handleFetchRPC_def writeRPCFromFetch_def)
  next
    case True
    have fr: "freq_RecipientID req = remote"
        "(fresp_Items fr, fresp_HasMore fr) = mb_fetch (c_now c) (freq_AfterSeq req) (freq_Limit req) (M remote)"
      using Fetch_Handle_spec [OF m f True r] by auto
    obtain err s1 where mk: "i_MarkDelivered S (c_ctx c') (c_now c') (n_store n1) remote (map Some (fresp_Items fr)) = (err, s1)"
      by fastforce
    have n': "n' = n1\<lparr>n_store := s1\<rparr>" "resp = writeRPCFromFetch (rpc_RequestID q) fr"
      using h Inr f True mk fr(1) by (auto simp: handleFetchRPC_def Fetch_MarkDelivered_def)
    have ok: "fr = \<lparr>fresp_OK = True, fresp_Items = fresp_Items fr, fresp_HasMore = fresp_HasMore fr,
        fresp_ErrorCode = [], fresp_ErrorMessage = []\<rparr>"
      using f True by (auto simp: Fetch_Handle_def fetch_error_def Let_def split: option.splits if_splits sum.splits)
    have seqs: "set (delivered_seqs (map Some (fresp_Items fr))) = StoreSeq ` set (fresp_Items fr)"
      by (auto simp: delivered_seqs_def)
    note law = mark_law [OF m [folded st] r mk]
    then have "model (n_store n') (M(remote := mb_mark (c_now c') (StoreSeq ` set (fresp_Items fr)) (M remote))) \<or>
        model (n_store n') M"
      using n'(1) seqs by (cases "err = None \<and> fresp_Items fr \<noteq> []") auto
    with Inr fr n'(2) ok show ?thesis by metis
  qed
qed

end

end
