(* ===== verification/GcWorker.thy ===== *)
theory GcWorker
  imports Storage Metrics
begin

text \<open>
  \<open>internal/gc/worker.go\<close>: the background collector. \<open>runOnce\<close> repeats
  \<open>DeleteExpired\<close> until a call deletes less than a batch; \<open>Run\<close> does so on every
  tick until the context is done. The environment of a call is the context at each poll and
  the reading of the clock, indexed by the number of the call.
\<close>

section \<open>The worker\<close>

partial_function (option) gc_loop ::
  "'st storage \<Rightarrow> (nat \<Rightarrow> nat \<Rightarrow> goerr option) \<Rightarrow> (nat \<Rightarrow> int64) \<Rightarrow> int64 \<Rightarrow> nat \<Rightarrow> 'st \<Rightarrow> nat \<Rightarrow>
   (goerr option \<times> nat \<times> nat \<times> 'st) option" where
  "gc_loop S ctx clock batchSize scans st totalDeleted =
     (case i_DeleteExpired S (ctx scans) st (clock scans) batchSize of
        (deleted, err, st') \<Rightarrow>
          (case err of
             Some e \<Rightarrow> Some (Some e, Suc scans, totalDeleted, st')
           | None \<Rightarrow>
               if deleted = 0 \<or> int deleted < sint batchSize
               then Some (None, Suc scans, totalDeleted + deleted, st')
               else gc_loop S ctx clock batchSize (Suc scans) st' (totalDeleted + deleted)))"

definition runOnce ::
  "'st storage \<Rightarrow> (nat \<Rightarrow> nat \<Rightarrow> goerr option) \<Rightarrow> (nat \<Rightarrow> int64) \<Rightarrow> int64 \<Rightarrow> 'st \<Rightarrow> Metrics \<Rightarrow>
   ('st \<times> Metrics) option" where
  "runOnce S ctx clock batchSize st metrics =
     (case gc_loop S ctx clock batchSize 0 st 0 of
        None \<Rightarrow> None
      | Some (Some e, scans, totalDeleted, st') \<Rightarrow> Some (st', metrics)
      | Some (None, scans, totalDeleted, st') \<Rightarrow>
          Some (st', if 0 < totalDeleted
                     then metrics\<lparr>GCDeletedTotal := GCDeletedTotal metrics + of_nat totalDeleted\<rparr>
                     else metrics))"

text \<open>What the \<open>select\<close> of \<open>Run\<close> receives next.\<close>

datatype event = CtxDone | Tick "nat \<Rightarrow> nat \<Rightarrow> goerr option" "nat \<Rightarrow> int64"

fun Run :: "'st storage \<Rightarrow> int64 \<Rightarrow> event list \<Rightarrow> 'st \<Rightarrow> Metrics \<Rightarrow> ('st \<times> Metrics) option" where
  "Run S batchSize [] st metrics = Some (st, metrics)"
| "Run S batchSize (CtxDone # evs) st metrics = Some (st, metrics)"
| "Run S batchSize (Tick ctx clock # evs) st metrics =
     (case runOnce S ctx clock batchSize st metrics of
        None \<Rightarrow> None
      | Some (st', metrics') \<Rightarrow> Run S batchSize evs st' metrics')"

section \<open>What a collection does\<close>

definition pend :: "mailboxes \<Rightarrow> (string \<times> uint64) set" where
  "pend M = {(r, s). plain r \<and> mb_msgs (M r) s \<noteq> None}"

text \<open>
  From \<open>M\<close> to \<open>M'\<close> nothing happened but that messages expired at one of the clock
  readings \<open>T\<close> disappeared.
\<close>

definition only_expired :: "int64 set \<Rightarrow> mailboxes \<Rightarrow> mailboxes \<Rightarrow> bool" where
  "only_expired T M M' \<longleftrightarrow>
     (\<forall>r. mb_last (M' r) = mb_last (M r) \<and> mb_delivered (M' r) = mb_delivered (M r) \<and>
        mb_acked (M' r) = mb_acked (M r)) \<and>
     (\<forall>r s. mb_msgs (M' r) s = mb_msgs (M r) s \<or>
        mb_msgs (M' r) s = None \<and> (\<exists>sm t. mb_msgs (M r) s = Some sm \<and> t \<in> T \<and> sint (ExpireAt sm) \<le> sint t))"

definition drained :: "int64 \<Rightarrow> mailboxes \<Rightarrow> bool" where
  "drained now M \<longleftrightarrow> (\<forall>r s sm. plain r \<longrightarrow> mb_msgs (M r) s = Some sm \<longrightarrow> sint now < sint (ExpireAt sm))"

lemma only_expired_refl: "only_expired T M M"
  by (simp add: only_expired_def)

lemma only_expired_trans:
  assumes "only_expired T M M'" "only_expired T M' M''"
  shows "only_expired T M M''"
proof -
  have "mb_msgs (M'' r) s = mb_msgs (M r) s \<or>
      mb_msgs (M'' r) s = None \<and> (\<exists>sm t. mb_msgs (M r) s = Some sm \<and> t \<in> T \<and> sint (ExpireAt sm) \<le> sint t)" for r s
  proof (cases "mb_msgs (M'' r) s = mb_msgs (M' r) s")
    case True
    then show ?thesis using assms(1) unfolding only_expired_def by simp
  next
    case False
    then obtain sm t where gone: "mb_msgs (M'' r) s = None"
        and sm: "mb_msgs (M' r) s = Some sm" "t \<in> T" "sint (ExpireAt sm) \<le> sint t"
      using assms(2) unfolding only_expired_def by blast
    then have "mb_msgs (M r) s = Some sm"
      using assms(1) unfolding only_expired_def by (metis option.distinct(1))
    with gone sm show ?thesis by blast
  qed
  with assms show ?thesis unfolding only_expired_def by simp
qed

lemma only_expired_gc:
  assumes "\<forall>ref\<in>set refs. ref_live M now ref" "now \<in> T"
  shows "only_expired T M (gc_remove_all refs M)"
proof -
  have live: "\<exists>sm. mb_msgs (M r) s = Some sm \<and> sint (ExpireAt sm) \<le> sint now"
    if "(r, s) \<in> (\<lambda>ref. (ref_recipientID ref, ref_storeSeq ref)) ` set refs" for r s
    using that assms(1) by (fastforce simp: ref_live_def ref_of_def)
  have "mb_msgs (gc_remove_all refs M r) s = mb_msgs (M r) s \<or> mb_msgs (gc_remove_all refs M r) s = None \<and>
      (\<exists>sm t. mb_msgs (M r) s = Some sm \<and> t \<in> T \<and> sint (ExpireAt sm) \<le> sint t)" for r s
  proof (cases "(r, s) \<in> (\<lambda>ref. (ref_recipientID ref, ref_storeSeq ref)) ` set refs")
    case True
    then show ?thesis using live [OF True] assms(2) unfolding gc_remove_all_msgs by auto
  next
    case False
    then show ?thesis unfolding gc_remove_all_msgs by simp
  qed
  then show ?thesis unfolding only_expired_def by simp
qed

lemma pend_gc: "pend (gc_remove_all refs M) = pend M - ref_key ` set refs"
  by (auto simp: pend_def gc_remove_all_msgs ref_key_def image_iff)

lemma card_pend_gc:
  assumes "gc_selects M now limit refs" "finite (pend M)"
  shows "card (pend (gc_remove_all refs M)) + length refs = card (pend M)"
proof -
  have sub: "ref_key ` set refs \<subseteq> pend M"
    using assms(1) by (fastforce simp: gc_selects_def ref_live_def ref_of_def ref_key_def pend_def)
  have "distinct (map ref_key refs)" using assms(1) by (simp add: gc_selects_def)
  then have "card (ref_key ` set refs) = length refs" by (metis distinct_card length_map set_map)
  then show ?thesis
    using sub assms(2) card_mono [OF assms(2) sub] by (simp add: pend_gc card_Diff_subset finite_subset)
qed

lemma drained_gc:
  assumes "gc_selects M now limit refs" "0 \<le> sint now" "sint now < 2 ^ 63 - 1" "int (length refs) < sint limit"
  shows "drained now (gc_remove_all refs M)"
proof -
  have "ref_of (ExpireAt sm) r s \<in> set refs"
    if "plain r" "mb_msgs (M r) s = Some sm" "sint (ExpireAt sm) \<le> sint now" for r s sm
    using assms that by (simp add: gc_selects_def)
  then show ?thesis
    unfolding drained_def gc_remove_all_msgs by (force simp: ref_of_def split: if_splits)
qed

context mailbox_storage
begin

lemma finite_pend: "model st M \<Longrightarrow> finite (pend M)"
  using model_finite by (simp add: pend_def)

text \<open>Whatever happens, a collection deletes expired messages only.\<close>

lemma gc_loop_safe:
  assumes "gc_loop S ctx clock batch k st n = Some (err, k', n', st')" "model st M"
  shows "\<exists>M'. model st' M' \<and> only_expired (range clock) M M'"
  using assms
proof (induction "card (pend M)" arbitrary: M k st n rule: less_induct)
  case less
  obtain dl e0 st1 where del: "i_DeleteExpired S (ctx k) st (clock k) batch = (dl, e0, st1)" by (metis prod_cases3)
  obtain refs where refs: "length refs = dl" "\<forall>ref\<in>set refs. ref_live M (clock k) ref" "model st1 (gc_remove_all refs M)"
      "e0 = None \<longrightarrow> 0 < sint batch \<longrightarrow> gc_selects M (clock k) batch refs"
    using gc_law [OF less.prems(2) del] by blast
  have one: "only_expired (range clock) M (gc_remove_all refs M)" using only_expired_gc refs(2) by blast
  show ?case
  proof (cases "e0 = None \<and> dl \<noteq> 0 \<and> sint batch \<le> int dl")
    case False
    then have "st' = st1"
      using less.prems(1) by (subst (asm) gc_loop.simps) (auto simp: del split: option.splits if_splits)
    with one refs(3) show ?thesis by blast
  next
    case True
    then have "gc_loop S ctx clock batch (Suc k) st1 (n + dl) = Some (err, k', n', st')"
      using less.prems(1) by (subst (asm) gc_loop.simps) (simp add: del)
    moreover have "card (pend (gc_remove_all refs M)) < card (pend M)"
    proof (cases "0 < sint batch")
      case pos: True
      then show ?thesis
        using card_pend_gc [OF _ finite_pend [OF less.prems(2)]] True refs(1,4) by fastforce
    next
      case False
      then show ?thesis using True gc_off [of batch "ctx k" st "clock k"] del by simp
    qed
    ultimately obtain M' where "model st' M'" "only_expired (range clock) (gc_remove_all refs M) M'"
      using less.hyps refs(3) by blast
    with one show ?thesis using only_expired_trans by blast
  qed
qed

end

context live_storage
begin

text \<open>
  Without faults a collection ends, has deleted the number of messages it reports, and leaves
  no message that was expired at its last clock reading.
\<close>

lemma gc_loop_total:
  assumes "model st M" and poll: "\<forall>k j. ctx k j = None" and batch: "0 < sint batch"
    and clock: "\<forall>k. 0 \<le> sint (clock k) \<and> sint (clock k) < 2 ^ 63 - 1"
  shows "\<exists>k' st' M'. gc_loop S ctx clock batch k st n = Some (None, Suc k', n + (card (pend M) - card (pend M')), st') \<and>
    model st' M' \<and> only_expired (range clock) M M' \<and> pend M' \<subseteq> pend M \<and> drained (clock k') M'"
  using assms(1)
proof (induction "card (pend M)" arbitrary: M k st n rule: less_induct)
  case less
  have fin: "finite (pend M)" using finite_pend less.prems by blast
  obtain dl st1 where del: "i_DeleteExpired S (ctx k) st (clock k) batch = (dl, None, st1)"
    using gc_live [OF less.prems, of "ctx k" "clock k" batch] poll by (metis prod.collapse)
  obtain refs where refs: "length refs = dl" "\<forall>ref\<in>set refs. ref_live M (clock k) ref" "model st1 (gc_remove_all refs M)"
      "gc_selects M (clock k) batch refs"
    using gc_law [OF less.prems del] batch by blast
  let ?M1 = "gc_remove_all refs M"
  have one: "only_expired (range clock) M ?M1" using only_expired_gc refs(2) by blast
  have card: "card (pend ?M1) + dl = card (pend M)" using card_pend_gc [OF refs(4) fin] refs(1) by simp
  have sub: "pend ?M1 \<subseteq> pend M" by (simp add: pend_gc)
  show ?case
  proof (cases "int dl < sint batch")
    case True
    then have "gc_loop S ctx clock batch k st n = Some (None, Suc k, n + dl, st1)"
      by (subst gc_loop.simps) (simp add: del)
    moreover have "drained (clock k) ?M1" using drained_gc [OF refs(4)] clock True refs(1) by blast
    moreover have "dl = card (pend M) - card (pend ?M1)" using card by simp
    ultimately show ?thesis using one refs(3) sub by metis
  next
    case False
    then have pos: "dl \<noteq> 0" using batch by auto
    then have step: "gc_loop S ctx clock batch k st n = gc_loop S ctx clock batch (Suc k) st1 (n + dl)"
      using False by (subst gc_loop.simps) (simp add: del)
    have "card (pend ?M1) < card (pend M)" using card pos by simp
    then obtain k' st' M' where rest:
        "gc_loop S ctx clock batch (Suc k) st1 (n + dl) = Some (None, Suc k', n + dl + (card (pend ?M1) - card (pend M')), st')"
        "model st' M'" "only_expired (range clock) ?M1 M'" "pend M' \<subseteq> pend ?M1" "drained (clock k') M'"
      using less.hyps [OF _ refs(3)] by blast
    have "card (pend M') \<le> card (pend ?M1)"
      using rest(4) card_mono finite_subset [OF sub fin] by blast
    then have "n + dl + (card (pend ?M1) - card (pend M')) = n + (card (pend M) - card (pend M'))"
      using card by simp
    then show ?thesis using step rest only_expired_trans [OF one rest(3)] sub by auto
  qed
qed

end

end
