(* ===== verification/Interleaving.thy ===== *)
theory Interleaving
  imports Storage
begin

text \<open>
  The store under concurrent use. Operations that hold a recipient's lock are single steps
  (the theory \<open>Shard\<close> gives the mutual exclusion); the garbage collector scans without a
  lock and deletes its references one by one, so any operation may come between. The steps may
  fail in every way the database allows. The clock may read any value at any step, since a reading
  is taken before the lock is: \<open>sys_now\<close> only bounds the readings so far. The invariant of the step
  relation says that the store always represents mailboxes, and how they evolve. A step that stores
  has a recipient without a slash (the keys of other recipients collide, see Slash), a number left
  and an expiry time that does not overflow.
\<close>

section \<open>The system\<close>

record 'db system =
  sys_db :: 'db
  sys_refs :: "expiredRef list"
  sys_now :: int64

inductive sys_step :: "'db pebble \<Rightarrow> 'db system \<Rightarrow> 'db system \<Rightarrow> bool" for P where
  Store: "sint now \<le> sint (sys_now s) \<Longrightarrow> sm_Message msg = Some env \<Longrightarrow> storable env \<Longrightarrow>
    0 \<le> sint (now + EffectiveTTL (Some env) 0) \<Longrightarrow> lastSeq P (sys_db s) (RecipientID env) \<noteq> Inr (- 1) \<Longrightarrow>
    storeMessageWithQuota P ctx now (sys_db s) (Some msg) mm mbytes q = Some (res, d') \<Longrightarrow>
    sys_step P s (s\<lparr>sys_db := d'\<rparr>)"
| Mark: "plain r \<Longrightarrow> MarkDelivered P ctx now (sys_db s) r items = (err, d') \<Longrightarrow>
    sys_step P s (s\<lparr>sys_db := d'\<rparr>)"
| Ack: "plain r \<Longrightarrow> AckMessages P defaultAckDeleteBatch poll (sys_db s) r a = Some (u, c, err, d') \<Longrightarrow>
    sys_step P s (s\<lparr>sys_db := d'\<rparr>)"
| GcScan: "sint now \<le> sint (sys_now s) \<Longrightarrow> 0 < sint limit \<Longrightarrow>
    db_Iter P (sys_db s) ''exp/'' (expUpperBound now) = Inr (es, ie) \<Longrightarrow>
    gc_scan poll now limit 0 es [] = (None, broke, i, refs) \<Longrightarrow> broke \<or> ie = None \<Longrightarrow>
    sys_step P s (s\<lparr>sys_refs := sys_refs s @ refs\<rparr>)"
| GcDelete: "ref \<in> set (sys_refs s) \<Longrightarrow> gc_delete_ref P (sys_db s) ref = (err, d') \<Longrightarrow>
    sys_step P s (s\<lparr>sys_db := d'\<rparr>)"
| GcForget: "set refs \<subseteq> set (sys_refs s) \<Longrightarrow> sys_step P s (s\<lparr>sys_refs := refs\<rparr>)"
| Time: "sint (sys_now s) \<le> sint now \<Longrightarrow> sys_step P s (s\<lparr>sys_now := now\<rparr>)"

definition sys_steps :: "'db pebble \<Rightarrow> 'db system \<Rightarrow> 'db system \<Rightarrow> bool" where
  "sys_steps P = (sys_step P)\<^sup>*\<^sup>*"

section \<open>How mailboxes evolve\<close>

text \<open>
  Counters never go back; a message disappears only once it is acknowledged or expired; what
  appears has a number never used before.
\<close>

definition evolves :: "int64 \<Rightarrow> mailboxes \<Rightarrow> mailboxes \<Rightarrow> bool" where
  "evolves now M M' \<longleftrightarrow>
     (\<forall>r. mb_last (M r) \<le> mb_last (M' r) \<and> mb_delivered (M r) \<le> mb_delivered (M' r) \<and>
        mb_acked (M r) \<le> mb_acked (M' r) \<and>
        (\<forall>s sm. mb_msgs (M r) s = Some sm \<longrightarrow>
           mb_msgs (M' r) s = Some sm \<or> s \<le> mb_acked (M' r) \<or> sint (ExpireAt sm) \<le> sint now) \<and>
        (\<forall>s sm. mb_msgs (M' r) s = Some sm \<longrightarrow> mb_msgs (M r) s = Some sm \<or> mb_last (M r) < s))"

lemma evolves_refl [simp]: "evolves now M M"
  by (simp add: evolves_def)

lemma evolves_one:
  assumes "mb_last (M r) \<le> mb_last mb" "mb_delivered (M r) \<le> mb_delivered mb" "mb_acked (M r) \<le> mb_acked mb"
    "\<And>s sm. mb_msgs (M r) s = Some sm \<Longrightarrow>
       mb_msgs mb s = Some sm \<or> s \<le> mb_acked mb \<or> sint (ExpireAt sm) \<le> sint now"
    "\<And>s sm. mb_msgs mb s = Some sm \<Longrightarrow> mb_msgs (M r) s = Some sm \<or> mb_last (M r) < s"
  shows "evolves now M (M(r := mb))"
  using assms by (auto simp: evolves_def)

lemma evolves_trans:
  assumes ok: "\<And>r. mailbox_ok r (M r)" and a: "evolves t M M'" and b: "evolves t' M' M''" and t: "sint t \<le> sint t'"
  shows "evolves t' M M''"
  unfolding evolves_def
proof (intro allI conjI impI)
  fix r
  have mono: "mb_last (M r) \<le> mb_last (M' r)" "mb_delivered (M r) \<le> mb_delivered (M' r)" "mb_acked (M r) \<le> mb_acked (M' r)"
    "mb_last (M' r) \<le> mb_last (M'' r)" "mb_delivered (M' r) \<le> mb_delivered (M'' r)" "mb_acked (M' r) \<le> mb_acked (M'' r)"
    using a b by (auto simp: evolves_def)
  then show "mb_last (M r) \<le> mb_last (M'' r)" "mb_delivered (M r) \<le> mb_delivered (M'' r)"
      "mb_acked (M r) \<le> mb_acked (M'' r)"
    by (blast intro: order_trans)+
  fix s sm
  show "mb_msgs (M'' r) s = Some sm \<or> s \<le> mb_acked (M'' r) \<or> sint (ExpireAt sm) \<le> sint t'"
    if "mb_msgs (M r) s = Some sm"
  proof -
    have "mb_msgs (M' r) s = Some sm \<or> s \<le> mb_acked (M' r) \<or> sint (ExpireAt sm) \<le> sint t"
      using a that unfolding evolves_def by blast
    moreover have "mb_msgs (M' r) s = Some sm \<Longrightarrow>
        mb_msgs (M'' r) s = Some sm \<or> s \<le> mb_acked (M'' r) \<or> sint (ExpireAt sm) \<le> sint t'"
      using b unfolding evolves_def by blast
    ultimately show ?thesis using mono(6) t by (auto intro: order_trans)
  qed
  show "mb_msgs (M r) s = Some sm \<or> mb_last (M r) < s" if "mb_msgs (M'' r) s = Some sm"
  proof -
    have "mb_msgs (M' r) s = Some sm \<or> mb_last (M' r) < s" using b that unfolding evolves_def by blast
    moreover have "mb_msgs (M' r) s = Some sm \<Longrightarrow> mb_msgs (M r) s = Some sm \<or> mb_last (M r) < s"
      using a unfolding evolves_def by blast
    ultimately show ?thesis using mono(1) by (auto intro: le_less_trans)
  qed
qed

section \<open>References\<close>

definition ref_held :: "mailboxes \<Rightarrow> int64 \<Rightarrow> expiredRef \<Rightarrow> bool" where
  "ref_held M now ref \<longleftrightarrow>
     ref_safe M ref \<and> ref_storeSeq ref \<le> mb_last (M (ref_recipientID ref)) \<and> sint (ref_expireAt ref) \<le> sint now"

lemma ref_held_evolves:
  assumes held: "ref_held M now ref" and ev: "evolves t M M'" and now: "sint now \<le> sint now'"
  shows "ref_held M' now' ref"
proof -
  obtain e r s where ref: "ref = ref_of e r s" "plain r" "0 \<le> sint e"
      and same: "\<forall>sm. mb_msgs (M r) s = Some sm \<longrightarrow> ExpireAt sm = e"
    using held by (auto simp: ref_held_def ref_safe_def)
  have last: "s \<le> mb_last (M r)" using held ref by (simp add: ref_held_def ref_of_def)
  have "ExpireAt sm = e" if "mb_msgs (M' r) s = Some sm" for sm
  proof -
    have "mb_msgs (M r) s = Some sm \<or> mb_last (M r) < s" using ev that unfolding evolves_def by blast
    then show ?thesis using same last leD by blast
  qed
  then have "ref_safe M' ref" using ref unfolding ref_safe_def by blast
  moreover have "mb_last (M r) \<le> mb_last (M' r)" using ev by (simp add: evolves_def)
  then have "ref_storeSeq ref \<le> mb_last (M' (ref_recipientID ref))"
    using last ref(1) by (auto simp: ref_of_def intro: order_trans)
  ultimately show ?thesis using held now by (simp add: ref_held_def)
qed

lemma ref_live_held:
  assumes "repr M m" "ref_live M now ref"
  shows "ref_held M now ref"
proof -
  obtain sm r s where ref: "ref = ref_of (ExpireAt sm) r s" "mb_msgs (M r) s = Some sm" "sint (ExpireAt sm) \<le> sint now"
    using assms(2) by (auto simp: ref_live_def)
  then show ?thesis
    using ref_live_safe [OF assms] mailbox_ok_last [OF repr_ok [OF assms(1)] ref(2)]
    by (simp add: ref_held_def ref_of_def)
qed

lemma ref_live_held_later:
  assumes "repr M m" "ref_live M now ref" "sint now \<le> sint now'"
  shows "ref_held M now' ref"
  using ref_held_evolves [OF ref_live_held [OF assms(1,2)] evolves_refl assms(3)] .

section \<open>The invariant\<close>

context pebble_db
begin

definition sys_inv :: "mailboxes \<Rightarrow> 'db system \<Rightarrow> bool" where
  "sys_inv M s \<longleftrightarrow> repr M (view (sys_db s)) \<and> (\<forall>ref\<in>set (sys_refs s). ref_held M (sys_now s) ref)"

lemma sys_inv_evolves:
  assumes "sys_inv M s" "repr M' (view d')" "evolves (sys_now s) M M'"
  shows "sys_inv M' (s\<lparr>sys_db := d'\<rparr>)"
  using assms ref_held_evolves [OF _ assms(3), of "sys_now s" _ "sys_now s"] by (auto simp: sys_inv_def)

lemma evolves_add:
  assumes "mailbox_ok r (M r)" "mb_last (M r) < StoreSeq sm"
  shows "evolves t M (M(r := mb_add sm (M r)))"
proof (rule evolves_one)
  show "mb_last (M r) \<le> mb_last (mb_add sm (M r))" using assms(2) by (simp add: mb_add_def)
  fix s x
  show "mb_msgs (mb_add sm (M r)) s = Some x \<or> s \<le> mb_acked (mb_add sm (M r)) \<or> sint (ExpireAt x) \<le> sint t"
    if "mb_msgs (M r) s = Some x"
    using that mailbox_ok_last [OF assms(1) that] assms(2) by (auto simp: mb_add_def)
  show "mb_msgs (M r) s = Some x \<or> mb_last (M r) < s" if "mb_msgs (mb_add sm (M r)) s = Some x"
    using that assms(2) by (auto simp: mb_add_def split: if_splits)
qed (simp_all add: mb_add_def)

lemma evolves_mark: "mailbox_ok r (M r) \<Longrightarrow> evolves t M (M(r := mb_mark now D (M r)))"
  using mb_mark_frontier [of r "M r" now D] by (intro evolves_one) (auto simp: mb_mark_def)

lemma evolves_ack: "mb_acked (M r) \<le> w \<Longrightarrow> evolves t M (M(r := mb_ack_upto w (M r)))"
  by (intro evolves_one) (auto simp: mb_ack_upto_def restrict_map_def split: if_splits)

lemma evolves_gc:
  assumes "ref_held M t ref"
  shows "evolves t M (gc_remove ref M)"
proof -
  obtain e r s where ref: "ref = ref_of e r s" and same: "\<forall>sm. mb_msgs (M r) s = Some sm \<longrightarrow> ExpireAt sm = e"
    using assms by (auto simp: ref_held_def ref_safe_def)
  have "sint e \<le> sint t" using assms ref by (simp add: ref_held_def ref_of_def)
  then have "evolves t M (M(r := mb_remove s (M r)))" using same by (intro evolves_one) (auto split: if_splits)
  then show ?thesis by (simp add: gc_remove_def ref ref_of_def)
qed

lemma store_step:
  assumes rep: "repr M (view d)" and env: "sm_Message msg = Some env" "storable env"
    and ttl: "0 \<le> sint (now + EffectiveTTL (Some env) 0)" and room: "lastSeq P d (RecipientID env) \<noteq> Inr (- 1)"
    and res: "storeMessageWithQuota P ctx now d (Some msg) mm mbytes q = Some (res, d')"
  shows "\<exists>M'. repr M' (view d') \<and> evolves t M M'"
proof (cases "mb_last (M (RecipientID env)) = - 1")
  case True
  have r: "plain (RecipientID env)" using env(2) by (simp add: storable_def)
  obtain e where e: "lastSeq P d (RecipientID env) = Inl e"
  proof (cases "lastSeq P d (RecipientID env)")
    case (Inr w)
    then have "w = - 1"
      using frontier_repr [OF Inr [unfolded lastSeq_frontier] repr_keys(3) [OF rep r]] True by simp
    with Inr room show ?thesis by simp
  qed
  obtain dr where "dup_check P d (RecipientID env) (MsgID env) = Some (dr, d)"
    using dup_check_returns [OF rep r] by blast
  then have "d' = d"
    using res env(1) e by (auto simp: storeMessageWithQuota_def store_new_def split: option.splits sum.splits)
  then show ?thesis using rep evolves_refl by blast
next
  case False
  let ?r = "RecipientID env" and ?sm = "next_message (M (RecipientID env)) now msg env"
  note ref = store_refines [OF rep env False ttl res]
  have "mb_last (M ?r) < StoreSeq ?sm"
    using False word64_le_plus_one [of "mb_last (M ?r)" "mb_last (M ?r) + 1"] by (simp add: next_message_def)
  then have "evolves t M (M(?r := mb_add ?sm (M ?r)))" using evolves_add repr_ok [OF rep] by blast
  then show ?thesis
    using ref rep by (cases res) (auto simp: Let_def split: if_splits intro: exI [of _ M])
qed

lemma ack_step:
  assumes rep: "repr M (view d)" and r: "plain r"
    and res: "AckMessages P defaultAckDeleteBatch poll d r a = Some (u, c, err, d')"
  shows "\<exists>M'. repr M' (view d') \<and> evolves t M M'"
proof (cases "mb_acked (M r) < a \<and> a \<le> mb_delivered (M r)")
  case True
  then have "ack_post M r a 0 u c err (view d')"
    using AckMessages_refines [OF rep r _ res] by (simp add: defaultAckDeleteBatch_def)
  then show ?thesis using evolves_ack unfolding ack_post_def by blast
next
  case False
  then have "d' = d" using AckMessages_refines [OF rep r _ res] by (auto simp: defaultAckDeleteBatch_def split: if_splits)
  then show ?thesis using rep evolves_refl by blast
qed

lemma mark_step:
  assumes rep: "repr M (view d)" and r: "plain r" and res: "MarkDelivered P ctx now d r items = (err, d')"
  shows "\<exists>M'. repr M' (view d') \<and> evolves t M M'"
proof (cases "items = []")
  case True
  then have "d' = d" using res by (auto simp: MarkDelivered_def split: option.splits)
  then show ?thesis using rep evolves_refl by blast
next
  case False
  note marked = mark_refines [OF rep r False res]
  show ?thesis
  proof (cases err)
    case None
    then show ?thesis using marked evolves_mark [of r M, OF repr_ok [OF rep]] by auto
  next
    case (Some e)
    then show ?thesis using marked evolves_refl by auto
  qed
qed

lemma sys_step_inv:
  assumes inv: "sys_inv M s" and step: "sys_step P s s'"
  shows "\<exists>M'. sys_inv M' s' \<and> evolves (sys_now s') M M' \<and> sint (sys_now s) \<le> sint (sys_now s')"
proof -
  have rep: "repr M (view (sys_db s))" using inv by (simp add: sys_inv_def)
  have put: "\<exists>M'. sys_inv M' (s\<lparr>sys_db := d'\<rparr>) \<and> evolves (sys_now (s\<lparr>sys_db := d'\<rparr>)) M M' \<and>
      sint (sys_now s) \<le> sint (sys_now (s\<lparr>sys_db := d'\<rparr>))"
    if "\<exists>M'. repr M' (view d') \<and> evolves (sys_now s) M M'" for d'
    using that sys_inv_evolves [OF inv] by auto
  from step show ?thesis
  proof cases
    case (Store now msg env ctx mm mbytes q res d')
    then show ?thesis using put store_step [OF rep] by blast
  next
    case (Mark r ctx now items err d')
    then show ?thesis using put mark_step [OF rep] by blast
  next
    case (Ack r poll a u c err d')
    then show ?thesis using put ack_step [OF rep] by blast
  next
    case (GcScan now limit es ie poll broke i refs)
    have "\<forall>ref\<in>set refs. ref_live M now ref"
      using gc_scan_selects [OF rep GcScan(3-6)] by (simp add: gc_selects_def)
    then have "\<forall>ref\<in>set refs. ref_held M (sys_now s) ref"
      using ref_live_held_later [OF rep _ GcScan(2)] by blast
    then show ?thesis using inv GcScan(1) by (intro exI [of _ M]) (auto simp: sys_inv_def)
  next
    case (GcDelete ref err d')
    have held: "ref_held M (sys_now s) ref" using inv GcDelete(2) by (simp add: sys_inv_def)
    then have "repr (if err = None then gc_remove ref M else M) (view d')"
      using gc_ref_refines [OF rep _ GcDelete(3)] by (simp add: ref_held_def)
    moreover have "evolves (sys_now s) M (if err = None then gc_remove ref M else M)"
      using evolves_gc [OF held] by simp
    ultimately show ?thesis using put GcDelete(1) by blast
  next
    case (GcForget refs)
    then show ?thesis using inv by (intro exI [of _ M]) (auto simp: sys_inv_def)
  next
    case (Time now)
    then show ?thesis
      using inv ref_held_evolves [OF _ evolves_refl] by (intro exI [of _ M]) (auto simp: sys_inv_def)
  qed
qed

lemma sys_steps_inv:
  assumes "sys_steps P s s'" "sys_inv M s"
  shows "\<exists>M'. sys_inv M' s' \<and> evolves (sys_now s') M M'"
  using assms(1) unfolding sys_steps_def
proof (induction rule: rtranclp_induct)
  case base
  then show ?case using assms(2) evolves_refl by blast
next
  case (step t t')
  then obtain M' where M': "sys_inv M' t" "evolves (sys_now t) M M'" by blast
  obtain M'' where M'': "sys_inv M'' t'" "evolves (sys_now t') M' M''" "sint (sys_now t) \<le> sint (sys_now t')"
    using sys_step_inv [OF M'(1) step.hyps(2)] by blast
  have "\<And>r. mailbox_ok r (M r)" using assms(2) by (auto simp: sys_inv_def)
  from evolves_trans [OF this M'(2) M''(2,3)] M''(1) show ?case by blast
qed

end

end
