(* ===== verification/ChannelTypes.thy ===== *)
theory ChannelTypes
  imports Protocol
begin

text \<open>
  \<open>internal/publicchannel/types.go\<close>: the data of public channels and their JSON form. A
  pointer is an option, a slice is an optional list whose None is the nil slice, and \<open>int\<close>
  and \<open>int64\<close> are 64-bit words. What the database keeps of a channel as JSON text, the avatar
  and the content of messages, is read back as it was written.
\<close>

section \<open>Slices and pointers\<close>

definition enc_ptr :: "('a \<Rightarrow> json) \<Rightarrow> 'a option \<Rightarrow> json" where
  "enc_ptr e p = (case p of None \<Rightarrow> JNull | Some x \<Rightarrow> e x)"

definition enc_slice :: "('a \<Rightarrow> json) \<Rightarrow> 'a list option \<Rightarrow> json" where
  "enc_slice e s = (case s of None \<Rightarrow> JNull | Some xs \<Rightarrow> JArr (map e xs))"

text \<open>
  An array is decoded into the elements that the slice already has, as far as it has them, and
  into zero values after them.
\<close>

fun dec_elems :: "'a \<Rightarrow> ('a \<Rightarrow> json \<Rightarrow> 'a option) \<Rightarrow> 'a list \<Rightarrow> json list \<Rightarrow> 'a list option" where
  "dec_elems zero d cur [] = Some []"
| "dec_elems zero d cur (j # js) =
     (case d (case cur of [] \<Rightarrow> zero | x # _ \<Rightarrow> x) j of
        None \<Rightarrow> None
      | Some y \<Rightarrow> map_option (Cons y) (dec_elems zero d (tl cur) js))"

definition dec_slice :: "'a \<Rightarrow> ('a \<Rightarrow> json \<Rightarrow> 'a option) \<Rightarrow> 'a list option \<Rightarrow> json \<Rightarrow> 'a list option option" where
  "dec_slice zero d cur j =
     (case j of
        JNull \<Rightarrow> Some None
      | JArr js \<Rightarrow> map_option Some (dec_elems zero d (case cur of None \<Rightarrow> [] | Some xs \<Rightarrow> xs) js)
      | _ \<Rightarrow> None)"

section \<open>Types\<close>

record ChannelImage =
  ci_CID :: string
  ci_MediaID :: string
  ci_BlobID :: string
  ci_SHA256 :: string
  ci_URL :: string
  ci_Mime :: string
  ci_Size :: int64
  ci_Width :: int64
  ci_Height :: int64
  ci_Name :: string

record ChannelFile =
  cf_CID :: string
  cf_MediaID :: string
  cf_BlobID :: string
  cf_SHA256 :: string
  cf_URL :: string
  cf_Mime :: string
  cf_Size :: int64
  cf_Name :: string

record ChannelContent =
  cc_Text :: string
  cc_Images :: "ChannelImage list option"
  cc_Files :: "ChannelFile list option"

record ChannelProfile =
  pr_ChannelID :: string
  pr_OwnerPeerID :: string
  pr_OwnerVersion :: int64
  pr_Name :: string
  pr_Avatar :: "ChannelImage option"
  pr_Bio :: string
  pr_MessageRetentionMinutes :: int64
  pr_ProfileVersion :: int64
  pr_CreatedAt :: int64
  pr_UpdatedAt :: int64
  pr_Signature :: string

record ChannelHead =
  hd_ChannelID :: string
  hd_OwnerPeerID :: string
  hd_OwnerVersion :: int64
  hd_LastMessageID :: int64
  hd_ProfileVersion :: int64
  hd_LastSeq :: int64
  hd_UpdatedAt :: int64
  hd_Signature :: string

record ChannelMessage =
  cm_ChannelID :: string
  cm_MessageID :: int64
  cm_Version :: int64
  cm_Seq :: int64
  cm_OwnerVersion :: int64
  cm_CreatorPeerID :: string
  cm_AuthorPeerID :: string
  cm_CreatedAt :: int64
  cm_UpdatedAt :: int64
  cm_IsDeleted :: bool
  cm_MessageType :: string
  cm_Content :: ChannelContent
  cm_Signature :: string

record ChannelChange =
  ch_ChannelID :: string
  ch_Seq :: int64
  ch_ChangeType :: string
  ch_MessageID :: "int64 option"
  ch_Version :: "int64 option"
  ch_IsDeleted :: "bool option"
  ch_ProfileVersion :: "int64 option"
  ch_CreatedAt :: int64

section \<open>JSON objects\<close>

definition enc_ChannelImage :: "ChannelImage \<Rightarrow> json" where
  "enc_ChannelImage x =
     JObj ([(''cid'', JStr (ci_CID x)),
      (''media_id'', JStr (ci_MediaID x)),
      (''blob_id'', JStr (ci_BlobID x)),
      (''sha256'', JStr (ci_SHA256 x)),
      (''url'', JStr (ci_URL x)),
      (''mime'', JStr (ci_Mime x)),
      (''size'', jint (ci_Size x)),
      (''width'', jint (ci_Width x)),
      (''height'', jint (ci_Height x)),
      (''name'', JStr (ci_Name x))])"

definition enc_ChannelFile :: "ChannelFile \<Rightarrow> json" where
  "enc_ChannelFile x =
     JObj ([(''cid'', JStr (cf_CID x)),
      (''media_id'', JStr (cf_MediaID x)),
      (''blob_id'', JStr (cf_BlobID x)),
      (''sha256'', JStr (cf_SHA256 x)),
      (''url'', JStr (cf_URL x)),
      (''mime'', JStr (cf_Mime x)),
      (''size'', jint (cf_Size x)),
      (''name'', JStr (cf_Name x))])"

definition enc_ChannelContent :: "ChannelContent \<Rightarrow> json" where
  "enc_ChannelContent x =
     JObj ([(''text'', JStr (cc_Text x)),
      (''images'', enc_slice enc_ChannelImage (cc_Images x)),
      (''files'', enc_slice enc_ChannelFile (cc_Files x))])"

definition enc_ChannelProfile :: "ChannelProfile \<Rightarrow> json" where
  "enc_ChannelProfile x =
     JObj ([(''channel_id'', JStr (pr_ChannelID x)),
      (''owner_peer_id'', JStr (pr_OwnerPeerID x)),
      (''owner_version'', jint (pr_OwnerVersion x)),
      (''name'', JStr (pr_Name x))]
     @ (case pr_Avatar x of None \<Rightarrow> [] | Some v \<Rightarrow> [(''avatar'', enc_ChannelImage v)])
     @ [(''bio'', JStr (pr_Bio x)),
      (''message_retention_minutes'', jint (pr_MessageRetentionMinutes x)),
      (''profile_version'', jint (pr_ProfileVersion x)),
      (''created_at'', jint (pr_CreatedAt x)),
      (''updated_at'', jint (pr_UpdatedAt x)),
      (''signature'', JStr (pr_Signature x))])"

definition enc_ChannelHead :: "ChannelHead \<Rightarrow> json" where
  "enc_ChannelHead x =
     JObj ([(''channel_id'', JStr (hd_ChannelID x)),
      (''owner_peer_id'', JStr (hd_OwnerPeerID x)),
      (''owner_version'', jint (hd_OwnerVersion x)),
      (''last_message_id'', jint (hd_LastMessageID x)),
      (''profile_version'', jint (hd_ProfileVersion x)),
      (''last_seq'', jint (hd_LastSeq x)),
      (''updated_at'', jint (hd_UpdatedAt x)),
      (''signature'', JStr (hd_Signature x))])"

definition enc_ChannelMessage :: "ChannelMessage \<Rightarrow> json" where
  "enc_ChannelMessage x =
     JObj ([(''channel_id'', JStr (cm_ChannelID x)),
      (''message_id'', jint (cm_MessageID x)),
      (''version'', jint (cm_Version x)),
      (''seq'', jint (cm_Seq x)),
      (''owner_version'', jint (cm_OwnerVersion x)),
      (''creator_peer_id'', JStr (cm_CreatorPeerID x)),
      (''author_peer_id'', JStr (cm_AuthorPeerID x)),
      (''created_at'', jint (cm_CreatedAt x)),
      (''updated_at'', jint (cm_UpdatedAt x)),
      (''is_deleted'', JBool (cm_IsDeleted x)),
      (''message_type'', JStr (cm_MessageType x)),
      (''content'', enc_ChannelContent (cm_Content x)),
      (''signature'', JStr (cm_Signature x))])"

definition enc_ChannelChange :: "ChannelChange \<Rightarrow> json" where
  "enc_ChannelChange x =
     JObj ([(''channel_id'', JStr (ch_ChannelID x)),
      (''seq'', jint (ch_Seq x)),
      (''change_type'', JStr (ch_ChangeType x))]
     @ (case ch_MessageID x of None \<Rightarrow> [] | Some v \<Rightarrow> [(''message_id'', jint v)])
     @ (case ch_Version x of None \<Rightarrow> [] | Some v \<Rightarrow> [(''version'', jint v)])
     @ (case ch_IsDeleted x of None \<Rightarrow> [] | Some v \<Rightarrow> [(''is_deleted'', JBool v)])
     @ (case ch_ProfileVersion x of None \<Rightarrow> [] | Some v \<Rightarrow> [(''profile_version'', jint v)])
     @ [(''created_at'', jint (ch_CreatedAt x))])"

section \<open>Decoding\<close>

definition zero_ChannelImage :: ChannelImage where
  "zero_ChannelImage =
     \<lparr>ci_CID = [], ci_MediaID = [], ci_BlobID = [], ci_SHA256 = [], ci_URL = [], ci_Mime = [], ci_Size = 0, ci_Width = 0, ci_Height = 0, ci_Name = []\<rparr>"

definition field_ChannelImage :: "ChannelImage \<Rightarrow> string \<Rightarrow> json \<Rightarrow> ChannelImage option" where
  "field_ChannelImage x k v =
     (if key_is ''cid'' k then map_option (\<lambda>y. x\<lparr>ci_CID := y\<rparr>) (dec_str (ci_CID x) v)
      else if key_is ''media_id'' k then map_option (\<lambda>y. x\<lparr>ci_MediaID := y\<rparr>) (dec_str (ci_MediaID x) v)
      else if key_is ''blob_id'' k then map_option (\<lambda>y. x\<lparr>ci_BlobID := y\<rparr>) (dec_str (ci_BlobID x) v)
      else if key_is ''sha256'' k then map_option (\<lambda>y. x\<lparr>ci_SHA256 := y\<rparr>) (dec_str (ci_SHA256 x) v)
      else if key_is ''url'' k then map_option (\<lambda>y. x\<lparr>ci_URL := y\<rparr>) (dec_str (ci_URL x) v)
      else if key_is ''mime'' k then map_option (\<lambda>y. x\<lparr>ci_Mime := y\<rparr>) (dec_str (ci_Mime x) v)
      else if key_is ''size'' k then map_option (\<lambda>y. x\<lparr>ci_Size := y\<rparr>) (dec_int (ci_Size x) v)
      else if key_is ''width'' k then map_option (\<lambda>y. x\<lparr>ci_Width := y\<rparr>) (dec_int (ci_Width x) v)
      else if key_is ''height'' k then map_option (\<lambda>y. x\<lparr>ci_Height := y\<rparr>) (dec_int (ci_Height x) v)
      else if key_is ''name'' k then map_option (\<lambda>y. x\<lparr>ci_Name := y\<rparr>) (dec_str (ci_Name x) v)
      else Some x)"

definition dec_ChannelImage :: "ChannelImage \<Rightarrow> json \<Rightarrow> ChannelImage option" where
  "dec_ChannelImage = dec_struct field_ChannelImage"

definition zero_ChannelFile :: ChannelFile where
  "zero_ChannelFile =
     \<lparr>cf_CID = [], cf_MediaID = [], cf_BlobID = [], cf_SHA256 = [], cf_URL = [], cf_Mime = [], cf_Size = 0, cf_Name = []\<rparr>"

definition field_ChannelFile :: "ChannelFile \<Rightarrow> string \<Rightarrow> json \<Rightarrow> ChannelFile option" where
  "field_ChannelFile x k v =
     (if key_is ''cid'' k then map_option (\<lambda>y. x\<lparr>cf_CID := y\<rparr>) (dec_str (cf_CID x) v)
      else if key_is ''media_id'' k then map_option (\<lambda>y. x\<lparr>cf_MediaID := y\<rparr>) (dec_str (cf_MediaID x) v)
      else if key_is ''blob_id'' k then map_option (\<lambda>y. x\<lparr>cf_BlobID := y\<rparr>) (dec_str (cf_BlobID x) v)
      else if key_is ''sha256'' k then map_option (\<lambda>y. x\<lparr>cf_SHA256 := y\<rparr>) (dec_str (cf_SHA256 x) v)
      else if key_is ''url'' k then map_option (\<lambda>y. x\<lparr>cf_URL := y\<rparr>) (dec_str (cf_URL x) v)
      else if key_is ''mime'' k then map_option (\<lambda>y. x\<lparr>cf_Mime := y\<rparr>) (dec_str (cf_Mime x) v)
      else if key_is ''size'' k then map_option (\<lambda>y. x\<lparr>cf_Size := y\<rparr>) (dec_int (cf_Size x) v)
      else if key_is ''name'' k then map_option (\<lambda>y. x\<lparr>cf_Name := y\<rparr>) (dec_str (cf_Name x) v)
      else Some x)"

definition dec_ChannelFile :: "ChannelFile \<Rightarrow> json \<Rightarrow> ChannelFile option" where
  "dec_ChannelFile = dec_struct field_ChannelFile"

definition zero_ChannelContent :: ChannelContent where
  "zero_ChannelContent =
     \<lparr>cc_Text = [], cc_Images = None, cc_Files = None\<rparr>"

definition field_ChannelContent :: "ChannelContent \<Rightarrow> string \<Rightarrow> json \<Rightarrow> ChannelContent option" where
  "field_ChannelContent x k v =
     (if key_is ''text'' k then map_option (\<lambda>y. x\<lparr>cc_Text := y\<rparr>) (dec_str (cc_Text x) v)
      else if key_is ''images'' k then map_option (\<lambda>y. x\<lparr>cc_Images := y\<rparr>) (dec_slice zero_ChannelImage dec_ChannelImage (cc_Images x) v)
      else if key_is ''files'' k then map_option (\<lambda>y. x\<lparr>cc_Files := y\<rparr>) (dec_slice zero_ChannelFile dec_ChannelFile (cc_Files x) v)
      else Some x)"

definition dec_ChannelContent :: "ChannelContent \<Rightarrow> json \<Rightarrow> ChannelContent option" where
  "dec_ChannelContent = dec_struct field_ChannelContent"

definition zero_ChannelProfile :: ChannelProfile where
  "zero_ChannelProfile =
     \<lparr>pr_ChannelID = [], pr_OwnerPeerID = [], pr_OwnerVersion = 0, pr_Name = [], pr_Avatar = None, pr_Bio = [], pr_MessageRetentionMinutes = 0, pr_ProfileVersion = 0, pr_CreatedAt = 0, pr_UpdatedAt = 0, pr_Signature = []\<rparr>"

definition field_ChannelProfile :: "ChannelProfile \<Rightarrow> string \<Rightarrow> json \<Rightarrow> ChannelProfile option" where
  "field_ChannelProfile x k v =
     (if key_is ''channel_id'' k then map_option (\<lambda>y. x\<lparr>pr_ChannelID := y\<rparr>) (dec_str (pr_ChannelID x) v)
      else if key_is ''owner_peer_id'' k then map_option (\<lambda>y. x\<lparr>pr_OwnerPeerID := y\<rparr>) (dec_str (pr_OwnerPeerID x) v)
      else if key_is ''owner_version'' k then map_option (\<lambda>y. x\<lparr>pr_OwnerVersion := y\<rparr>) (dec_int (pr_OwnerVersion x) v)
      else if key_is ''name'' k then map_option (\<lambda>y. x\<lparr>pr_Name := y\<rparr>) (dec_str (pr_Name x) v)
      else if key_is ''avatar'' k then map_option (\<lambda>y. x\<lparr>pr_Avatar := y\<rparr>) (dec_ptr zero_ChannelImage dec_ChannelImage (pr_Avatar x) v)
      else if key_is ''bio'' k then map_option (\<lambda>y. x\<lparr>pr_Bio := y\<rparr>) (dec_str (pr_Bio x) v)
      else if key_is ''message_retention_minutes'' k then map_option (\<lambda>y. x\<lparr>pr_MessageRetentionMinutes := y\<rparr>) (dec_int (pr_MessageRetentionMinutes x) v)
      else if key_is ''profile_version'' k then map_option (\<lambda>y. x\<lparr>pr_ProfileVersion := y\<rparr>) (dec_int (pr_ProfileVersion x) v)
      else if key_is ''created_at'' k then map_option (\<lambda>y. x\<lparr>pr_CreatedAt := y\<rparr>) (dec_int (pr_CreatedAt x) v)
      else if key_is ''updated_at'' k then map_option (\<lambda>y. x\<lparr>pr_UpdatedAt := y\<rparr>) (dec_int (pr_UpdatedAt x) v)
      else if key_is ''signature'' k then map_option (\<lambda>y. x\<lparr>pr_Signature := y\<rparr>) (dec_str (pr_Signature x) v)
      else Some x)"

definition dec_ChannelProfile :: "ChannelProfile \<Rightarrow> json \<Rightarrow> ChannelProfile option" where
  "dec_ChannelProfile = dec_struct field_ChannelProfile"

definition zero_ChannelHead :: ChannelHead where
  "zero_ChannelHead =
     \<lparr>hd_ChannelID = [], hd_OwnerPeerID = [], hd_OwnerVersion = 0, hd_LastMessageID = 0, hd_ProfileVersion = 0, hd_LastSeq = 0, hd_UpdatedAt = 0, hd_Signature = []\<rparr>"

definition field_ChannelHead :: "ChannelHead \<Rightarrow> string \<Rightarrow> json \<Rightarrow> ChannelHead option" where
  "field_ChannelHead x k v =
     (if key_is ''channel_id'' k then map_option (\<lambda>y. x\<lparr>hd_ChannelID := y\<rparr>) (dec_str (hd_ChannelID x) v)
      else if key_is ''owner_peer_id'' k then map_option (\<lambda>y. x\<lparr>hd_OwnerPeerID := y\<rparr>) (dec_str (hd_OwnerPeerID x) v)
      else if key_is ''owner_version'' k then map_option (\<lambda>y. x\<lparr>hd_OwnerVersion := y\<rparr>) (dec_int (hd_OwnerVersion x) v)
      else if key_is ''last_message_id'' k then map_option (\<lambda>y. x\<lparr>hd_LastMessageID := y\<rparr>) (dec_int (hd_LastMessageID x) v)
      else if key_is ''profile_version'' k then map_option (\<lambda>y. x\<lparr>hd_ProfileVersion := y\<rparr>) (dec_int (hd_ProfileVersion x) v)
      else if key_is ''last_seq'' k then map_option (\<lambda>y. x\<lparr>hd_LastSeq := y\<rparr>) (dec_int (hd_LastSeq x) v)
      else if key_is ''updated_at'' k then map_option (\<lambda>y. x\<lparr>hd_UpdatedAt := y\<rparr>) (dec_int (hd_UpdatedAt x) v)
      else if key_is ''signature'' k then map_option (\<lambda>y. x\<lparr>hd_Signature := y\<rparr>) (dec_str (hd_Signature x) v)
      else Some x)"

definition dec_ChannelHead :: "ChannelHead \<Rightarrow> json \<Rightarrow> ChannelHead option" where
  "dec_ChannelHead = dec_struct field_ChannelHead"

definition zero_ChannelMessage :: ChannelMessage where
  "zero_ChannelMessage =
     \<lparr>cm_ChannelID = [], cm_MessageID = 0, cm_Version = 0, cm_Seq = 0, cm_OwnerVersion = 0, cm_CreatorPeerID = [], cm_AuthorPeerID = [], cm_CreatedAt = 0, cm_UpdatedAt = 0, cm_IsDeleted = False, cm_MessageType = [], cm_Content = zero_ChannelContent, cm_Signature = []\<rparr>"

definition field_ChannelMessage :: "ChannelMessage \<Rightarrow> string \<Rightarrow> json \<Rightarrow> ChannelMessage option" where
  "field_ChannelMessage x k v =
     (if key_is ''channel_id'' k then map_option (\<lambda>y. x\<lparr>cm_ChannelID := y\<rparr>) (dec_str (cm_ChannelID x) v)
      else if key_is ''message_id'' k then map_option (\<lambda>y. x\<lparr>cm_MessageID := y\<rparr>) (dec_int (cm_MessageID x) v)
      else if key_is ''version'' k then map_option (\<lambda>y. x\<lparr>cm_Version := y\<rparr>) (dec_int (cm_Version x) v)
      else if key_is ''seq'' k then map_option (\<lambda>y. x\<lparr>cm_Seq := y\<rparr>) (dec_int (cm_Seq x) v)
      else if key_is ''owner_version'' k then map_option (\<lambda>y. x\<lparr>cm_OwnerVersion := y\<rparr>) (dec_int (cm_OwnerVersion x) v)
      else if key_is ''creator_peer_id'' k then map_option (\<lambda>y. x\<lparr>cm_CreatorPeerID := y\<rparr>) (dec_str (cm_CreatorPeerID x) v)
      else if key_is ''author_peer_id'' k then map_option (\<lambda>y. x\<lparr>cm_AuthorPeerID := y\<rparr>) (dec_str (cm_AuthorPeerID x) v)
      else if key_is ''created_at'' k then map_option (\<lambda>y. x\<lparr>cm_CreatedAt := y\<rparr>) (dec_int (cm_CreatedAt x) v)
      else if key_is ''updated_at'' k then map_option (\<lambda>y. x\<lparr>cm_UpdatedAt := y\<rparr>) (dec_int (cm_UpdatedAt x) v)
      else if key_is ''is_deleted'' k then map_option (\<lambda>y. x\<lparr>cm_IsDeleted := y\<rparr>) (dec_bool (cm_IsDeleted x) v)
      else if key_is ''message_type'' k then map_option (\<lambda>y. x\<lparr>cm_MessageType := y\<rparr>) (dec_str (cm_MessageType x) v)
      else if key_is ''content'' k then map_option (\<lambda>y. x\<lparr>cm_Content := y\<rparr>) (dec_ChannelContent (cm_Content x) v)
      else if key_is ''signature'' k then map_option (\<lambda>y. x\<lparr>cm_Signature := y\<rparr>) (dec_str (cm_Signature x) v)
      else Some x)"

definition dec_ChannelMessage :: "ChannelMessage \<Rightarrow> json \<Rightarrow> ChannelMessage option" where
  "dec_ChannelMessage = dec_struct field_ChannelMessage"

definition zero_ChannelChange :: ChannelChange where
  "zero_ChannelChange =
     \<lparr>ch_ChannelID = [], ch_Seq = 0, ch_ChangeType = [], ch_MessageID = None, ch_Version = None, ch_IsDeleted = None, ch_ProfileVersion = None, ch_CreatedAt = 0\<rparr>"

definition field_ChannelChange :: "ChannelChange \<Rightarrow> string \<Rightarrow> json \<Rightarrow> ChannelChange option" where
  "field_ChannelChange x k v =
     (if key_is ''channel_id'' k then map_option (\<lambda>y. x\<lparr>ch_ChannelID := y\<rparr>) (dec_str (ch_ChannelID x) v)
      else if key_is ''seq'' k then map_option (\<lambda>y. x\<lparr>ch_Seq := y\<rparr>) (dec_int (ch_Seq x) v)
      else if key_is ''change_type'' k then map_option (\<lambda>y. x\<lparr>ch_ChangeType := y\<rparr>) (dec_str (ch_ChangeType x) v)
      else if key_is ''message_id'' k then map_option (\<lambda>y. x\<lparr>ch_MessageID := y\<rparr>) (dec_ptr 0 dec_int (ch_MessageID x) v)
      else if key_is ''version'' k then map_option (\<lambda>y. x\<lparr>ch_Version := y\<rparr>) (dec_ptr 0 dec_int (ch_Version x) v)
      else if key_is ''is_deleted'' k then map_option (\<lambda>y. x\<lparr>ch_IsDeleted := y\<rparr>) (dec_ptr False dec_bool (ch_IsDeleted x) v)
      else if key_is ''profile_version'' k then map_option (\<lambda>y. x\<lparr>ch_ProfileVersion := y\<rparr>) (dec_ptr 0 dec_int (ch_ProfileVersion x) v)
      else if key_is ''created_at'' k then map_option (\<lambda>y. x\<lparr>ch_CreatedAt := y\<rparr>) (dec_int (ch_CreatedAt x) v)
      else Some x)"

definition dec_ChannelChange :: "ChannelChange \<Rightarrow> json \<Rightarrow> ChannelChange option" where
  "dec_ChannelChange = dec_struct field_ChannelChange"

section \<open>Reading back\<close>

lemma fold_key_channel [json_simps]:
  "fold_key ''cid'' = ''CID''" "fold_key ''media_id'' = ''MEDIA_ID''" "fold_key ''blob_id'' = ''BLOB_ID''"
  "fold_key ''sha256'' = ''SHA256''" "fold_key ''url'' = ''URL''" "fold_key ''mime'' = ''MIME''"
  "fold_key ''size'' = ''SIZE''" "fold_key ''width'' = ''WIDTH''" "fold_key ''height'' = ''HEIGHT''"
  "fold_key ''name'' = ''NAME''" "fold_key ''text'' = ''TEXT''" "fold_key ''images'' = ''IMAGES''"
  "fold_key ''files'' = ''FILES''"
  by code_simp+

lemma utf8_valid_channel_names [simp]:
  "utf8_valid ''cid''" "utf8_valid ''media_id''" "utf8_valid ''blob_id''" "utf8_valid ''sha256''"
  "utf8_valid ''url''" "utf8_valid ''mime''" "utf8_valid ''size''" "utf8_valid ''width''"
  "utf8_valid ''height''" "utf8_valid ''name''" "utf8_valid ''text''" "utf8_valid ''images''"
  "utf8_valid ''files''"
  by (rule ascii_utf8_valid, simp add: is_ascii_def)+

lemma dec_enc_Image [json_simps]: "dec_ChannelImage c (enc_ChannelImage x) = Some x"
  by (simp add: dec_ChannelImage_def enc_ChannelImage_def field_ChannelImage_def key_is_def json_simps)

lemma dec_enc_File [json_simps]: "dec_ChannelFile c (enc_ChannelFile x) = Some x"
  by (simp add: dec_ChannelFile_def enc_ChannelFile_def field_ChannelFile_def key_is_def json_simps)

lemma dec_elems_map:
  assumes "\<And>c x. d c (e x) = Some x"
  shows "dec_elems z d cur (map e xs) = Some xs"
  by (induction xs arbitrary: cur) (simp_all add: assms)

lemma dec_enc_slice:
  assumes "\<And>c x. d c (e x) = Some x"
  shows "dec_slice z d c (enc_slice e s) = Some s"
  by (cases s) (simp_all add: enc_slice_def dec_slice_def dec_elems_map [OF assms])

lemma dec_enc_Content [json_simps]: "dec_ChannelContent c (enc_ChannelContent x) = Some x"
  by (simp add: dec_ChannelContent_def enc_ChannelContent_def field_ChannelContent_def key_is_def json_simps
      dec_enc_slice dec_enc_Image dec_enc_File)

text \<open>Texts are valid UTF-8, as everything decoded from JSON is.\<close>

definition wf_ChannelImage :: "ChannelImage \<Rightarrow> bool" where
  "wf_ChannelImage x \<longleftrightarrow> utf8_valid (ci_CID x) \<and> utf8_valid (ci_MediaID x) \<and> utf8_valid (ci_BlobID x) \<and>
     utf8_valid (ci_SHA256 x) \<and> utf8_valid (ci_URL x) \<and> utf8_valid (ci_Mime x) \<and> utf8_valid (ci_Name x)"

definition wf_ChannelFile :: "ChannelFile \<Rightarrow> bool" where
  "wf_ChannelFile x \<longleftrightarrow> utf8_valid (cf_CID x) \<and> utf8_valid (cf_MediaID x) \<and> utf8_valid (cf_BlobID x) \<and>
     utf8_valid (cf_SHA256 x) \<and> utf8_valid (cf_URL x) \<and> utf8_valid (cf_Mime x) \<and> utf8_valid (cf_Name x)"

definition elems :: "'a list option \<Rightarrow> 'a list" where
  "elems s = (case s of None \<Rightarrow> [] | Some xs \<Rightarrow> xs)"

definition wf_ChannelContent :: "ChannelContent \<Rightarrow> bool" where
  "wf_ChannelContent x \<longleftrightarrow> utf8_valid (cc_Text x) \<and> (\<forall>i\<in>set (elems (cc_Images x)). wf_ChannelImage i) \<and>
     (\<forall>f\<in>set (elems (cc_Files x)). wf_ChannelFile f)"

lemma wf_enc_Image: "wf_ChannelImage x \<Longrightarrow> wf_json (enc_ChannelImage x)"
  by (simp add: wf_ChannelImage_def enc_ChannelImage_def)

lemma wf_enc_File: "wf_ChannelFile x \<Longrightarrow> wf_json (enc_ChannelFile x)"
  by (simp add: wf_ChannelFile_def enc_ChannelFile_def)

lemma depth_enc_Image: "json_depth (enc_ChannelImage x) = 1"
  by (simp add: enc_ChannelImage_def)

lemma depth_enc_File: "json_depth (enc_ChannelFile x) = 1"
  by (simp add: enc_ChannelFile_def)

lemma wf_enc_slice: "(\<forall>x\<in>set (elems s). wf_json (e x)) \<Longrightarrow> wf_json (enc_slice e s)"
  by (cases s) (simp_all add: enc_slice_def elems_def)

lemma depth_enc_slice: "(\<And>x. json_depth (e x) \<le> n) \<Longrightarrow> json_depth (enc_slice e s) \<le> Suc n"
  by (cases s) (auto simp: enc_slice_def)

lemma wf_enc_Content: "wf_ChannelContent x \<Longrightarrow> wf_json (enc_ChannelContent x)"
  by (simp add: wf_ChannelContent_def enc_ChannelContent_def wf_enc_slice wf_enc_Image wf_enc_File)

lemma depth_enc_Content: "json_depth (enc_ChannelContent x) \<le> 3"
proof -
  have "json_depth (enc_slice enc_ChannelImage (cc_Images x)) \<le> Suc 1"
      "json_depth (enc_slice enc_ChannelFile (cc_Files x)) \<le> Suc 1"
    by (rule depth_enc_slice, simp add: depth_enc_Image depth_enc_File)+
  then show ?thesis by (simp add: enc_ChannelContent_def)
qed

lemma unmarshal_Content:
  "wf_ChannelContent x \<Longrightarrow> unmarshal zero_ChannelContent dec_ChannelContent (json_print (enc_ChannelContent x)) = Inr x"
  using depth_enc_Content [of x]
  by (simp add: unmarshal_def json_parse_print wf_enc_Content max_nesting_def json_simps)

lemma unmarshal_Image:
  "wf_ChannelImage x \<Longrightarrow> unmarshal zero_ChannelImage dec_ChannelImage (json_print (enc_ChannelImage x)) = Inr x"
  by (simp add: unmarshal_def json_parse_print wf_enc_Image depth_enc_Image max_nesting_def json_simps)

end
