(* ===== verification/ChannelCanonical.thy ===== *)
theory ChannelCanonical
  imports ChannelTypes Auth
begin

text \<open>
  \<open>internal/publicchannel/canonical.go\<close>, \<open>verify.go\<close> and \<open>uuid.go\<close>: the bytes that the
  signatures of a channel's profile, head and messages cover, their verification, and the form
  of channel ids. The content of a message passes through JSON numbers decoded as 64-bit floats
  on its way into the signed bytes, which is modelled with the rounding of the float and the
  shortest decimal form that \<open>strconv\<close> prints.
\<close>

section \<open>Integers that pass through a 64-bit float\<close>

text \<open>The weight of the last of 53 significant bits, as a power of two.\<close>

fun f64_exp :: "nat \<Rightarrow> nat" where
  "f64_exp n = (if n < 2 ^ 53 then 0 else Suc (f64_exp (n div 2)))"

declare f64_exp.simps [simp del]

text \<open>The nearest float, ties to the even mantissa.\<close>

definition f64_round :: "nat \<Rightarrow> nat" where
  "f64_round n =
     (let u = 2 ^ f64_exp n; q = n div u; r = n mod u
      in (if u < 2 * r \<or> 2 * r = u \<and> odd q then Suc q else q) * u)"

text \<open>
  The shortest decimal that reads back as the float \<open>v\<close>: the multiple of the greatest power
  of ten, up to \<open>10^j\<close>, that rounds to \<open>v\<close>, and of two such multiples the nearer one.
\<close>

fun f64_short :: "nat \<Rightarrow> nat \<Rightarrow> nat" where
  "f64_short 0 v = v"
| "f64_short (Suc j) v =
     (let p = 10 ^ Suc j; lo = v div p * p; hi = lo + p
      in if f64_round lo = v \<and> (f64_round hi \<noteq> v \<or> v - lo \<le> hi - v) then lo
         else if f64_round hi = v then hi
         else f64_short j v)"

definition f64_num :: "string \<Rightarrow> string" where
  "f64_num s =
     (case strip_sign s of
        (neg, ds) \<Rightarrow>
          (let v = int (f64_short 20 (f64_round (digits_val ds)))
           in fmt_int (if neg then - v else v)))"

text \<open>\<open>json.Unmarshal\<close> into an empty interface and back: the content holds no objects.\<close>

fun f64_json :: "json \<Rightarrow> json" where
  "f64_json (JNum s) = JNum (f64_num s)"
| "f64_json (JArr js) = JArr (map f64_json js)"
| "f64_json j = j"

section \<open>Canonical bytes\<close>

definition errNilProfile :: goerr where "errNilProfile = FmtError ''channel profile is nil''"
definition errNilHead :: goerr where "errNilHead = FmtError ''channel head is nil''"
definition errNilMessage :: goerr where "errNilMessage = FmtError ''channel message is nil''"

definition canonicalImage :: "ChannelImage option \<Rightarrow> json" where
  "canonicalImage img =
     (case img of
        None \<Rightarrow> JNull
      | Some i \<Rightarrow>
          JArr [JStr (ci_CID i), JStr (ci_MediaID i), JStr (ci_BlobID i), JStr (ci_SHA256 i), JStr (ci_URL i),
                JStr (ci_Mime i), jint (ci_Size i), jint (ci_Width i), jint (ci_Height i), JStr (ci_Name i)])"

definition canonicalFile :: "ChannelFile option \<Rightarrow> json" where
  "canonicalFile f =
     (case f of
        None \<Rightarrow> JNull
      | Some x \<Rightarrow>
          JArr [JStr (cf_CID x), JStr (cf_MediaID x), JStr (cf_BlobID x), JStr (cf_SHA256 x), JStr (cf_URL x),
                JStr (cf_Mime x), jint (cf_Size x), JStr (cf_Name x)])"

definition canonical_content :: "ChannelContent \<Rightarrow> json" where
  "canonical_content c =
     JArr [JStr (cc_Text c), JArr (map (\<lambda>i. canonicalImage (Some i)) (elems (cc_Images c))),
           JArr (map (\<lambda>f. canonicalFile (Some f)) (elems (cc_Files c)))]"

definition canonicalContent :: "ChannelContent \<Rightarrow> bytes" where
  "canonicalContent c = json_print (canonical_content c)"

definition canonical_profile :: "ChannelProfile \<Rightarrow> json" where
  "canonical_profile p =
     JArr [JStr (pr_ChannelID p), JStr (pr_OwnerPeerID p), jint (pr_OwnerVersion p), JStr (pr_Name p),
           canonicalImage (pr_Avatar p), JStr (pr_Bio p), jint (pr_ProfileVersion p), jint (pr_CreatedAt p),
           jint (pr_UpdatedAt p)]"

definition CanonicalProfile :: "ChannelProfile option \<Rightarrow> bytes res" where
  "CanonicalProfile p =
     (case p of None \<Rightarrow> Inl errNilProfile | Some x \<Rightarrow> Inr (json_print (canonical_profile x)))"

definition canonical_head :: "ChannelHead \<Rightarrow> json" where
  "canonical_head h =
     JArr [JStr (hd_ChannelID h), JStr (hd_OwnerPeerID h), jint (hd_OwnerVersion h), jint (hd_LastMessageID h),
           jint (hd_ProfileVersion h), jint (hd_LastSeq h), jint (hd_UpdatedAt h)]"

definition CanonicalHead :: "ChannelHead option \<Rightarrow> bytes res" where
  "CanonicalHead h =
     (case h of None \<Rightarrow> Inl errNilHead | Some x \<Rightarrow> Inr (json_print (canonical_head x)))"

definition canonical_message :: "ChannelMessage \<Rightarrow> json \<Rightarrow> json" where
  "canonical_message m contentVal =
     JArr [JStr (cm_ChannelID m), jint (cm_MessageID m), jint (cm_Version m), jint (cm_Seq m),
           jint (cm_OwnerVersion m), JStr (cm_CreatorPeerID m), JStr (cm_AuthorPeerID m), jint (cm_CreatedAt m),
           jint (cm_UpdatedAt m), JBool (cm_IsDeleted m), JStr (cm_MessageType m), contentVal]"

definition CanonicalMessage :: "ChannelMessage option \<Rightarrow> bytes res" where
  "CanonicalMessage m =
     (case m of
        None \<Rightarrow> Inl errNilMessage
      | Some x \<Rightarrow>
          (case json_parse (canonicalContent (cm_Content x)) of
             None \<Rightarrow> Inl JsonError
           | Some j \<Rightarrow> Inr (json_print (canonical_message x (f64_json j)))))"

section \<open>Verification\<close>

definition verifyPeerSignature ::
  "('pid, 'key) libp2p \<Rightarrow> string \<Rightarrow> bytes \<Rightarrow> string \<Rightarrow> goerr option" where
  "verifyPeerSignature L ownerPeerID payload signatureB64 =
     (if signatureB64 = [] then Some (AppError CodeInvalidSignature ''signature is required'')
      else case peer_Decode L ownerPeerID of
             Inl _ \<Rightarrow> Some (AppError CodeInvalidSignature ''invalid owner_peer_id'')
           | Inr pid \<Rightarrow>
               (case ExtractPublicKey L pid of
                  Inl _ \<Rightarrow> Some (AppError CodeInvalidSignature ''owner public key not available'')
                | Inr pubKey \<Rightarrow>
                    (case base64_DecodeString signatureB64 of
                       None \<Rightarrow> Some (AppError CodeInvalidSignature ''invalid signature encoding'')
                     | Some sig \<Rightarrow>
                         (case key_Verify L pubKey payload sig of
                            Inl _ \<Rightarrow> Some (AppError CodeInvalidSignature ''signature verification failed'')
                          | Inr ok \<Rightarrow>
                              if ok then None
                              else Some (AppError CodeInvalidSignature ''signature verification failed'')))))"

text \<open>The error texts of the library are the parameter \<open>txt\<close>.\<close>

definition VerifyProfile ::
  "('pid, 'key) libp2p \<Rightarrow> (goerr \<Rightarrow> string) \<Rightarrow> ChannelProfile option \<Rightarrow> goerr option" where
  "VerifyProfile L txt p =
     (case p of
        None \<Rightarrow> Some (AppError CodeInvalidPayload ''profile is required'')
      | Some x \<Rightarrow>
          (case CanonicalProfile p of
             Inl err \<Rightarrow> Some (AppError CodeInvalidPayload (Error txt err))
           | Inr payload \<Rightarrow> verifyPeerSignature L (pr_OwnerPeerID x) payload (pr_Signature x)))"

definition VerifyHead ::
  "('pid, 'key) libp2p \<Rightarrow> (goerr \<Rightarrow> string) \<Rightarrow> ChannelHead option \<Rightarrow> goerr option" where
  "VerifyHead L txt h =
     (case h of
        None \<Rightarrow> Some (AppError CodeInvalidPayload ''head is required'')
      | Some x \<Rightarrow>
          (case CanonicalHead h of
             Inl err \<Rightarrow> Some (AppError CodeInvalidPayload (Error txt err))
           | Inr payload \<Rightarrow> verifyPeerSignature L (hd_OwnerPeerID x) payload (hd_Signature x)))"

definition VerifyMessage ::
  "('pid, 'key) libp2p \<Rightarrow> (goerr \<Rightarrow> string) \<Rightarrow> string \<Rightarrow> ChannelMessage option \<Rightarrow> goerr option" where
  "VerifyMessage L txt ownerPeerID m =
     (case m of
        None \<Rightarrow> Some (AppError CodeInvalidPayload ''message is nil'')
      | Some x \<Rightarrow>
          if cm_AuthorPeerID x \<noteq> ownerPeerID
          then Some (AppError CodeUnauthorized ''author_peer_id must equal owner in v1'')
          else if cm_OwnerVersion x \<noteq> 1
          then Some (AppError CodeInvalidPayload ''owner_version must be 1 in v1'')
          else (case CanonicalMessage m of
                  Inl err \<Rightarrow> Some (AppError CodeInvalidPayload (Error txt err))
                | Inr payload \<Rightarrow> verifyPeerSignature L ownerPeerID payload (cm_Signature x)))"

section \<open>Channel ids\<close>

text \<open>The library \<open>google/uuid\<close>: parsing, and the version of what was parsed.\<close>

record 'u uuid =
  uuid_Parse :: "string \<Rightarrow> 'u res"
  uuid_Version :: "'u \<Rightarrow> nat"

definition ValidateChannelID :: "'u uuid \<Rightarrow> string \<Rightarrow> goerr option" where
  "ValidateChannelID U i =
     (case uuid_Parse U i of
        Inl _ \<Rightarrow> Some (AppError CodeInvalidPayload ''invalid channel_id'')
      | Inr u \<Rightarrow>
          if uuid_Version U u \<noteq> 7 then Some (AppError CodeInvalidPayload ''channel_id must be UUIDv7'')
          else None)"

section \<open>What the signed bytes determine\<close>

lemma f64_exp_mantissa: "n div 2 ^ f64_exp n < 2 ^ 53 \<and> (2 ^ 53 \<le> n \<longrightarrow> 0 < f64_exp n \<and> 2 ^ 52 \<le> n div 2 ^ f64_exp n)"
proof (induction n rule: f64_exp.induct)
  case (1 n)
  show ?case
  proof (cases "n < 2 ^ 53")
    case True
    then show ?thesis by (simp add: f64_exp.simps [of n])
  next
    case False
    have step: "f64_exp n = Suc (f64_exp (n div 2))" using False by (simp add: f64_exp.simps [of n])
    have "n div 2 ^ f64_exp n = n div 2 div 2 ^ f64_exp (n div 2)" unfolding step by (simp add: div_mult2_eq)
    moreover have "2 ^ 52 \<le> n div 2 div 2 ^ f64_exp (n div 2)"
    proof (cases "n div 2 < 2 ^ 53")
      case True
      then have "f64_exp (n div 2) = 0" by (simp add: f64_exp.simps [of "n div 2"])
      then show ?thesis using False by simp
    qed (use 1 [OF False] in simp)
    ultimately show ?thesis using 1 [OF False] step by simp
  qed
qed

lemma f64_round_small: "n < 2 ^ 53 \<Longrightarrow> f64_round n = n"
  by (simp add: f64_round_def f64_exp.simps [of n])

lemma f64_round_large: "2 ^ 53 \<le> n \<Longrightarrow> 2 ^ 53 \<le> f64_round n"
proof -
  assume n: "2 ^ 53 \<le> n"
  let ?u = "2 ^ f64_exp n :: nat" and ?q = "n div 2 ^ f64_exp n"
  have m: "0 < f64_exp n" "2 ^ 52 \<le> ?q" using f64_exp_mantissa [of n] n by auto
  then obtain k where "f64_exp n = Suc k" by (cases "f64_exp n") auto
  then have "2 \<le> ?u" by simp
  with m(2) have "2 ^ 52 * 2 \<le> ?q * ?u" by (intro mult_le_mono)
  also have "?q * ?u \<le> f64_round n" unfolding f64_round_def Let_def by (intro mult_right_mono) auto
  finally show ?thesis by simp
qed

lemma f64_round_eq_small: "v < 2 ^ 53 \<Longrightarrow> f64_round n = v \<longleftrightarrow> n = v"
  by (metis f64_round_small f64_round_large not_less)

lemma f64_short_small: "v < 2 ^ 53 \<Longrightarrow> f64_short j v = v"
proof (induction j)
  case (Suc j)
  let ?p = "10 ^ Suc j :: nat"
  have "v mod ?p < ?p" by (rule mod_less_divisor) simp
  moreover have "v div ?p * ?p + v mod ?p = v" by (rule div_mult_mod_eq)
  ultimately have hi: "v div ?p * ?p + ?p \<noteq> v" by linarith
  have "f64_short (Suc j) v =
      (if v div ?p * ?p = v \<and> (v div ?p * ?p + ?p \<noteq> v \<or> v - v div ?p * ?p \<le> v div ?p * ?p + ?p - v)
       then v div ?p * ?p else if v div ?p * ?p + ?p = v then v div ?p * ?p + ?p else f64_short j v)"
    unfolding f64_short.simps Let_def f64_round_eq_small [OF Suc.prems] by (rule refl)
  with hi Suc show ?case by metis
qed simp

lemma strip_sign_fmt_int: "strip_sign (fmt_int i) = (i < 0, fmt_nat (nat \<bar>i\<bar>))"
  by (simp add: fmt_int_def all_digits_no_sign) (simp add: strip_sign_def)

lemma fmt_int_inj: "fmt_int i = fmt_int j \<Longrightarrow> i = j"
proof -
  assume "fmt_int i = fmt_int j"
  then have "strip_sign (fmt_int i) = strip_sign (fmt_int j)" by (rule arg_cong)
  then have sg: "i < 0 \<longleftrightarrow> j < 0" and "fmt_nat (nat \<bar>i\<bar>) = fmt_nat (nat \<bar>j\<bar>)"
    by (simp_all add: strip_sign_fmt_int)
  then have "digits_val (fmt_nat (nat \<bar>i\<bar>)) = digits_val (fmt_nat (nat \<bar>j\<bar>))" by simp
  then have "nat \<bar>i\<bar> = nat \<bar>j\<bar>" by (simp only: digits_val_fmt_nat)
  with sg show "i = j" by linarith
qed

lemma f64_num_small: "\<bar>i\<bar> < 2 ^ 53 \<Longrightarrow> f64_num (fmt_int i) = fmt_int i"
proof -
  assume i: "\<bar>i\<bar> < 2 ^ 53"
  then have "nat \<bar>i\<bar> < 2 ^ 53" by simp
  then have v: "f64_short 20 (f64_round (nat \<bar>i\<bar>)) = nat \<bar>i\<bar>" by (simp add: f64_round_small f64_short_small)
  show ?thesis
    unfolding f64_num_def strip_sign_fmt_int prod.case digits_val_fmt_nat v Let_def by (simp add: fmt_int_def)
qed

text \<open>The first two numbers that a float does not tell apart.\<close>

lemma f64_num_collision: "f64_num (fmt_int 9007199254740993) = f64_num (fmt_int 9007199254740992)"
proof -
  have "f64_exp 9007199254740993 = 1" "f64_exp 9007199254740992 = 1"
    by (simp_all add: f64_exp.simps [of 9007199254740993] f64_exp.simps [of 9007199254740992] f64_exp.simps [of 4503599627370496])
  then have "f64_round 9007199254740993 = f64_round 9007199254740992" by (simp add: f64_round_def)
  then show ?thesis unfolding f64_num_def strip_sign_fmt_int prod.case digits_val_fmt_nat by simp
qed

fun small_json :: "json \<Rightarrow> bool" where
  "small_json (JNum s) = (\<exists>i. s = fmt_int i \<and> \<bar>i\<bar> < 2 ^ 53)"
| "small_json (JArr js) = (\<forall>j\<in>set js. small_json j)"
| "small_json j = True"

lemma f64_json_small: "small_json j \<Longrightarrow> f64_json j = j"
  by (induction j rule: f64_json.induct) (auto simp: f64_num_small intro: map_idI)

lemma small_jint [simp]: "small_json (jint w) \<longleftrightarrow> \<bar>sint w\<bar> < 2 ^ 53"
  by (auto simp: jint_def FormatInt_def dest: fmt_int_inj)

text \<open>Contents whose sizes a float can hold exactly.\<close>

definition small_content :: "ChannelContent \<Rightarrow> bool" where
  "small_content c \<longleftrightarrow>
     (\<forall>i\<in>set (elems (cc_Images c)). \<bar>sint (ci_Size i)\<bar> < 2 ^ 53 \<and> \<bar>sint (ci_Width i)\<bar> < 2 ^ 53 \<and> \<bar>sint (ci_Height i)\<bar> < 2 ^ 53) \<and>
     (\<forall>f\<in>set (elems (cc_Files c)). \<bar>sint (cf_Size f)\<bar> < 2 ^ 53)"

lemma small_canonical_content: "small_content c \<Longrightarrow> small_json (canonical_content c)"
  by (auto simp: small_content_def canonical_content_def canonicalImage_def canonicalFile_def)

lemma wf_canonicalImage: "(case p of None \<Rightarrow> True | Some i \<Rightarrow> wf_ChannelImage i) \<Longrightarrow> wf_json (canonicalImage p)"
  by (cases p) (simp_all add: canonicalImage_def wf_ChannelImage_def)

lemma depth_canonicalImage: "json_depth (canonicalImage p) \<le> 1"
  by (cases p) (simp_all add: canonicalImage_def)

lemma wf_canonicalFile: "wf_ChannelFile f \<Longrightarrow> wf_json (canonicalFile (Some f))"
  by (simp add: canonicalFile_def wf_ChannelFile_def)

lemma depth_canonicalFile: "json_depth (canonicalFile p) \<le> 1"
  by (cases p) (simp_all add: canonicalFile_def)

lemma wf_canonical_content: "wf_ChannelContent c \<Longrightarrow> wf_json (canonical_content c)"
  by (simp add: canonical_content_def wf_ChannelContent_def wf_canonicalImage wf_canonicalFile)

lemma depth_JArr_map: "(\<And>x. json_depth (f x) \<le> n) \<Longrightarrow> json_depth (JArr (map f xs)) \<le> Suc n"
  by auto

lemma depth_canonical_content: "json_depth (canonical_content c) \<le> 3"
proof -
  have "json_depth (JArr (map (\<lambda>i. canonicalImage (Some i)) (elems (cc_Images c)))) \<le> Suc 1"
      "json_depth (JArr (map (\<lambda>f. canonicalFile (Some f)) (elems (cc_Files c)))) \<le> Suc 1"
    by (intro depth_JArr_map depth_canonicalImage depth_canonicalFile)+
  then show ?thesis by (simp add: canonical_content_def)
qed

lemma canonicalImage_inj: "canonicalImage p = canonicalImage q \<Longrightarrow> p = q"
  by (cases p; cases q) (auto simp: canonicalImage_def)

lemma canonicalFile_inj: "canonicalFile p = canonicalFile q \<Longrightarrow> p = q"
  by (cases p; cases q) (auto simp: canonicalFile_def)

lemma canonical_content_inj:
  assumes "canonical_content c = canonical_content c'"
  shows "cc_Text c = cc_Text c' \<and> elems (cc_Images c) = elems (cc_Images c') \<and> elems (cc_Files c) = elems (cc_Files c')"
proof -
  have "inj (\<lambda>i. canonicalImage (Some i))" "inj (\<lambda>f. canonicalFile (Some f))"
    by (auto intro!: injI dest: canonicalImage_inj canonicalFile_inj)
  then show ?thesis using assms by (auto simp: canonical_content_def inj_map_eq_map)
qed

text \<open>What the canonical form keeps of a content: it does not tell an empty list from no list.\<close>

definition canonical_copy :: "ChannelContent \<Rightarrow> ChannelContent" where
  "canonical_copy c = c\<lparr>cc_Images := Some (elems (cc_Images c)), cc_Files := Some (elems (cc_Files c))\<rparr>"

lemma canonical_copy_eq: "canonical_copy c = canonical_copy c' \<longleftrightarrow> canonical_content c = canonical_content c'"
proof
  assume "canonical_copy c = canonical_copy c'"
  then show "canonical_content c = canonical_content c'"
    by (cases c; cases c') (simp add: canonical_copy_def canonical_content_def)
next
  assume "canonical_content c = canonical_content c'"
  from canonical_content_inj [OF this] show "canonical_copy c = canonical_copy c'"
    by (simp add: canonical_copy_def)
qed

definition wf_ChannelProfile :: "ChannelProfile \<Rightarrow> bool" where
  "wf_ChannelProfile p \<longleftrightarrow> utf8_valid (pr_ChannelID p) \<and> utf8_valid (pr_OwnerPeerID p) \<and> utf8_valid (pr_Name p) \<and>
     utf8_valid (pr_Bio p) \<and> (case pr_Avatar p of None \<Rightarrow> True | Some i \<Rightarrow> wf_ChannelImage i)"

definition wf_ChannelHead :: "ChannelHead \<Rightarrow> bool" where
  "wf_ChannelHead h \<longleftrightarrow> utf8_valid (hd_ChannelID h) \<and> utf8_valid (hd_OwnerPeerID h)"

definition wf_ChannelMessage :: "ChannelMessage \<Rightarrow> bool" where
  "wf_ChannelMessage m \<longleftrightarrow> utf8_valid (cm_ChannelID m) \<and> utf8_valid (cm_CreatorPeerID m) \<and>
     utf8_valid (cm_AuthorPeerID m) \<and> utf8_valid (cm_MessageType m) \<and> wf_ChannelContent (cm_Content m)"

lemma canonical_profile_ok:
  "wf_ChannelProfile p \<Longrightarrow> wf_json (canonical_profile p)" "json_depth (canonical_profile p) \<le> max_nesting"
  using depth_canonicalImage [of "pr_Avatar p"]
  by (simp_all add: canonical_profile_def wf_ChannelProfile_def wf_canonicalImage max_nesting_def)

lemma canonical_head_ok:
  "wf_ChannelHead h \<Longrightarrow> wf_json (canonical_head h)" "json_depth (canonical_head h) \<le> max_nesting"
  by (simp_all add: canonical_head_def wf_ChannelHead_def max_nesting_def)

lemma canonical_message_ok:
  "wf_ChannelMessage m \<Longrightarrow> wf_json (canonical_message m (canonical_content (cm_Content m)))"
  "json_depth (canonical_message m (canonical_content (cm_Content m))) \<le> max_nesting"
  using depth_canonical_content [of "cm_Content m"]
  by (simp_all add: canonical_message_def wf_ChannelMessage_def wf_canonical_content max_nesting_def)

lemma CanonicalMessage_wf:
  assumes "wf_ChannelMessage m"
  shows "CanonicalMessage (Some m) = Inr (json_print (canonical_message m (f64_json (canonical_content (cm_Content m)))))"
proof -
  have "wf_json (canonical_content (cm_Content m))"
    using assms by (simp add: wf_ChannelMessage_def wf_canonical_content)
  moreover have "json_depth (canonical_content (cm_Content m)) \<le> max_nesting"
    using depth_canonical_content [of "cm_Content m"] by (simp add: max_nesting_def)
  ultimately show ?thesis by (simp add: CanonicalMessage_def canonicalContent_def json_parse_print)
qed

lemma CanonicalMessage_small:
  "wf_ChannelMessage m \<Longrightarrow> small_content (cm_Content m) \<Longrightarrow>
   CanonicalMessage (Some m) = Inr (json_print (canonical_message m (canonical_content (cm_Content m))))"
  by (simp add: CanonicalMessage_wf f64_json_small small_canonical_content)

text \<open>A base64 signature of the owner over the bytes.\<close>

definition peer_signed :: "('pid, 'key) libp2p \<Rightarrow> string \<Rightarrow> bytes \<Rightarrow> string \<Rightarrow> bool" where
  "peer_signed L owner payload signature \<longleftrightarrow> signature \<noteq> [] \<and>
     (\<exists>pid key s. peer_Decode L owner = Inr pid \<and> ExtractPublicKey L pid = Inr key \<and>
        base64_DecodeString signature = Some s \<and> key_Verify L key payload s = Inr True)"

lemma verifyPeerSignature_accepts:
  "verifyPeerSignature L owner payload signature = None \<longleftrightarrow> peer_signed L owner payload signature"
  by (auto simp: verifyPeerSignature_def peer_signed_def split: sum.splits option.splits)

lemma VerifyProfile_accepts:
  "VerifyProfile L txt (Some p) = None \<longleftrightarrow>
     peer_signed L (pr_OwnerPeerID p) (json_print (canonical_profile p)) (pr_Signature p)"
  by (simp add: VerifyProfile_def CanonicalProfile_def verifyPeerSignature_accepts)

lemma VerifyHead_accepts:
  "VerifyHead L txt (Some h) = None \<longleftrightarrow>
     peer_signed L (hd_OwnerPeerID h) (json_print (canonical_head h)) (hd_Signature h)"
  by (simp add: VerifyHead_def CanonicalHead_def verifyPeerSignature_accepts)

lemma VerifyMessage_accepts:
  "VerifyMessage L txt owner (Some m) = None \<longleftrightarrow>
     cm_AuthorPeerID m = owner \<and> cm_OwnerVersion m = 1 \<and>
     (\<exists>payload. CanonicalMessage (Some m) = Inr payload \<and> peer_signed L owner payload (cm_Signature m))"
  by (auto simp: VerifyMessage_def verifyPeerSignature_accepts split: sum.splits)

section \<open>Numbers as floats\<close>

lemma f64_json_wf: "wf_json j \<Longrightarrow> wf_json (f64_json j)"
  by (induction j rule: f64_json.induct) (auto simp: f64_num_def Let_def split: prod.split)

lemma f64_json_depth: "json_depth (f64_json j) = json_depth j"
proof (induction j rule: f64_json.induct)
  case (2 js)
  then have "json_depth ` set (map f64_json js) = json_depth ` set js" by (auto simp: image_image intro!: image_cong)
  then show ?case by simp
qed simp_all

text \<open>
  A content as the canonical bytes show it: sizes as floats, and no list like an empty one.
\<close>

definition float_of :: "int64 \<Rightarrow> string" where
  "float_of w = f64_num (FormatInt w)"

definition content_floats ::
  "ChannelContent \<Rightarrow> string \<times> (ChannelImage \<times> string \<times> string \<times> string) list \<times> (ChannelFile \<times> string) list" where
  "content_floats c =
     (cc_Text c,
      map (\<lambda>i. (i\<lparr>ci_Size := 0, ci_Width := 0, ci_Height := 0\<rparr>,
                float_of (ci_Size i), float_of (ci_Width i), float_of (ci_Height i))) (elems (cc_Images c)),
      map (\<lambda>f. (f\<lparr>cf_Size := 0\<rparr>, float_of (cf_Size f))) (elems (cc_Files c)))"

lemma map_eq_cong:
  assumes "\<And>x y. f x = f y \<longleftrightarrow> g x = g y"
  shows "map f xs = map f ys \<longleftrightarrow> map g xs = map g ys"
proof (induction xs arbitrary: ys)
  case (Cons x xs)
  then show ?case by (cases ys) (simp_all add: assms)
qed simp

lemma content_floats_iff:
  "f64_json (canonical_content c) = f64_json (canonical_content c') \<longleftrightarrow> content_floats c = content_floats c'"
proof -
  let ?F = "\<lambda>i. f64_json (canonicalImage (Some i))" and ?G = "\<lambda>f. f64_json (canonicalFile (Some f))"
  let ?f = "\<lambda>i. (i\<lparr>ci_Size := 0, ci_Width := 0, ci_Height := 0\<rparr>, float_of (ci_Size i), float_of (ci_Width i), float_of (ci_Height i))"
    and ?g = "\<lambda>f. (f\<lparr>cf_Size := 0\<rparr>, float_of (cf_Size f))"
  have "?F i = ?F j \<longleftrightarrow> ?f i = ?f j" for i j
    by (cases i; cases j) (auto simp: canonicalImage_def jint_def float_of_def)
  then have "map ?F xs = map ?F ys \<longleftrightarrow> map ?f xs = map ?f ys" for xs ys by (rule map_eq_cong)
  moreover have "?G i = ?G j \<longleftrightarrow> ?g i = ?g j" for i j
    by (cases i; cases j) (auto simp: canonicalFile_def jint_def float_of_def)
  then have "map ?G xs = map ?G ys \<longleftrightarrow> map ?g xs = map ?g ys" for xs ys by (rule map_eq_cong)
  ultimately show ?thesis by (simp add: canonical_content_def content_floats_def comp_def)
qed

lemma content_floats_small:
  assumes "small_content c" "small_content c'"
  shows "content_floats c = content_floats c' \<longleftrightarrow> canonical_copy c = canonical_copy c'"
  unfolding canonical_copy_eq content_floats_iff [symmetric]
  using assms by (simp add: f64_json_small small_canonical_content)

lemma canonical_message_floats:
  assumes "wf_ChannelMessage m"
  shows "wf_json (canonical_message m (f64_json (canonical_content (cm_Content m))))"
    "json_depth (canonical_message m (f64_json (canonical_content (cm_Content m)))) \<le> max_nesting"
  using canonical_message_ok(1) [OF assms] canonical_message_ok(2) [of m] assms wf_canonical_content [of "cm_Content m"]
  by (simp_all add: canonical_message_def f64_json_wf f64_json_depth wf_ChannelMessage_def)

end
