(* ===== verification/ChannelStore.thy ===== *)
theory ChannelStore
  imports ChannelCanonical
begin

text \<open>
  \<open>internal/publicchannel/store.go\<close> and \<open>schema.go\<close>: the SQLite store of public channels.
  The tables are lists of rows, and every SQL statement of the source is a function on them that
  keeps the statement's conflict clause and the UNIQUE constraints of the schema. The library
  behind \<open>database/sql\<close> enters in two ways: each call may fail, which is the list of outcomes
  that a connection carries, and a new channel row gets an id that the library chooses. A
  transaction that is not committed leaves the tables as they were.
\<close>

section \<open>Tables and rows\<close>

record channelRow =
  cr_ID :: int64
  cr_ChannelID :: string
  cr_OwnerPeerID :: string
  cr_OwnerVersion :: int64
  cr_Name :: string
  cr_AvatarJSON :: string
  cr_Bio :: string
  cr_MessageRetentionMinutes :: int64
  cr_ProfileVersion :: int64
  cr_LastMessageID :: int64
  cr_LastSeq :: int64
  cr_CreatedAt :: int64
  cr_UpdatedAt :: int64
  cr_HeadUpdatedAt :: int64
  cr_ProfileSignature :: string
  cr_HeadSignature :: string

text \<open>A row of messages as it is scanned; the table keeps \<open>is_deleted\<close> as 0 or 1.\<close>

record messageRow =
  mr_MessageID :: int64
  mr_Version :: int64
  mr_Seq :: int64
  mr_OwnerVersion :: int64
  mr_CreatorPeerID :: string
  mr_AuthorPeerID :: string
  mr_CreatedAt :: int64
  mr_UpdatedAt :: int64
  mr_IsDeleted :: bool
  mr_MessageType :: string
  mr_ContentJSON :: string
  mr_Signature :: string

text \<open>A row of changes; NULL is None.\<close>

record changeRow =
  xr_Seq :: int64
  xr_ChangeType :: string
  xr_MessageID :: "int64 option"
  xr_Version :: "int64 option"
  xr_IsDeleted :: "int64 option"
  xr_ProfileVersion :: "int64 option"
  xr_CreatedAt :: int64

text \<open>The rows of messages and changes are paired with their \<open>channel_db_id\<close>.\<close>

record tables =
  t_channels :: "channelRow list"
  t_messages :: "(int64 \<times> messageRow) list"
  t_changes :: "(int64 \<times> changeRow) list"

definition empty_tables :: tables where
  "empty_tables = \<lparr>t_channels = [], t_messages = [], t_changes = []\<rparr>"

section \<open>The connection\<close>

text \<open>The tables, and what the library reports for the coming calls; after the list, all succeed.\<close>

record conn =
  cn_tabs :: tables
  cn_faults :: "goerr option list"

definition next_fault :: "conn \<Rightarrow> goerr option \<times> conn" where
  "next_fault c = (case cn_faults c of [] \<Rightarrow> (None, c) | f # fs \<Rightarrow> (f, c\<lparr>cn_faults := fs\<rparr>))"

text \<open>A query: an error of the library, or a function of the tables.\<close>

definition query :: "(tables \<Rightarrow> 'a) \<Rightarrow> conn \<Rightarrow> 'a res \<times> conn" where
  "query f c = (case next_fault c of (Some e, c') \<Rightarrow> (Inl e, c') | (None, c') \<Rightarrow> (Inr (f (cn_tabs c')), c'))"

text \<open>A statement: an error of the library, a violated constraint, or new tables.\<close>

definition exec :: "(tables \<Rightarrow> tables res) \<Rightarrow> conn \<Rightarrow> goerr option \<times> conn" where
  "exec f c =
     (case next_fault c of
        (Some e, c') \<Rightarrow> (Some e, c')
      | (None, c') \<Rightarrow>
          (case f (cn_tabs c') of Inl e \<Rightarrow> (Some e, c') | Inr t \<Rightarrow> (None, c'\<lparr>cn_tabs := t\<rparr>)))"

text \<open>The next step of a function that returns the first error.\<close>

definition seq_do :: "goerr option \<times> conn \<Rightarrow> (conn \<Rightarrow> goerr option \<times> conn) \<Rightarrow> goerr option \<times> conn" where
  "seq_do r f = (case r of (Some e, c) \<Rightarrow> (Some e, c) | (None, c) \<Rightarrow> f c)"

section \<open>Statements on channels\<close>

definition sql_channel :: "string \<Rightarrow> tables \<Rightarrow> channelRow option" where
  "sql_channel channelID t = find (\<lambda>r. cr_ChannelID r = channelID) (t_channels t)"

definition getChannelByChannelID :: "string \<Rightarrow> conn \<Rightarrow> channelRow option res \<times> conn" where
  "getChannelByChannelID channelID = query (sql_channel channelID)"

definition avatarJSON :: "ChannelProfile \<Rightarrow> string" where
  "avatarJSON p = (case pr_Avatar p of None \<Rightarrow> ''{}'' | Some img \<Rightarrow> json_print (enc_ChannelImage img))"

text \<open>The row that the INSERT writes, and the row that its conflict clause leaves.\<close>

definition inserted_channel :: "int64 \<Rightarrow> ChannelProfile \<Rightarrow> ChannelHead \<Rightarrow> channelRow" where
  "inserted_channel i p h =
     \<lparr>cr_ID = i, cr_ChannelID = pr_ChannelID p, cr_OwnerPeerID = pr_OwnerPeerID p,
      cr_OwnerVersion = pr_OwnerVersion p, cr_Name = pr_Name p, cr_AvatarJSON = avatarJSON p, cr_Bio = pr_Bio p,
      cr_MessageRetentionMinutes = pr_MessageRetentionMinutes p, cr_ProfileVersion = pr_ProfileVersion p,
      cr_LastMessageID = hd_LastMessageID h, cr_LastSeq = hd_LastSeq h, cr_CreatedAt = pr_CreatedAt p,
      cr_UpdatedAt = pr_UpdatedAt p, cr_HeadUpdatedAt = hd_UpdatedAt h, cr_ProfileSignature = pr_Signature p,
      cr_HeadSignature = hd_Signature h\<rparr>"

definition updated_channel :: "channelRow \<Rightarrow> ChannelProfile \<Rightarrow> ChannelHead \<Rightarrow> channelRow" where
  "updated_channel r p h =
     r\<lparr>cr_OwnerPeerID := pr_OwnerPeerID p, cr_OwnerVersion := pr_OwnerVersion p, cr_Name := pr_Name p,
       cr_AvatarJSON := avatarJSON p, cr_Bio := pr_Bio p,
       cr_MessageRetentionMinutes := pr_MessageRetentionMinutes p, cr_ProfileVersion := pr_ProfileVersion p,
       cr_LastMessageID := hd_LastMessageID h, cr_LastSeq := hd_LastSeq h, cr_UpdatedAt := pr_UpdatedAt p,
       cr_HeadUpdatedAt := hd_UpdatedAt h, cr_ProfileSignature := pr_Signature p,
       cr_HeadSignature := hd_Signature h\<rparr>"

text \<open>INSERT with ON CONFLICT DO UPDATE: update the conflicting row if there is one.\<close>

definition upsert :: "('a \<Rightarrow> bool) \<Rightarrow> ('a \<Rightarrow> 'a) \<Rightarrow> 'a \<Rightarrow> 'a list \<Rightarrow> 'a list" where
  "upsert conflict upd new rows =
     (if \<exists>r\<in>set rows. conflict r then map (\<lambda>r. if conflict r then upd r else r) rows else rows @ [new])"

text \<open>\<open>newid\<close> is the id that the library gives to a new row; None if it has none left.\<close>

definition full_error :: goerr where
  "full_error = SqlError ''database or disk is full''"

definition sql_upsert_channel ::
  "(tables \<Rightarrow> int64 option) \<Rightarrow> ChannelProfile \<Rightarrow> ChannelHead \<Rightarrow> tables \<Rightarrow> tables res" where
  "sql_upsert_channel newid p h t =
     (case newid t of
        None \<Rightarrow> Inl full_error
      | Some i \<Rightarrow>
          Inr (t\<lparr>t_channels :=
            upsert (\<lambda>r. cr_ChannelID r = pr_ChannelID p) (\<lambda>r. updated_channel r p h) (inserted_channel i p h)
              (t_channels t)\<rparr>))"

definition upsertChannel ::
  "(tables \<Rightarrow> int64 option) \<Rightarrow> ChannelProfile \<Rightarrow> ChannelHead \<Rightarrow> conn \<Rightarrow> goerr option \<times> conn" where
  "upsertChannel newid p h = exec (sql_upsert_channel newid p h)"

section \<open>Statements on messages and changes\<close>

definition sql_message :: "int64 \<Rightarrow> int64 \<Rightarrow> tables \<Rightarrow> messageRow option" where
  "sql_message channelDBID messageID t =
     map_option snd (find (\<lambda>(c, r). c = channelDBID \<and> mr_MessageID r = messageID) (t_messages t))"

definition getMessage :: "int64 \<Rightarrow> int64 \<Rightarrow> conn \<Rightarrow> messageRow option res \<times> conn" where
  "getMessage channelDBID messageID = query (sql_message channelDBID messageID)"

definition contentJSON :: "ChannelMessage \<Rightarrow> string" where
  "contentJSON m = json_print (enc_ChannelContent (cm_Content m))"

definition boolToInt :: "bool \<Rightarrow> int64" where
  "boolToInt b = (if b then 1 else 0)"

definition nullableInt :: "int64 option \<Rightarrow> int64 option" where
  "nullableInt p = (case p of None \<Rightarrow> None | Some v \<Rightarrow> Some v)"

definition nullableBoolPtr :: "bool option \<Rightarrow> int64 option" where
  "nullableBoolPtr p = (case p of None \<Rightarrow> None | Some b \<Rightarrow> if b then Some 1 else Some 0)"

definition message_row :: "ChannelMessage \<Rightarrow> messageRow" where
  "message_row m =
     \<lparr>mr_MessageID = cm_MessageID m, mr_Version = cm_Version m, mr_Seq = cm_Seq m, mr_OwnerVersion = cm_OwnerVersion m,
      mr_CreatorPeerID = cm_CreatorPeerID m, mr_AuthorPeerID = cm_AuthorPeerID m, mr_CreatedAt = cm_CreatedAt m,
      mr_UpdatedAt = cm_UpdatedAt m, mr_IsDeleted = cm_IsDeleted m, mr_MessageType = cm_MessageType m,
      mr_ContentJSON = contentJSON m, mr_Signature = cm_Signature m\<rparr>"

definition sql_delete_message :: "int64 \<Rightarrow> int64 \<Rightarrow> tables \<Rightarrow> tables" where
  "sql_delete_message channelDBID messageID t =
     t\<lparr>t_messages := filter (\<lambda>(c, r). \<not> (c = channelDBID \<and> mr_MessageID r = messageID)) (t_messages t)\<rparr>"

definition unique_error :: goerr where
  "unique_error = SqlError ''UNIQUE constraint failed''"

definition sql_insert_message :: "int64 \<Rightarrow> ChannelMessage \<Rightarrow> tables \<Rightarrow> tables res" where
  "sql_insert_message channelDBID m t =
     (if \<exists>(c, r)\<in>set (t_messages t). c = channelDBID \<and> (mr_MessageID r = cm_MessageID m \<or> mr_Seq r = cm_Seq m)
      then Inl unique_error
      else Inr (t\<lparr>t_messages := t_messages t @ [(channelDBID, message_row m)]\<rparr>))"

definition sql_upsert_change :: "(changeRow \<Rightarrow> changeRow) \<Rightarrow> int64 \<Rightarrow> changeRow \<Rightarrow> tables \<Rightarrow> tables" where
  "sql_upsert_change upd channelDBID new t =
     t\<lparr>t_changes :=
       upsert (\<lambda>(c, r). c = channelDBID \<and> xr_Seq r = xr_Seq new) (\<lambda>(c, r). (c, upd r)) (channelDBID, new) (t_changes t)\<rparr>"

text \<open>The three statements on changes: the row that each inserts, and the columns that its conflict clause sets.\<close>

definition message_change :: "ChannelMessage \<Rightarrow> changeRow" where
  "message_change m =
     \<lparr>xr_Seq = cm_Seq m, xr_ChangeType = ''message'', xr_MessageID = Some (cm_MessageID m),
      xr_Version = Some (cm_Version m), xr_IsDeleted = Some (boolToInt (cm_IsDeleted m)),
      xr_ProfileVersion = None, xr_CreatedAt = cm_UpdatedAt m\<rparr>"

definition set_message_change :: "changeRow \<Rightarrow> changeRow \<Rightarrow> changeRow" where
  "set_message_change new r =
     r\<lparr>xr_ChangeType := xr_ChangeType new, xr_MessageID := xr_MessageID new, xr_Version := xr_Version new,
       xr_IsDeleted := xr_IsDeleted new, xr_CreatedAt := xr_CreatedAt new\<rparr>"

definition sql_message_change :: "int64 \<Rightarrow> ChannelMessage \<Rightarrow> tables \<Rightarrow> tables" where
  "sql_message_change channelDBID m =
     sql_upsert_change (set_message_change (message_change m)) channelDBID (message_change m)"

definition profile_change :: "ChannelProfile \<Rightarrow> ChannelHead \<Rightarrow> changeRow" where
  "profile_change p h =
     \<lparr>xr_Seq = hd_LastSeq h, xr_ChangeType = ''profile'', xr_MessageID = None, xr_Version = None,
      xr_IsDeleted = None, xr_ProfileVersion = Some (pr_ProfileVersion p), xr_CreatedAt = hd_UpdatedAt h\<rparr>"

definition set_profile_change :: "changeRow \<Rightarrow> changeRow \<Rightarrow> changeRow" where
  "set_profile_change new r =
     r\<lparr>xr_ChangeType := ''profile'', xr_ProfileVersion := xr_ProfileVersion new, xr_CreatedAt := xr_CreatedAt new\<rparr>"

definition sql_profile_change :: "int64 \<Rightarrow> ChannelProfile \<Rightarrow> ChannelHead \<Rightarrow> tables \<Rightarrow> tables" where
  "sql_profile_change channelDBID p h =
     sql_upsert_change (set_profile_change (profile_change p h)) channelDBID (profile_change p h)"

definition extra_change :: "ChannelChange \<Rightarrow> changeRow" where
  "extra_change ch =
     \<lparr>xr_Seq = ch_Seq ch, xr_ChangeType = ch_ChangeType ch, xr_MessageID = nullableInt (ch_MessageID ch),
      xr_Version = nullableInt (ch_Version ch), xr_IsDeleted = nullableBoolPtr (ch_IsDeleted ch),
      xr_ProfileVersion = nullableInt (ch_ProfileVersion ch), xr_CreatedAt = ch_CreatedAt ch\<rparr>"

definition set_extra_change :: "changeRow \<Rightarrow> changeRow \<Rightarrow> changeRow" where
  "set_extra_change new r =
     r\<lparr>xr_ChangeType := xr_ChangeType new, xr_MessageID := xr_MessageID new, xr_Version := xr_Version new,
       xr_IsDeleted := xr_IsDeleted new, xr_ProfileVersion := xr_ProfileVersion new, xr_CreatedAt := xr_CreatedAt new\<rparr>"

definition sql_extra_change :: "int64 \<Rightarrow> ChannelChange \<Rightarrow> tables \<Rightarrow> tables" where
  "sql_extra_change channelDBID ch =
     sql_upsert_change (set_extra_change (extra_change ch)) channelDBID (extra_change ch)"

section \<open>Pushing\<close>

text \<open>
  The messages and changes of a request are pointers. Reading a field of a nil pointer panics:
  the result None of the functions below. The first loop over the messages returns them once
  they are all checked.
\<close>

fun verify_messages ::
  "('pid, 'key) libp2p \<Rightarrow> (goerr \<Rightarrow> string) \<Rightarrow> ChannelProfile \<Rightarrow> ChannelMessage option list \<Rightarrow> ChannelMessage list res option" where
  "verify_messages L txt p [] = Some (Inr [])"
| "verify_messages L txt p (None # ms) = None"
| "verify_messages L txt p (Some m # ms) =
     (if cm_ChannelID m \<noteq> pr_ChannelID p
      then Some (Inl (AppError CodeInvalidPayload ''message channel_id mismatch''))
      else case VerifyMessage L txt (pr_OwnerPeerID p) (Some m) of
             Some e \<Rightarrow> Some (Inl e)
           | None \<Rightarrow>
               (case verify_messages L txt p ms of
                  None \<Rightarrow> None
                | Some (Inl e) \<Rightarrow> Some (Inl e)
                | Some (Inr xs) \<Rightarrow> Some (Inr (m # xs))))"

definition check_old :: "channelRow option \<Rightarrow> ChannelHead \<Rightarrow> goerr option" where
  "check_old old h =
     (case old of
        None \<Rightarrow> None
      | Some r \<Rightarrow>
          if sint (hd_LastSeq h) < sint (cr_LastSeq r)
          then Some (AppError CodePublicChannelStale ''head.last_seq regressed'')
          else if hd_OwnerPeerID h \<noteq> cr_OwnerPeerID r
          then Some (AppError CodeUnauthorized ''owner_peer_id cannot change'')
          else None)"

definition check_head :: "ChannelHead \<Rightarrow> ChannelMessage list \<Rightarrow> goerr option" where
  "check_head h messages =
     (if \<exists>m\<in>set messages. sint (hd_LastSeq h) < sint (cm_Seq m) \<or> sint (hd_LastMessageID h) < sint (cm_MessageID m)
      then Some (AppError CodeInvalidPayload ''message seq/message_id exceeds head'')
      else None)"

text \<open>Everything before the transaction: the old row and the checked messages.\<close>

definition push_check ::
  "('pid, 'key) libp2p \<Rightarrow> 'u uuid \<Rightarrow> (goerr \<Rightarrow> string) \<Rightarrow> string \<Rightarrow> ChannelProfile \<Rightarrow> ChannelHead \<Rightarrow>
   ChannelMessage option list \<Rightarrow> conn \<Rightarrow> ((channelRow option \<times> ChannelMessage list) res \<times> conn) option" where
  "push_check L U txt remotePeerID p h messages c =
     (case ValidateChannelID U (pr_ChannelID p) of
        Some e \<Rightarrow> Some (Inl e, c)
      | None \<Rightarrow>
          if pr_ChannelID p \<noteq> hd_ChannelID h
          then Some (Inl (AppError CodeInvalidPayload ''profile and head channel_id mismatch''), c)
          else if remotePeerID \<noteq> pr_OwnerPeerID p
          then Some (Inl (AppError CodeUnauthorized ''only owner peer may push''), c)
          else
            (case VerifyProfile L txt (Some p) of
               Some e \<Rightarrow> Some (Inl e, c)
             | None \<Rightarrow>
                 (case VerifyHead L txt (Some h) of
                    Some e \<Rightarrow> Some (Inl e, c)
                  | None \<Rightarrow>
                      (case verify_messages L txt p messages of
                         None \<Rightarrow> None
                       | Some (Inl e) \<Rightarrow> Some (Inl e, c)
                       | Some (Inr ms) \<Rightarrow>
                           (case getChannelByChannelID (pr_ChannelID p) c of
                              (Inl e, c') \<Rightarrow> Some (Inl e, c')
                            | (Inr old, c') \<Rightarrow>
                                (case check_old old h of
                                   Some e \<Rightarrow> Some (Inl e, c')
                                 | None \<Rightarrow>
                                     (case check_head h ms of
                                        Some e \<Rightarrow> Some (Inl e, c')
                                      | None \<Rightarrow> Some (Inr (old, ms), c'))))))))"

definition check_prev :: "messageRow option \<Rightarrow> ChannelMessage \<Rightarrow> goerr option" where
  "check_prev prev m =
     (case prev of
        None \<Rightarrow> None
      | Some r \<Rightarrow>
          if sint (cm_Version m) < sint (mr_Version r)
          then Some (AppError CodePublicChannelStale ''message version regressed'')
          else if cm_Version m = mr_Version r \<and> sint (cm_Seq m) < sint (mr_Seq r)
          then Some (AppError CodePublicChannelStale ''message seq regressed for same version'')
          else None)"

definition push_message :: "int64 \<Rightarrow> ChannelMessage \<Rightarrow> conn \<Rightarrow> goerr option \<times> conn" where
  "push_message channelDBID m c =
     (case getMessage channelDBID (cm_MessageID m) c of
        (Inl e, c') \<Rightarrow> (Some e, c')
      | (Inr prev, c') \<Rightarrow>
          (case check_prev prev m of
             Some e \<Rightarrow> (Some e, c')
           | None \<Rightarrow>
               seq_do (exec (\<lambda>t. Inr (sql_delete_message channelDBID (cm_MessageID m) t)) c') (\<lambda>c1.
               seq_do (exec (sql_insert_message channelDBID m) c1) (\<lambda>c2.
               exec (\<lambda>t. Inr (sql_message_change channelDBID m t)) c2))))"

fun push_messages :: "int64 \<Rightarrow> ChannelMessage list \<Rightarrow> conn \<Rightarrow> goerr option \<times> conn" where
  "push_messages channelDBID [] c = (None, c)"
| "push_messages channelDBID (m # ms) c = seq_do (push_message channelDBID m c) (push_messages channelDBID ms)"

definition push_profile ::
  "int64 \<Rightarrow> channelRow option \<Rightarrow> ChannelProfile \<Rightarrow> ChannelHead \<Rightarrow> ChannelMessage list \<Rightarrow> ChannelChange option list \<Rightarrow>
   conn \<Rightarrow> goerr option \<times> conn" where
  "push_profile channelDBID old p h messages extraChanges c =
     (let oldPV = (case old of None \<Rightarrow> 0 | Some r \<Rightarrow> cr_ProfileVersion r)
      in if sint oldPV < sint (pr_ProfileVersion p) \<and> messages = [] \<and> extraChanges = []
         then exec (\<lambda>t. Inr (sql_profile_change channelDBID p h t)) c
         else (None, c))"

fun push_changes ::
  "int64 \<Rightarrow> ChannelProfile \<Rightarrow> ChannelChange option list \<Rightarrow> conn \<Rightarrow> (goerr option \<times> conn) option" where
  "push_changes channelDBID p [] c = Some (None, c)"
| "push_changes channelDBID p (None # chs) c = None"
| "push_changes channelDBID p (Some ch # chs) c =
     (if ch_ChannelID ch \<noteq> [] \<and> ch_ChannelID ch \<noteq> pr_ChannelID p
      then Some (Some (AppError CodeInvalidPayload ''change channel_id mismatch''), c)
      else case exec (\<lambda>t. Inr (sql_extra_change channelDBID ch t)) c of
             (Some e, c') \<Rightarrow> Some (Some e, c')
           | (None, c') \<Rightarrow> push_changes channelDBID p chs c')"

text \<open>The statements of the transaction.\<close>

definition push_body ::
  "(tables \<Rightarrow> int64 option) \<Rightarrow> channelRow option \<Rightarrow> ChannelProfile \<Rightarrow> ChannelHead \<Rightarrow> ChannelMessage list \<Rightarrow>
   ChannelChange option list \<Rightarrow> conn \<Rightarrow> (goerr option \<times> conn) option" where
  "push_body newid old p h messages extraChanges c =
     (case upsertChannel newid p h c of
        (Some e, c1) \<Rightarrow> Some (Some e, c1)
      | (None, c1) \<Rightarrow>
          (case getChannelByChannelID (pr_ChannelID p) c1 of
             (Inl e, c2) \<Rightarrow> Some (Some e, c2)
           | (Inr None, c2) \<Rightarrow> Some (Some (AppError CodeInternalError ''channel row missing after upsert''), c2)
           | (Inr (Some chRow), c2) \<Rightarrow>
               (case seq_do (push_messages (cr_ID chRow) messages c2)
                       (push_profile (cr_ID chRow) old p h messages extraChanges) of
                  (Some e, c3) \<Rightarrow> Some (Some e, c3)
                | (None, c3) \<Rightarrow> push_changes (cr_ID chRow) p extraChanges c3)))"

text \<open>The transaction: begin, the statements, and commit; any error rolls the tables back.\<close>

definition push_tx ::
  "(tables \<Rightarrow> int64 option) \<Rightarrow> channelRow option \<Rightarrow> ChannelProfile \<Rightarrow> ChannelHead \<Rightarrow> ChannelMessage list \<Rightarrow>
   ChannelChange option list \<Rightarrow> conn \<Rightarrow> (goerr option \<times> conn) option" where
  "push_tx newid old p h messages extraChanges c =
     (case next_fault c of
        (Some e, c0) \<Rightarrow> Some (Some e, c0)
      | (None, c0) \<Rightarrow>
          (case push_body newid old p h messages extraChanges c0 of
             None \<Rightarrow> None
           | Some (Some e, c1) \<Rightarrow> Some (Some e, c1\<lparr>cn_tabs := cn_tabs c0\<rparr>)
           | Some (None, c1) \<Rightarrow>
               (case next_fault c1 of
                  (Some e, c2) \<Rightarrow> Some (Some e, c2\<lparr>cn_tabs := cn_tabs c0\<rparr>)
                | (None, c2) \<Rightarrow> Some (None, c2))))"

definition Store_Push ::
  "('pid, 'key) libp2p \<Rightarrow> 'u uuid \<Rightarrow> (goerr \<Rightarrow> string) \<Rightarrow> (tables \<Rightarrow> int64 option) \<Rightarrow> string \<Rightarrow> ChannelProfile \<Rightarrow> ChannelHead \<Rightarrow>
   ChannelMessage option list \<Rightarrow> ChannelChange option list \<Rightarrow> conn \<Rightarrow> (goerr option \<times> conn) option" where
  "Store_Push L U txt newid remotePeerID p h messages extraChanges c =
     (case push_check L U txt remotePeerID p h messages c of
        None \<Rightarrow> None
      | Some (Inl e, c') \<Rightarrow> Some (Some e, c')
      | Some (Inr (old, ms), c') \<Rightarrow> push_tx newid old p h ms extraChanges c')"

section \<open>Reading\<close>

definition Store_GetProfile :: "string \<Rightarrow> conn \<Rightarrow> ChannelProfile option res \<times> conn" where
  "Store_GetProfile channelID c =
     (case getChannelByChannelID channelID c of
        (Inl e, c') \<Rightarrow> (Inl e, c')
      | (Inr None, c') \<Rightarrow> (Inr None, c')
      | (Inr (Some r), c') \<Rightarrow>
          (case (if cr_AvatarJSON r \<noteq> [] \<and> cr_AvatarJSON r \<noteq> ''{}''
                 then (case unmarshal zero_ChannelImage dec_ChannelImage (cr_AvatarJSON r) of
                         Inl e \<Rightarrow> Inl e | Inr img \<Rightarrow> Inr (Some img))
                 else Inr None) of
             Inl e \<Rightarrow> (Inl e, c')
           | Inr av \<Rightarrow>
               (Inr (Some \<lparr>pr_ChannelID = cr_ChannelID r, pr_OwnerPeerID = cr_OwnerPeerID r,
                  pr_OwnerVersion = cr_OwnerVersion r, pr_Name = cr_Name r, pr_Avatar = av, pr_Bio = cr_Bio r,
                  pr_MessageRetentionMinutes = cr_MessageRetentionMinutes r,
                  pr_ProfileVersion = cr_ProfileVersion r, pr_CreatedAt = cr_CreatedAt r,
                  pr_UpdatedAt = cr_UpdatedAt r, pr_Signature = cr_ProfileSignature r\<rparr>), c')))"

definition Store_GetHead :: "string \<Rightarrow> conn \<Rightarrow> ChannelHead option res \<times> conn" where
  "Store_GetHead channelID c =
     (case getChannelByChannelID channelID c of
        (Inl e, c') \<Rightarrow> (Inl e, c')
      | (Inr None, c') \<Rightarrow> (Inr None, c')
      | (Inr (Some r), c') \<Rightarrow>
          (Inr (Some \<lparr>hd_ChannelID = cr_ChannelID r, hd_OwnerPeerID = cr_OwnerPeerID r,
             hd_OwnerVersion = cr_OwnerVersion r, hd_LastMessageID = cr_LastMessageID r,
             hd_ProfileVersion = cr_ProfileVersion r, hd_LastSeq = cr_LastSeq r,
             hd_UpdatedAt = cr_HeadUpdatedAt r, hd_Signature = cr_HeadSignature r\<rparr>), c'))"

definition rowToMessage :: "string \<Rightarrow> messageRow \<Rightarrow> ChannelMessage res" where
  "rowToMessage channelID mr =
     (case (if mr_ContentJSON mr \<noteq> [] then unmarshal zero_ChannelContent dec_ChannelContent (mr_ContentJSON mr)
            else Inr zero_ChannelContent) of
        Inl e \<Rightarrow> Inl e
      | Inr content \<Rightarrow>
          Inr \<lparr>cm_ChannelID = channelID, cm_MessageID = mr_MessageID mr, cm_Version = mr_Version mr, cm_Seq = mr_Seq mr,
               cm_OwnerVersion = mr_OwnerVersion mr, cm_CreatorPeerID = mr_CreatorPeerID mr,
               cm_AuthorPeerID = mr_AuthorPeerID mr, cm_CreatedAt = mr_CreatedAt mr, cm_UpdatedAt = mr_UpdatedAt mr,
               cm_IsDeleted = mr_IsDeleted mr, cm_MessageType = mr_MessageType mr, cm_Content = content,
               cm_Signature = mr_Signature mr\<rparr>)"

definition Store_GetMessage :: "string \<Rightarrow> int64 \<Rightarrow> conn \<Rightarrow> ChannelMessage option res \<times> conn" where
  "Store_GetMessage channelID messageID c =
     (case getChannelByChannelID channelID c of
        (Inl e, c') \<Rightarrow> (Inl e, c')
      | (Inr None, c') \<Rightarrow> (Inr None, c')
      | (Inr (Some r), c') \<Rightarrow>
          (case getMessage (cr_ID r) messageID c' of
             (Inl e, c'') \<Rightarrow> (Inl e, c'')
           | (Inr None, c'') \<Rightarrow> (Inr None, c'')
           | (Inr (Some mr), c'') \<Rightarrow>
               (case rowToMessage (cr_ChannelID r) mr of
                  Inl e \<Rightarrow> (Inl e, c'')
                | Inr m \<Rightarrow> (Inr (Some m), c''))))"

text \<open>The page of messages: by descending id, below \<open>beforeMessageID\<close> if it is given.\<close>

definition sql_page :: "int64 \<Rightarrow> int64 option \<Rightarrow> int64 \<Rightarrow> tables \<Rightarrow> messageRow list" where
  "sql_page channelDBID beforeMessageID limit t =
     take (nat (sint limit))
       (rev (sort_key (\<lambda>r. sint (mr_MessageID r))
          [r. (c, r) \<leftarrow> t_messages t, c = channelDBID \<and>
             (case beforeMessageID of None \<Rightarrow> True | Some b \<Rightarrow> sint (mr_MessageID r) < sint b)]))"

fun rows_to_messages :: "string \<Rightarrow> messageRow list \<Rightarrow> ChannelMessage list res" where
  "rows_to_messages channelID [] = Inr []"
| "rows_to_messages channelID (mr # mrs) =
     (case rowToMessage channelID mr of
        Inl e \<Rightarrow> Inl e
      | Inr m \<Rightarrow> (case rows_to_messages channelID mrs of Inl e \<Rightarrow> Inl e | Inr ms \<Rightarrow> Inr (m # ms)))"

text \<open>
  The slice starts as nil and stays nil without rows. A failure while rows are read is
  reported after them.
\<close>

definition Store_ListMessages ::
  "string \<Rightarrow> int64 option \<Rightarrow> int64 \<Rightarrow> conn \<Rightarrow> ChannelMessage list option res \<times> conn" where
  "Store_ListMessages channelID beforeMessageID limit0 c =
     (let limit = (if sint limit0 \<le> 0 \<or> 500 < sint limit0 then 20 else limit0)
      in case getChannelByChannelID channelID c of
           (Inl e, c') \<Rightarrow> (Inl e, c')
         | (Inr None, c') \<Rightarrow> (Inr None, c')
         | (Inr (Some r), c') \<Rightarrow>
             (case query (sql_page (cr_ID r) beforeMessageID limit) c' of
                (Inl e, c'') \<Rightarrow> (Inl e, c'')
              | (Inr rows, c'') \<Rightarrow>
                  (case rows_to_messages (cr_ChannelID r) rows of
                     Inl e \<Rightarrow> (Inl e, c'')
                   | Inr out \<Rightarrow>
                       (case next_fault c'' of
                          (Some e, c3) \<Rightarrow> (Inl e, c3)
                        | (None, c3) \<Rightarrow> (Inr (if out = [] then None else Some out), c3)))))"

record SyncResult =
  sr_ChannelID :: string
  sr_CurrentLastSeq :: int64
  sr_HasMore :: bool
  sr_NextAfterSeq :: int64
  sr_Items :: "ChannelChange list"

definition sql_changes :: "int64 \<Rightarrow> int64 \<Rightarrow> int64 \<Rightarrow> tables \<Rightarrow> changeRow list" where
  "sql_changes channelDBID afterSeq limit t =
     take (nat (sint limit))
       (sort_key (\<lambda>r. sint (xr_Seq r)) [r. (c, r) \<leftarrow> t_changes t, c = channelDBID \<and> sint afterSeq < sint (xr_Seq r)])"

definition row_to_change :: "string \<Rightarrow> changeRow \<Rightarrow> ChannelChange" where
  "row_to_change channelID r =
     \<lparr>ch_ChannelID = channelID, ch_Seq = xr_Seq r, ch_ChangeType = xr_ChangeType r, ch_MessageID = xr_MessageID r,
      ch_Version = xr_Version r, ch_IsDeleted = map_option (\<lambda>v. v \<noteq> 0) (xr_IsDeleted r),
      ch_ProfileVersion = xr_ProfileVersion r, ch_CreatedAt = xr_CreatedAt r\<rparr>"

definition SyncChanges :: "string \<Rightarrow> int64 \<Rightarrow> int64 \<Rightarrow> conn \<Rightarrow> SyncResult option res \<times> conn" where
  "SyncChanges channelID afterSeq limit0 c =
     (let limit = (if sint limit0 \<le> 0 \<or> 500 < sint limit0 then 50 else limit0)
      in case getChannelByChannelID channelID c of
           (Inl e, c') \<Rightarrow> (Inl e, c')
         | (Inr None, c') \<Rightarrow> (Inr None, c')
         | (Inr (Some r), c') \<Rightarrow>
             (case query (sql_changes (cr_ID r) afterSeq (limit + 1)) c' of
                (Inl e, c'') \<Rightarrow> (Inl e, c'')
              | (Inr rows, c'') \<Rightarrow>
                  (case next_fault c'' of
                     (Some e, c3) \<Rightarrow> (Inl e, c3)
                   | (None, c3) \<Rightarrow>
                       (let all = map (row_to_change channelID) rows;
                            hasMore = sint limit < int (length all);
                            items = (if hasMore then take (nat (sint limit)) all else all)
                        in (Inr (Some \<lparr>sr_ChannelID = channelID, sr_CurrentLastSeq = cr_LastSeq r, sr_HasMore = hasMore,
                              sr_NextAfterSeq = (if items = [] then afterSeq else ch_Seq (last items)),
                              sr_Items = items\<rparr>), c3)))))"

end
