(* ===== verification/ChannelFacts.thy ===== *)
theory ChannelFacts
  imports ChannelStore
begin

text \<open>
  The tables of public channels seen as what they stand for: per channel its row, its messages
  by id and its changes by number. The invariant of the tables, which is the constraints of the
  schema and that no message is beyond the channel's last number, is kept by every push, and
  the effect of the statements is stated on the lookups.
\<close>

section \<open>The contract of the library\<close>

text \<open>An id that SQLite gives to a new row is not the id of a row that exists.\<close>

locale autoincrement =
  fixes newid :: "tables \<Rightarrow> int64 option"
  assumes fresh: "newid t = Some i \<Longrightarrow> i \<notin> cr_ID ` set (t_channels t)"

definition first_free_id :: "tables \<Rightarrow> int64 option" where
  "first_free_id t = find (\<lambda>i. i \<notin> cr_ID ` set (t_channels t)) (map of_nat [1..<length (t_channels t) + 2])"

interpretation first_free: autoincrement first_free_id
  by unfold_locales (auto simp: first_free_id_def find_Some_iff)

section \<open>Steps that succeed\<close>

lemma next_fault_tabs: "next_fault c = (e, c') \<Longrightarrow> cn_tabs c' = cn_tabs c"
  by (auto simp: next_fault_def split: list.splits)

lemma query_tabs: "query f c = (r, c') \<Longrightarrow> cn_tabs c' = cn_tabs c"
  by (auto simp: query_def dest: next_fault_tabs split: prod.splits option.splits)

lemma query_Inr: "query f c = (Inr x, c') \<Longrightarrow> x = f (cn_tabs c)"
  by (auto simp: query_def dest: next_fault_tabs split: prod.splits option.splits)

lemma exec_None: "exec f c = (None, c') \<Longrightarrow> f (cn_tabs c) = Inr (cn_tabs c')"
  by (auto simp: exec_def dest: next_fault_tabs split: prod.splits option.splits sum.splits)

lemma seq_do_None: "seq_do r f = (None, c') \<Longrightarrow> \<exists>c. r = (None, c) \<and> f c = (None, c')"
  by (auto simp: seq_do_def split: prod.splits option.splits)

lemmas getters = getChannelByChannelID_def getMessage_def

text \<open>The tables after one message of a push.\<close>

definition put_message :: "int64 \<Rightarrow> ChannelMessage \<Rightarrow> tables \<Rightarrow> tables" where
  "put_message i m t =
     (let t' = sql_delete_message i (cm_MessageID m) t
      in sql_message_change i m (t'\<lparr>t_messages := t_messages t' @ [(i, message_row m)]\<rparr>))"

definition seq_free :: "int64 \<Rightarrow> ChannelMessage \<Rightarrow> tables \<Rightarrow> bool" where
  "seq_free i m t \<longleftrightarrow> (\<forall>r. (i, r) \<in> set (t_messages t) \<longrightarrow> mr_Seq r = cm_Seq m \<longrightarrow> mr_MessageID r = cm_MessageID m)"

lemma push_message_None:
  assumes "push_message i m c = (None, c')"
  shows "check_prev (sql_message i (cm_MessageID m) (cn_tabs c)) m = None" "seq_free i m (cn_tabs c)"
    "cn_tabs c' = put_message i m (cn_tabs c)"
proof -
  obtain prev c0 where g: "getMessage i (cm_MessageID m) c = (Inr prev, c0)" and p: "check_prev prev m = None"
      and s: "seq_do (exec (\<lambda>t. Inr (sql_delete_message i (cm_MessageID m) t)) c0) (\<lambda>c1.
        seq_do (exec (sql_insert_message i m) c1) (\<lambda>c2. exec (\<lambda>t. Inr (sql_message_change i m t)) c2)) = (None, c')"
    using assms by (auto simp: push_message_def split: prod.splits sum.splits option.splits)
  obtain c1 c2 where st: "exec (\<lambda>t. Inr (sql_delete_message i (cm_MessageID m) t)) c0 = (None, c1)"
      "exec (sql_insert_message i m) c1 = (None, c2)" "exec (\<lambda>t. Inr (sql_message_change i m t)) c2 = (None, c')"
    using s by (auto dest!: seq_do_None)
  have t0: "cn_tabs c0 = cn_tabs c" "prev = sql_message i (cm_MessageID m) (cn_tabs c)"
    using g by (auto simp: getters dest: query_tabs query_Inr)
  show "check_prev (sql_message i (cm_MessageID m) (cn_tabs c)) m = None" using p t0(2) by simp
  have t1: "cn_tabs c1 = sql_delete_message i (cm_MessageID m) (cn_tabs c)" using exec_None [OF st(1)] t0 by simp
  have t2: "sql_insert_message i m (cn_tabs c1) = Inr (cn_tabs c2)" using exec_None [OF st(2)] .
  then have ins: "\<forall>(c, r)\<in>set (t_messages (cn_tabs c1)). \<not> (c = i \<and> (mr_MessageID r = cm_MessageID m \<or> mr_Seq r = cm_Seq m))"
      and t2': "cn_tabs c2 = (cn_tabs c1)\<lparr>t_messages := t_messages (cn_tabs c1) @ [(i, message_row m)]\<rparr>"
    by (auto simp: sql_insert_message_def split: if_splits)
  show "seq_free i m (cn_tabs c)" using ins unfolding t1 by (auto simp: seq_free_def sql_delete_message_def)
  show "cn_tabs c' = put_message i m (cn_tabs c)"
    using exec_None [OF st(3)] t2' t1 by (simp add: put_message_def Let_def)
qed

lemma push_messages_None:
  assumes "push_messages i ms c = (None, c')"
  shows "cn_tabs c' = fold (put_message i) ms (cn_tabs c)"
  using assms by (induction ms arbitrary: c) (auto dest!: seq_do_None push_message_None(3))

section \<open>Lookups\<close>

definition sql_change :: "int64 \<Rightarrow> int64 \<Rightarrow> tables \<Rightarrow> changeRow option" where
  "sql_change i s t = map_option snd (find (\<lambda>(c, r). c = i \<and> xr_Seq r = s) (t_changes t))"

lemma find_append: "find P (xs @ ys) = (case find P xs of None \<Rightarrow> find P ys | Some x \<Rightarrow> Some x)"
  by (induction xs) auto

lemma find_SomeD: "find P xs = Some x \<Longrightarrow> x \<in> set xs \<and> P x"
  by (auto simp: find_Some_iff)

lemma find_filter_same: "(\<And>x. x \<in> set xs \<Longrightarrow> P x \<Longrightarrow> Q x) \<Longrightarrow> find P (filter Q xs) = find P xs"
  by (induction xs) auto

lemma find_upsert:
  assumes "\<And>r. r \<in> set rows \<Longrightarrow> conflict r \<Longrightarrow> P (upd r) \<longleftrightarrow> P r"
  shows "find P (upsert conflict upd new rows) =
    (if \<exists>r\<in>set rows. conflict r then map_option (\<lambda>r. if conflict r then upd r else r) (find P rows)
     else (case find P rows of None \<Rightarrow> if P new then Some new else None | Some r \<Rightarrow> Some r))"
proof (cases "\<exists>r\<in>set rows. conflict r")
  case True
  have "find P (map (\<lambda>r. if conflict r then upd r else r) rows)
      = map_option (\<lambda>r. if conflict r then upd r else r) (find P rows)"
    using assms by (induction rows) auto
  with True show ?thesis by (simp add: upsert_def)
next
  case False
  then show ?thesis by (simp add: upsert_def find_append split: option.split)
qed

lemma sql_message_put:
  "sql_message c k (put_message i m t) =
     (if c = i \<and> k = cm_MessageID m then Some (message_row m) else sql_message c k t)"
proof -
  let ?Q = "\<lambda>(c, r). \<not> (c = i \<and> mr_MessageID r = cm_MessageID m)"
  have ms: "t_messages (put_message i m t) = filter ?Q (t_messages t) @ [(i, message_row m)]"
    by (simp add: put_message_def sql_message_change_def sql_upsert_change_def sql_delete_message_def Let_def)
  have row: "mr_MessageID (message_row m) = cm_MessageID m" by (simp add: message_row_def)
  show ?thesis
  proof (cases "c = i \<and> k = cm_MessageID m")
    case True
    then have "find (\<lambda>(c', r). c' = c \<and> mr_MessageID r = k) (filter ?Q (t_messages t)) = None"
      by (auto simp: find_None_iff)
    with True row show ?thesis by (simp add: sql_message_def ms find_append)
  next
    case False
    then have "find (\<lambda>(c', r). c' = c \<and> mr_MessageID r = k) (filter ?Q (t_messages t)) =
        find (\<lambda>(c', r). c' = c \<and> mr_MessageID r = k) (t_messages t)"
      by (intro find_filter_same) auto
    with False row show ?thesis by (auto simp: sql_message_def ms find_append split: option.split)
  qed
qed

lemma sql_change_upsert:
  assumes "\<And>r. xr_Seq (upd r) = xr_Seq r"
  shows "sql_change c s (sql_upsert_change upd i new t) =
    (if c = i \<and> s = xr_Seq new then Some (case sql_change c s t of None \<Rightarrow> new | Some r \<Rightarrow> upd r) else sql_change c s t)"
proof -
  let ?C = "\<lambda>(c, r). c = i \<and> xr_Seq r = xr_Seq new" and ?P = "\<lambda>(c', r). c' = c \<and> xr_Seq r = s"
  have cs: "t_changes (sql_upsert_change upd i new t) = upsert ?C (\<lambda>(c, r). (c, upd r)) (i, new) (t_changes t)"
    by (simp add: sql_upsert_change_def)
  have f: "find ?P (t_changes (sql_upsert_change upd i new t)) =
      (if \<exists>r\<in>set (t_changes t). ?C r then map_option (\<lambda>r. if ?C r then (\<lambda>(c, r). (c, upd r)) r else r) (find ?P (t_changes t))
       else (case find ?P (t_changes t) of None \<Rightarrow> if ?P (i, new) then Some (i, new) else None | Some r \<Rightarrow> Some r))"
    unfolding cs by (rule find_upsert) (auto simp: assms)
  show ?thesis
  proof (cases "find ?P (t_changes t)")
    case None
    then have "c = i \<and> s = xr_Seq new \<Longrightarrow> \<not> (\<exists>r\<in>set (t_changes t). ?C r)" by (auto simp: find_None_iff)
    with None f show ?thesis by (auto simp: sql_change_def)
  next
    case (Some x)
    then have x: "x \<in> set (t_changes t)" "?P x" using find_SomeD [of ?P] by blast+
    then have "c = i \<and> s = xr_Seq new \<longleftrightarrow> ?C x" by auto
    with Some f x show ?thesis by (auto simp: sql_change_def split: prod.splits)
  qed
qed

lemma set_change_seq [simp]:
  "xr_Seq (set_message_change new r) = xr_Seq r" "xr_Seq (set_profile_change new r) = xr_Seq r"
  "xr_Seq (set_extra_change new r) = xr_Seq r"
  by (simp_all add: set_message_change_def set_profile_change_def set_extra_change_def)

text \<open>The statements do not touch the other tables.\<close>

lemma changes_frame [simp]:
  "t_channels (sql_upsert_change upd i new t) = t_channels t" "t_messages (sql_upsert_change upd i new t) = t_messages t"
  "t_channels (sql_message_change i m t) = t_channels t" "t_messages (sql_message_change i m t) = t_messages t"
  "t_channels (sql_profile_change i p h t) = t_channels t" "t_messages (sql_profile_change i p h t) = t_messages t"
  "t_channels (sql_extra_change i ch t) = t_channels t" "t_messages (sql_extra_change i ch t) = t_messages t"
  by (simp_all add: sql_upsert_change_def sql_message_change_def sql_profile_change_def sql_extra_change_def Let_def)

lemma put_message_channels [simp]: "t_channels (put_message i m t) = t_channels t"
  by (simp add: put_message_def sql_delete_message_def Let_def)

lemma fold_put_channels [simp]: "t_channels (fold (put_message i) ms t) = t_channels t"
  by (induction ms arbitrary: t) simp_all

section \<open>The invariant\<close>

definition channels_ok :: "tables \<Rightarrow> bool" where
  "channels_ok t \<longleftrightarrow> distinct (map cr_ChannelID (t_channels t)) \<and> distinct (map cr_ID (t_channels t))"

definition messages_ok :: "tables \<Rightarrow> bool" where
  "messages_ok t \<longleftrightarrow>
     distinct (map (\<lambda>(c, r). (c, mr_MessageID r)) (t_messages t)) \<and> distinct (map (\<lambda>(c, r). (c, mr_Seq r)) (t_messages t)) \<and>
     fst ` set (t_messages t) \<subseteq> cr_ID ` set (t_channels t)"

definition changes_ok :: "tables \<Rightarrow> bool" where
  "changes_ok t \<longleftrightarrow>
     distinct (map (\<lambda>(c, r). (c, xr_Seq r)) (t_changes t)) \<and> fst ` set (t_changes t) \<subseteq> cr_ID ` set (t_channels t)"

text \<open>
  The constraints that the schema declares, and what the store keeps beyond them as long as
  pushes do not overlap: no message is numbered beyond its channel's head.
\<close>

definition schema_ok :: "tables \<Rightarrow> bool" where
  "schema_ok t \<longleftrightarrow> channels_ok t \<and> messages_ok t \<and> changes_ok t"

definition within_head :: "tables \<Rightarrow> bool" where
  "within_head t \<longleftrightarrow>
     (\<forall>(c, r)\<in>set (t_messages t). \<forall>ch\<in>set (t_channels t). cr_ID ch = c \<longrightarrow> sint (mr_Seq r) \<le> sint (cr_LastSeq ch))"

definition tables_ok :: "tables \<Rightarrow> bool" where
  "tables_ok t \<longleftrightarrow> schema_ok t \<and> within_head t"

lemma tables_ok_empty: "tables_ok empty_tables"
  by (simp add: tables_ok_def schema_ok_def within_head_def channels_ok_def messages_ok_def changes_ok_def empty_tables_def)

lemma tables_ok_schema [dest]: "tables_ok t \<Longrightarrow> schema_ok t"
  by (simp add: tables_ok_def)

lemma sql_channel_Some: "sql_channel cid t = Some r \<Longrightarrow> r \<in> set (t_channels t) \<and> cr_ChannelID r = cid"
  unfolding sql_channel_def by (drule find_SomeD)

lemma sql_channel_iff:
  "channels_ok t \<Longrightarrow> r \<in> set (t_channels t) \<Longrightarrow> sql_channel (cr_ChannelID r) t = Some r"
proof -
  assume d: "channels_ok t" and r: "r \<in> set (t_channels t)"
  then obtain r' where f: "sql_channel (cr_ChannelID r) t = Some r'"
    by (cases "sql_channel (cr_ChannelID r) t") (auto simp: sql_channel_def find_None_iff)
  then have "r' \<in> set (t_channels t)" "cr_ChannelID r' = cr_ChannelID r" using sql_channel_Some by auto
  with d r have "r' = r" by (auto simp: channels_ok_def distinct_map dest: inj_onD)
  with f show ?thesis by simp
qed

lemma same_channel:
  "channels_ok t \<Longrightarrow> r \<in> set (t_channels t) \<Longrightarrow> r' \<in> set (t_channels t) \<Longrightarrow> cr_ID r = cr_ID r' \<Longrightarrow> r = r'"
  by (auto simp: channels_ok_def distinct_map dest: inj_onD)

lemma distinct_map_upsert:
  assumes "distinct (map f rows)" "\<And>r. r \<in> set rows \<Longrightarrow> conflict r \<Longrightarrow> f (upd r) = f r"
    "\<not> (\<exists>r\<in>set rows. conflict r) \<Longrightarrow> f new \<notin> f ` set rows"
  shows "distinct (map f (upsert conflict upd new rows))"
proof (cases "\<exists>r\<in>set rows. conflict r")
  case True
  have "map f (map (\<lambda>r. if conflict r then upd r else r) rows) = map f rows" using assms(2) by simp
  with True assms(1) show ?thesis by (simp only: upsert_def if_P)
next
  case False
  with assms(1,3) show ?thesis by (simp add: upsert_def)
qed

lemma set_upsert_image:
  assumes "\<And>r. r \<in> set rows \<Longrightarrow> conflict r \<Longrightarrow> f (upd r) = f r"
  shows "f ` set (upsert conflict upd new rows) \<subseteq> insert (f new) (f ` set rows)"
  using assms by (auto simp: upsert_def)

lemma upsert_keeps:
  assumes "\<And>r. f (upd r) = f r"
  shows "f ` set rows \<subseteq> f ` set (upsert conflict upd new rows)"
proof (cases "\<exists>r\<in>set rows. conflict r")
  case True
  have "map f (map (\<lambda>r. if conflict r then upd r else r) rows) = map f rows" by (simp add: assms)
  then have "f ` set (map (\<lambda>r. if conflict r then upd r else r) rows) = f ` set rows" by (metis set_map)
  with True show ?thesis by (simp only: upsert_def if_P)
qed (auto simp: upsert_def)

text \<open>Changes may be recorded for every channel that exists.\<close>

lemma schema_ok_change:
  assumes t: "schema_ok t" and i: "i \<in> cr_ID ` set (t_channels t)" and upd: "\<And>r. xr_Seq (upd r) = xr_Seq r"
  shows "schema_ok (sql_upsert_change upd i new t)"
proof -
  let ?C = "\<lambda>(c, r). c = i \<and> xr_Seq r = xr_Seq new" and ?U = "\<lambda>(c, r). (c, upd r)"
  let ?k = "\<lambda>(c, r). (c, xr_Seq r)"
  have cs: "t_changes (sql_upsert_change upd i new t) = upsert ?C ?U (i, new) (t_changes t)"
    by (simp add: sql_upsert_change_def)
  have ok: "distinct (map ?k (t_changes t))" "fst ` set (t_changes t) \<subseteq> cr_ID ` set (t_channels t)"
    using t by (auto simp: schema_ok_def changes_ok_def)
  have "distinct (map ?k (upsert ?C ?U (i, new) (t_changes t)))"
    by (rule distinct_map_upsert [OF ok(1)]) (auto simp: upd)
  moreover have "fst ` set (upsert ?C ?U (i, new) (t_changes t)) \<subseteq> insert i (fst ` set (t_changes t))"
    using set_upsert_image [of "t_changes t" ?C fst ?U "(i, new)"] by (auto split: prod.splits)
  then have "fst ` set (upsert ?C ?U (i, new) (t_changes t)) \<subseteq> cr_ID ` set (t_channels t)" using ok(2) i by blast
  ultimately have "changes_ok (sql_upsert_change upd i new t)" unfolding changes_ok_def cs changes_frame by simp
  then show ?thesis using t by (simp add: schema_ok_def channels_ok_def messages_ok_def)
qed

lemma distinct_put:
  assumes "distinct (map f xs)" "\<And>x. x \<in> set xs \<Longrightarrow> Q x \<Longrightarrow> f x \<noteq> f y"
  shows "distinct (map f (filter Q xs @ [y]))"
proof -
  have "f y \<notin> f ` set (filter Q xs)"
  proof
    assume "f y \<in> f ` set (filter Q xs)"
    then obtain x where "f y = f x" "x \<in> set xs" "Q x" by auto
    with assms(2) show False by metis
  qed
  then show ?thesis using assms(1) by (simp add: distinct_map_filter)
qed

lemma schema_ok_put:
  assumes t: "schema_ok t" and i: "i \<in> cr_ID ` set (t_channels t)" and sq: "seq_free i m t"
  shows "schema_ok (put_message i m t)"
proof -
  let ?Q = "\<lambda>(c, r). \<not> (c = i \<and> mr_MessageID r = cm_MessageID m)"
  let ?ms = "filter ?Q (t_messages t) @ [(i, message_row m)]"
  let ?t = "t\<lparr>t_messages := ?ms\<rparr>"
  have row: "mr_MessageID (message_row m) = cm_MessageID m" "mr_Seq (message_row m) = cm_Seq m"
    by (simp_all add: message_row_def)
  have ok: "messages_ok t" using t by (simp add: schema_ok_def)
  have d: "distinct (map (\<lambda>(c, r). (c, mr_MessageID r)) ?ms)" "distinct (map (\<lambda>(c, r). (c, mr_Seq r)) ?ms)"
    by (rule distinct_put; use ok sq row in \<open>auto simp: messages_ok_def seq_free_def\<close>)+
  have "fst ` set ?ms \<subseteq> cr_ID ` set (t_channels t)" using ok i by (auto simp: messages_ok_def)
  then have "messages_ok ?t" using d by (simp add: messages_ok_def)
  then have "schema_ok ?t" using t by (simp add: schema_ok_def channels_ok_def changes_ok_def)
  moreover have "put_message i m t = sql_message_change i m ?t"
    by (simp add: put_message_def sql_delete_message_def Let_def)
  moreover have "i \<in> cr_ID ` set (t_channels ?t)" using i by simp
  ultimately show ?thesis unfolding sql_message_change_def by (simp add: schema_ok_change)
qed

lemma within_head_put:
  assumes "within_head t" "\<forall>ch\<in>set (t_channels t). cr_ID ch = i \<longrightarrow> sint (cm_Seq m) \<le> sint (cr_LastSeq ch)"
  shows "within_head (put_message i m t)"
proof -
  have ms: "t_messages (put_message i m t) =
      filter (\<lambda>(c, r). \<not> (c = i \<and> mr_MessageID r = cm_MessageID m)) (t_messages t) @ [(i, message_row m)]"
    by (simp add: put_message_def sql_message_change_def sql_delete_message_def Let_def)
  show ?thesis
    using assms unfolding within_head_def ms put_message_channels by (auto simp: message_row_def)
qed

section \<open>The channel's row\<close>

lemma updated_channel_simps [simp]:
  "cr_ID (updated_channel r p h) = cr_ID r" "cr_ChannelID (updated_channel r p h) = cr_ChannelID r"
  "cr_LastSeq (updated_channel r p h) = hd_LastSeq h" "cr_OwnerPeerID (updated_channel r p h) = pr_OwnerPeerID p"
  by (simp_all add: updated_channel_def)

lemma inserted_channel_simps [simp]:
  "cr_ID (inserted_channel i p h) = i" "cr_ChannelID (inserted_channel i p h) = pr_ChannelID p"
  "cr_LastSeq (inserted_channel i p h) = hd_LastSeq h" "cr_OwnerPeerID (inserted_channel i p h) = pr_OwnerPeerID p"
  by (simp_all add: inserted_channel_def)

text \<open>The row of a channel after a push, where \<open>i\<close> is the id that a new channel gets.\<close>

definition pushed_row :: "int64 \<Rightarrow> channelRow option \<Rightarrow> ChannelProfile \<Rightarrow> ChannelHead \<Rightarrow> channelRow" where
  "pushed_row i old p h = (case old of None \<Rightarrow> inserted_channel i p h | Some r \<Rightarrow> updated_channel r p h)"

lemma sql_channel_upsert:
  assumes "t_channels t' = upsert (\<lambda>r. cr_ChannelID r = pr_ChannelID p) (\<lambda>r. updated_channel r p h) (inserted_channel i p h) (t_channels t)"
  shows "sql_channel cid t' =
    (if cid = pr_ChannelID p then Some (pushed_row i (sql_channel cid t) p h) else sql_channel cid t)"
proof -
  let ?C = "\<lambda>r. cr_ChannelID r = pr_ChannelID p" and ?P = "\<lambda>r. cr_ChannelID r = cid"
  have f: "find ?P (upsert ?C (\<lambda>r. updated_channel r p h) (inserted_channel i p h) (t_channels t)) =
      (if \<exists>r\<in>set (t_channels t). ?C r then map_option (\<lambda>r. if ?C r then updated_channel r p h else r) (find ?P (t_channels t))
       else (case find ?P (t_channels t) of
               None \<Rightarrow> if ?P (inserted_channel i p h) then Some (inserted_channel i p h) else None | Some r \<Rightarrow> Some r))"
    by (rule find_upsert) simp
  show ?thesis
  proof (cases "find ?P (t_channels t)")
    case None
    then have "cid = pr_ChannelID p \<Longrightarrow> \<not> (\<exists>r\<in>set (t_channels t). ?C r)" by (auto simp: find_None_iff)
    with None f assms show ?thesis by (auto simp: sql_channel_def pushed_row_def)
  next
    case (Some r)
    then have "r \<in> set (t_channels t)" "cr_ChannelID r = cid" using find_SomeD [of ?P] by blast+
    with Some f assms show ?thesis by (auto simp: sql_channel_def pushed_row_def)
  qed
qed

context autoincrement
begin

lemma upsert_channel:
  assumes t: "schema_ok t" and u: "sql_upsert_channel newid p h t = Inr t'"
  obtains i where "schema_ok t'" "t_messages t' = t_messages t" "t_changes t' = t_changes t"
    "\<forall>cid. sql_channel cid t' =
       (if cid = pr_ChannelID p then Some (pushed_row i (sql_channel cid t) p h) else sql_channel cid t)"
    "newid t = Some i"
proof -
  let ?C = "\<lambda>r. cr_ChannelID r = pr_ChannelID p" and ?U = "\<lambda>r. updated_channel r p h"
  obtain i where i: "newid t = Some i" and t': "t' = t\<lparr>t_channels := upsert ?C ?U (inserted_channel i p h) (t_channels t)\<rparr>"
    using u by (auto simp: sql_upsert_channel_def split: option.splits)
  have ok: "channels_ok t" "messages_ok t" "changes_ok t" using t by (simp_all add: schema_ok_def)
  have "channels_ok t'"
    unfolding channels_ok_def
  proof
    show "distinct (map cr_ChannelID (t_channels t'))" "distinct (map cr_ID (t_channels t'))"
      unfolding t' tables.simps
      by (simp, rule distinct_map_upsert; use ok(1) fresh [OF i] in \<open>auto simp: channels_ok_def\<close>)+
  qed
  moreover have ms: "t_messages t' = t_messages t" "t_changes t' = t_changes t" by (simp_all add: t')
  have "cr_ID ` set (t_channels t) \<subseteq> cr_ID ` set (t_channels t')"
    unfolding t' tables.simps by (simp add: upsert_keeps)
  then have "messages_ok t'" "changes_ok t'"
    using ok(2,3) unfolding messages_ok_def changes_ok_def ms by blast+
  ultimately have "schema_ok t'" by (simp add: schema_ok_def)
  moreover have "t_channels t' = upsert ?C ?U (inserted_channel i p h) (t_channels t)" by (simp add: t')
  ultimately show thesis using that ms i sql_channel_upsert by blast
qed

text \<open>The head of a push that does not lag behind the row covers the messages that are there.\<close>

lemma within_head_upsert:
  assumes t: "tables_ok t" and u: "sql_upsert_channel newid p h t = Inr t'"
    and old: "check_old (sql_channel (pr_ChannelID p) t) h = None"
  shows "within_head t'"
proof -
  let ?C = "\<lambda>r. cr_ChannelID r = pr_ChannelID p" and ?U = "\<lambda>r. updated_channel r p h"
  obtain i where i: "newid t = Some i" and t': "t' = t\<lparr>t_channels := upsert ?C ?U (inserted_channel i p h) (t_channels t)\<rparr>"
    using u by (auto simp: sql_upsert_channel_def split: option.splits)
  have ok: "channels_ok t" "messages_ok t" "within_head t" using t by (simp_all add: tables_ok_def schema_ok_def)
  have row: "\<exists>ch0\<in>set (t_channels t). cr_ID ch0 = cr_ID ch \<and> sint (cr_LastSeq ch0) \<le> sint (cr_LastSeq ch)"
    if ch: "ch \<in> set (t_channels t')" "cr_ID ch \<noteq> i" for ch
  proof (cases "ch \<in> set (t_channels t)")
    case True
    then show ?thesis by blast
  next
    case False
    then obtain ch0 where ch0: "ch0 \<in> set (t_channels t)" "?C ch0" "ch = ?U ch0"
      using ch by (auto simp: t' upsert_def split: if_splits)
    then have "sql_channel (pr_ChannelID p) t = Some ch0" using sql_channel_iff [OF ok(1) ch0(1)] by simp
    then have "sint (cr_LastSeq ch0) \<le> sint (hd_LastSeq h)" using old by (auto simp: check_old_def not_less split: if_splits)
    with ch0 show ?thesis by (intro bexI [of _ ch0]) simp_all
  qed
  have "sint (mr_Seq r) \<le> sint (cr_LastSeq ch)"
    if m: "(cr_ID ch, r) \<in> set (t_messages t)" and ch: "ch \<in> set (t_channels t')" for ch r
  proof -
    have "cr_ID ch \<in> cr_ID ` set (t_channels t)" using ok(2) m unfolding messages_ok_def by (metis fst_conv imageI subsetD)
    then have "cr_ID ch \<noteq> i" using fresh [OF i] by metis
    then obtain ch0 where "ch0 \<in> set (t_channels t)" "cr_ID ch0 = cr_ID ch" "sint (cr_LastSeq ch0) \<le> sint (cr_LastSeq ch)"
      using row [OF ch] by blast
    moreover from this have "sint (mr_Seq r) \<le> sint (cr_LastSeq ch0)" using ok(3) m unfolding within_head_def by fastforce
    ultimately show ?thesis by simp
  qed
  then show ?thesis by (auto simp: within_head_def t')
qed

end

end
