(* ===== verification/ChannelPush.thy ===== *)
theory ChannelPush
  imports ChannelFacts
begin

text \<open>
  What a push does to a channel. A channel is its row, its messages by id and its changes by
  number; a push that succeeds updates exactly one channel, in the way \<open>push_channel\<close> says,
  and a push that fails changes nothing.
\<close>

section \<open>Channels\<close>

record channel =
  chan_row :: channelRow
  chan_messages :: "int64 \<rightharpoonup> messageRow"
  chan_changes :: "int64 \<rightharpoonup> changeRow"

definition channel_of :: "string \<Rightarrow> tables \<Rightarrow> channel option" where
  "channel_of cid t =
     map_option (\<lambda>r. \<lparr>chan_row = r, chan_messages = (\<lambda>k. sql_message (cr_ID r) k t),
                      chan_changes = (\<lambda>s. sql_change (cr_ID r) s t)\<rparr>) (sql_channel cid t)"

definition put_change :: "(changeRow \<Rightarrow> changeRow \<Rightarrow> changeRow) \<Rightarrow> changeRow \<Rightarrow> (int64 \<rightharpoonup> changeRow) \<Rightarrow> (int64 \<rightharpoonup> changeRow)" where
  "put_change upd new C = C(xr_Seq new \<mapsto> (case C (xr_Seq new) of None \<Rightarrow> new | Some r \<Rightarrow> upd new r))"

definition put_row :: "ChannelMessage \<Rightarrow> (int64 \<rightharpoonup> messageRow) \<Rightarrow> (int64 \<rightharpoonup> messageRow)" where
  "put_row m M = M(cm_MessageID m \<mapsto> message_row m)"

definition profile_only :: "channelRow option \<Rightarrow> ChannelProfile \<Rightarrow> ChannelMessage list \<Rightarrow> ChannelChange list \<Rightarrow> bool" where
  "profile_only old p ms chs \<longleftrightarrow>
     sint (case old of None \<Rightarrow> 0 | Some r \<Rightarrow> cr_ProfileVersion r) < sint (pr_ProfileVersion p) \<and> ms = [] \<and> chs = []"

text \<open>
  The channel that a push leaves; \<open>i\<close> is the id of a row that is new, and \<open>seen\<close> the row that
  was there when the push was checked, which is the row of the channel unless another push came
  between.
\<close>

definition push_onto ::
  "channelRow option \<Rightarrow> int64 \<Rightarrow> ChannelProfile \<Rightarrow> ChannelHead \<Rightarrow> ChannelMessage list \<Rightarrow> ChannelChange list \<Rightarrow> channel option \<Rightarrow> channel" where
  "push_onto seen i p h ms chs old =
     (let msgs = (case old of None \<Rightarrow> Map.empty | Some ch \<Rightarrow> chan_messages ch);
          chg = (case old of None \<Rightarrow> Map.empty | Some ch \<Rightarrow> chan_changes ch);
          chg1 = fold (\<lambda>m. put_change set_message_change (message_change m)) ms chg;
          chg2 = (if profile_only seen p ms chs
                  then put_change set_profile_change (profile_change p h) chg1 else chg1)
      in \<lparr>chan_row = pushed_row i (map_option chan_row old) p h,
          chan_messages = fold put_row ms msgs,
          chan_changes = fold (\<lambda>ch. put_change set_extra_change (extra_change ch)) chs chg2\<rparr>)"

definition push_channel ::
  "int64 \<Rightarrow> ChannelProfile \<Rightarrow> ChannelHead \<Rightarrow> ChannelMessage list \<Rightarrow> ChannelChange list \<Rightarrow> channel option \<Rightarrow> channel" where
  "push_channel i p h ms chs old = push_onto (map_option chan_row old) i p h ms chs old"

section \<open>The statements of a push\<close>

definition pushed_tables ::
  "int64 \<Rightarrow> channelRow option \<Rightarrow> ChannelProfile \<Rightarrow> ChannelHead \<Rightarrow> ChannelMessage list \<Rightarrow> ChannelChange list \<Rightarrow> tables \<Rightarrow> tables" where
  "pushed_tables i old p h ms chs t =
     (let t1 = fold (put_message i) ms t;
          t2 = (if profile_only old p ms chs then sql_profile_change i p h t1 else t1)
      in fold (sql_extra_change i) chs t2)"

lemma push_changes_Some:
  assumes "push_changes i p chs c = Some (None, c')"
  shows "\<exists>xs. chs = map Some xs \<and> cn_tabs c' = fold (sql_extra_change i) xs (cn_tabs c)"
  using assms
proof (induction i p chs c rule: push_changes.induct)
  case (3 i p ch chs c)
  obtain c1 where e: "exec (\<lambda>t. Inr (sql_extra_change i ch t)) c = (None, c1)" and r: "push_changes i p chs c1 = Some (None, c')"
      and g: "\<not> (ch_ChannelID ch \<noteq> [] \<and> ch_ChannelID ch \<noteq> pr_ChannelID p)"
    using 3(2) by (auto split: if_splits prod.splits option.splits)
  obtain xs where "chs = map Some xs" "cn_tabs c' = fold (sql_extra_change i) xs (cn_tabs c1)"
    using 3(1) [OF g e [symmetric] refl r] by blast
  with exec_None [OF e] show ?case by (intro exI [of _ "ch # xs"]) simp
qed auto

lemma push_profile_None:
  assumes "push_profile i old p h ms chs c = (None, c')" "chs = map Some xs"
  shows "cn_tabs c' = (if profile_only old p ms xs then sql_profile_change i p h (cn_tabs c) else cn_tabs c)"
  using assms by (auto simp: push_profile_def profile_only_def Let_def split: if_splits dest: exec_None)

lemma push_body_None:
  assumes "push_body newid old p h ms chs c = Some (None, c')"
  obtains t1 r xs c2 c3 where "sql_upsert_channel newid p h (cn_tabs c) = Inr t1" "sql_channel (pr_ChannelID p) t1 = Some r"
    "chs = map Some xs" "cn_tabs c2 = t1" "push_messages (cr_ID r) ms c2 = (None, c3)"
    "cn_tabs c' = pushed_tables (cr_ID r) old p h ms xs t1"
proof -
  obtain c1 where u: "upsertChannel newid p h c = (None, c1)"
    using assms by (auto simp: push_body_def split: prod.splits option.splits)
  obtain r c2 where g: "getChannelByChannelID (pr_ChannelID p) c1 = (Inr (Some r), c2)"
    using assms u by (auto simp: push_body_def split: prod.splits option.splits sum.splits)
  obtain c4 where s: "seq_do (push_messages (cr_ID r) ms c2) (push_profile (cr_ID r) old p h ms chs) = (None, c4)"
      and ch: "push_changes (cr_ID r) p chs c4 = Some (None, c')"
    using assms u g by (auto simp: push_body_def split: prod.splits option.splits)
  obtain c3 where pm: "push_messages (cr_ID r) ms c2 = (None, c3)" and pp: "push_profile (cr_ID r) old p h ms chs c3 = (None, c4)"
    using seq_do_None [OF s] by blast
  obtain xs where xs: "chs = map Some xs" "cn_tabs c' = fold (sql_extra_change (cr_ID r)) xs (cn_tabs c4)"
    using push_changes_Some [OF ch] by blast
  have t1: "sql_upsert_channel newid p h (cn_tabs c) = Inr (cn_tabs c1)" using u by (auto simp: upsertChannel_def dest: exec_None)
  have t2: "cn_tabs c2 = cn_tabs c1" "sql_channel (pr_ChannelID p) (cn_tabs c1) = Some r"
    using g by (auto simp: getters dest: query_tabs query_Inr)
  have "cn_tabs c' = pushed_tables (cr_ID r) old p h ms xs (cn_tabs c1)"
    using xs(2) push_profile_None [OF pp xs(1)] push_messages_None [OF pm] t2(1) by (simp add: pushed_tables_def Let_def)
  then show thesis using that t1 t2 xs(1) pm by blast
qed

section \<open>Their effect on lookups\<close>

lemma sql_frame:
  "t_channels t' = t_channels t \<Longrightarrow> sql_channel cid t' = sql_channel cid t"
  "t_messages t' = t_messages t \<Longrightarrow> sql_message c k t' = sql_message c k t"
  "t_changes t' = t_changes t \<Longrightarrow> sql_change c s t' = sql_change c s t"
  by (simp_all add: sql_channel_def sql_message_def sql_change_def)

lemma fold_extra_frame [simp]:
  "t_channels (fold (sql_extra_change i) xs t) = t_channels t" "t_messages (fold (sql_extra_change i) xs t) = t_messages t"
  by (induction xs arbitrary: t) simp_all

lemma pushed_tables_channels [simp]: "t_channels (pushed_tables i old p h ms xs t) = t_channels t"
  by (simp add: pushed_tables_def Let_def)

lemma sql_message_put_row:
  "(\<lambda>k. sql_message c k (put_message i m t)) =
     (if c = i then put_row m (\<lambda>k. sql_message c k t) else (\<lambda>k. sql_message c k t))"
  by (auto simp: sql_message_put put_row_def)

lemma sql_message_fold:
  "(\<lambda>k. sql_message c k (fold (put_message i) ms t)) =
     (if c = i then fold put_row ms (\<lambda>k. sql_message c k t) else (\<lambda>k. sql_message c k t))"
  by (induction ms arbitrary: t) (simp_all add: sql_message_put_row)

lemma pushed_messages:
  "(\<lambda>k. sql_message c k (pushed_tables i old p h ms xs t)) =
     (if c = i then fold put_row ms (\<lambda>k. sql_message c k t) else (\<lambda>k. sql_message c k t))"
proof -
  have "t_messages (pushed_tables i old p h ms xs t) = t_messages (fold (put_message i) ms t)"
    by (simp add: pushed_tables_def Let_def)
  then have "(\<lambda>k. sql_message c k (pushed_tables i old p h ms xs t)) = (\<lambda>k. sql_message c k (fold (put_message i) ms t))"
    by (intro ext sql_frame(2))
  then show ?thesis by (simp add: sql_message_fold)
qed

lemma sql_change_put:
  assumes "\<And>r. xr_Seq (upd new r) = xr_Seq r"
  shows "(\<lambda>s. sql_change c s (sql_upsert_change (upd new) i new t)) =
    (if c = i then put_change upd new (\<lambda>s. sql_change c s t) else (\<lambda>s. sql_change c s t))"
  by (auto simp: sql_change_upsert [of "upd new", OF assms] put_change_def)

lemma sql_change_put_message:
  "(\<lambda>s. sql_change c s (put_message i m t)) =
     (if c = i then put_change set_message_change (message_change m) (\<lambda>s. sql_change c s t) else (\<lambda>s. sql_change c s t))"
proof -
  let ?t' = "sql_delete_message i (cm_MessageID m) t"
  let ?t = "?t'\<lparr>t_messages := t_messages ?t' @ [(i, message_row m)]\<rparr>"
  have put: "put_message i m t = sql_upsert_change (set_message_change (message_change m)) i (message_change m) ?t"
    by (simp add: put_message_def sql_message_change_def Let_def)
  have frame: "(\<lambda>s. sql_change c s ?t) = (\<lambda>s. sql_change c s t)"
    by (intro ext sql_frame(3)) (simp add: sql_delete_message_def)
  show ?thesis
    unfolding put sql_change_put [of set_message_change "message_change m", OF set_change_seq(1)] frame by (rule refl)
qed

lemma sql_change_fold_put:
  "(\<lambda>s. sql_change c s (fold (put_message i) ms t)) =
     (if c = i then fold (\<lambda>m. put_change set_message_change (message_change m)) ms (\<lambda>s. sql_change c s t)
      else (\<lambda>s. sql_change c s t))"
  by (induction ms arbitrary: t) (simp_all add: sql_change_put_message)

lemma sql_change_fold_extra:
  "(\<lambda>s. sql_change c s (fold (sql_extra_change i) xs t)) =
     (if c = i then fold (\<lambda>ch. put_change set_extra_change (extra_change ch)) xs (\<lambda>s. sql_change c s t)
      else (\<lambda>s. sql_change c s t))"
  by (induction xs arbitrary: t) (simp_all add: sql_extra_change_def sql_change_put)

lemma pushed_changes:
  "(\<lambda>s. sql_change c s (pushed_tables i old p h ms xs t)) =
     (if c = i then
        fold (\<lambda>ch. put_change set_extra_change (extra_change ch)) xs
          (let C = fold (\<lambda>m. put_change set_message_change (message_change m)) ms (\<lambda>s. sql_change c s t)
           in if profile_only old p ms xs then put_change set_profile_change (profile_change p h) C else C)
      else (\<lambda>s. sql_change c s t))"
  by (simp add: pushed_tables_def Let_def sql_change_fold_extra sql_profile_change_def sql_change_put sql_change_fold_put)

section \<open>A push refines the update of one channel\<close>

lemma push_messages_schema:
  assumes "push_messages i ms c = (None, c')" "schema_ok (cn_tabs c)" "i \<in> cr_ID ` set (t_channels (cn_tabs c))"
  shows "schema_ok (cn_tabs c')"
  using assms
proof (induction ms arbitrary: c)
  case (Cons m ms)
  obtain c1 where m: "push_message i m c = (None, c1)" and ms: "push_messages i ms c1 = (None, c')"
    using Cons.prems(1) by (auto dest: seq_do_None)
  note put = push_message_None [OF m]
  have "schema_ok (cn_tabs c1)" unfolding put(3) by (rule schema_ok_put [OF Cons.prems(2,3) put(2)])
  then show ?case using Cons.IH [OF ms] Cons.prems(3) put(3) by simp
qed simp

lemma within_head_fold:
  assumes "within_head t" "\<forall>m\<in>set ms. \<forall>ch\<in>set (t_channels t). cr_ID ch = i \<longrightarrow> sint (cm_Seq m) \<le> sint (cr_LastSeq ch)"
  shows "within_head (fold (put_message i) ms t)"
  using assms
proof (induction ms arbitrary: t)
  case (Cons m ms)
  have "within_head (put_message i m t)" by (rule within_head_put) (use Cons.prems in simp_all)
  then show ?case using Cons.IH [of "put_message i m t"] Cons.prems(2) by simp
qed simp

lemma within_head_pushed:
  "within_head (fold (put_message i) ms t) \<Longrightarrow> within_head (pushed_tables i old p h ms xs t)"
proof -
  have "t_messages (pushed_tables i old p h ms xs t) = t_messages (fold (put_message i) ms t)"
    by (simp add: pushed_tables_def Let_def)
  then show "within_head (fold (put_message i) ms t) \<Longrightarrow> within_head (pushed_tables i old p h ms xs t)"
    by (simp add: within_head_def)
qed

lemma schema_ok_extra:
  "schema_ok t \<Longrightarrow> i \<in> cr_ID ` set (t_channels t) \<Longrightarrow> schema_ok (fold (sql_extra_change i) xs t)"
proof (induction xs arbitrary: t)
  case (Cons x xs)
  have "schema_ok (sql_extra_change i x t)" unfolding sql_extra_change_def by (rule schema_ok_change) (use Cons in simp_all)
  then show ?case using Cons by simp
qed simp

lemma schema_ok_pushed:
  assumes "schema_ok (fold (put_message i) ms t)" "i \<in> cr_ID ` set (t_channels t)"
  shows "schema_ok (pushed_tables i old p h ms xs t)"
proof -
  have "schema_ok (sql_profile_change i p h (fold (put_message i) ms t))"
    unfolding sql_profile_change_def by (rule schema_ok_change) (use assms in simp_all)
  then show ?thesis using assms by (auto simp: pushed_tables_def Let_def intro!: schema_ok_extra)
qed

lemma unused_id:
  assumes "schema_ok t" "i \<notin> cr_ID ` set (t_channels t)"
  shows "(\<lambda>k. sql_message i k t) = Map.empty" "(\<lambda>s. sql_change i s t) = Map.empty"
proof -
  have "c \<in> cr_ID ` set (t_channels t)" if "(c, r) \<in> set (t_messages t)" for c r
    using assms(1) that by (force simp: schema_ok_def messages_ok_def)
  then have "find (\<lambda>(c, r). c = i \<and> mr_MessageID r = k) (t_messages t) = None" for k
    using assms(2) by (auto simp: find_None_iff)
  then show "(\<lambda>k. sql_message i k t) = Map.empty" by (simp add: sql_message_def)
  have "c \<in> cr_ID ` set (t_channels t)" if "(c, r) \<in> set (t_changes t)" for c r
    using assms(1) that by (force simp: schema_ok_def changes_ok_def)
  then have "find (\<lambda>(c, r). c = i \<and> xr_Seq r = s) (t_changes t) = None" for s
    using assms(2) by (auto simp: find_None_iff)
  then show "(\<lambda>s. sql_change i s t) = Map.empty" by (simp add: sql_change_def)
qed

lemma channel_of_None: "channel_of cid t = None \<longleftrightarrow> sql_channel cid t = None"
  by (simp add: channel_of_def)

lemma chan_row_of: "map_option chan_row (channel_of cid t) = sql_channel cid t"
  by (cases "sql_channel cid t") (simp_all add: channel_of_def)

text \<open>The channel, given what the upsert did to its row.\<close>

lemma pushed_channel:
  assumes t: "schema_ok t" and i: "i \<notin> cr_ID ` set (t_channels t)"
    and fr: "t_messages t1 = t_messages t" "t_changes t1 = t_changes t"
    and r: "sql_channel cid t1 = Some r" "r = pushed_row i (sql_channel cid t) p h"
  shows "channel_of cid (pushed_tables (cr_ID r) seen p h ms xs t1) = Some (push_onto seen i p h ms xs (channel_of cid t))"
proof -
  let ?t' = "pushed_tables (cr_ID r) seen p h ms xs t1"
  have row: "sql_channel cid ?t' = Some r" using r(1) sql_frame(1) [of ?t' t1] by simp
  have lk: "(\<lambda>k. sql_message (cr_ID r) k t1) = (\<lambda>k. sql_message (cr_ID r) k t)"
      "(\<lambda>s. sql_change (cr_ID r) s t1) = (\<lambda>s. sql_change (cr_ID r) s t)"
    by (intro ext sql_frame fr)+
  have old: "(\<lambda>k. sql_message (cr_ID r) k t) = (case channel_of cid t of None \<Rightarrow> Map.empty | Some ch \<Rightarrow> chan_messages ch)"
      "(\<lambda>s. sql_change (cr_ID r) s t) = (case channel_of cid t of None \<Rightarrow> Map.empty | Some ch \<Rightarrow> chan_changes ch)"
    using r(2) unused_id [OF t i] by (cases "sql_channel cid t"; simp add: channel_of_def pushed_row_def)+
  have "channel_of cid ?t' = Some \<lparr>chan_row = r, chan_messages = (\<lambda>k. sql_message (cr_ID r) k ?t'),
      chan_changes = (\<lambda>s. sql_change (cr_ID r) s ?t')\<rparr>"
    by (simp add: channel_of_def row)
  also have "\<dots> = Some (push_onto seen i p h ms xs (channel_of cid t))"
    unfolding pushed_messages pushed_changes if_P [OF refl] lk old push_onto_def Let_def chan_row_of r(2) [symmetric]
    by (rule refl)
  finally show ?thesis .
qed

context autoincrement
begin

lemma push_body_effect:
  assumes t: "schema_ok (cn_tabs c)" and b: "push_body newid seen p h ms chs c = Some (None, c')"
  shows "schema_ok (cn_tabs c') \<and>
    (\<exists>i xs. chs = map Some xs \<and>
       channel_of (pr_ChannelID p) (cn_tabs c') = Some (push_onto seen i p h ms xs (channel_of (pr_ChannelID p) (cn_tabs c)))) \<and>
    (\<forall>other. other \<noteq> pr_ChannelID p \<longrightarrow> channel_of other (cn_tabs c') = channel_of other (cn_tabs c))"
proof -
  let ?cid = "pr_ChannelID p" and ?t = "cn_tabs c"
  obtain t1 r xs c2 c3 where u: "sql_upsert_channel newid p h ?t = Inr t1" and r: "sql_channel ?cid t1 = Some r"
      and xs: "chs = map Some xs" and c2: "cn_tabs c2 = t1" and pm: "push_messages (cr_ID r) ms c2 = (None, c3)"
      and t': "cn_tabs c' = pushed_tables (cr_ID r) seen p h ms xs t1"
    by (rule push_body_None [OF b])
  obtain i where ok: "schema_ok t1" "t_messages t1 = t_messages ?t" "t_changes t1 = t_changes ?t"
      and ch: "\<forall>cid. sql_channel cid t1 = (if cid = ?cid then Some (pushed_row i (sql_channel cid ?t) p h) else sql_channel cid ?t)"
      and i: "newid ?t = Some i"
    by (rule upsert_channel [OF t u])
  have rr: "r = pushed_row i (sql_channel ?cid ?t) p h" using r ch [rule_format, of ?cid] by simp
  have rin: "r \<in> set (t_channels t1)" "cr_ChannelID r = ?cid" using sql_channel_Some [OF r] by simp_all
  have "schema_ok (cn_tabs c3)" by (rule push_messages_schema [OF pm]) (use ok(1) c2 rin(1) in simp_all)
  then have "schema_ok (fold (put_message (cr_ID r)) ms t1)" using push_messages_None [OF pm] c2 by simp
  then have "schema_ok (cn_tabs c')" unfolding t' by (rule schema_ok_pushed) (use rin(1) in blast)
  moreover have "channel_of ?cid (cn_tabs c') = Some (push_onto seen i p h ms xs (channel_of ?cid ?t))"
    unfolding t' by (rule pushed_channel [OF t fresh [OF i] ok(2,3) r rr])
  moreover have "channel_of other (cn_tabs c') = channel_of other ?t" if "other \<noteq> ?cid" for other
  proof (cases "sql_channel other ?t")
    case None
    then have "sql_channel other (cn_tabs c') = None" using ch [rule_format, of other] that sql_frame(1) [of "cn_tabs c'" t1] t' by simp
    with None show ?thesis by (simp add: channel_of_def)
  next
    case (Some ro)
    then have so: "sql_channel other t1 = Some ro" using ch [rule_format, of other] that by simp
    have ne: "cr_ID ro \<noteq> cr_ID r"
    proof
      assume "cr_ID ro = cr_ID r"
      moreover have "channels_ok t1" using ok(1) by (simp add: schema_ok_def)
      ultimately have "ro = r" using same_channel sql_channel_Some [OF so] rin(1) by metis
      then show False using sql_channel_Some [OF so] rin(2) that by simp
    qed
    have "sql_channel other (cn_tabs c') = Some ro" using so sql_frame(1) [of "cn_tabs c'" t1] t' by simp
    moreover have "(\<lambda>k. sql_message (cr_ID ro) k (cn_tabs c')) = (\<lambda>k. sql_message (cr_ID ro) k ?t)"
        "(\<lambda>s. sql_change (cr_ID ro) s (cn_tabs c')) = (\<lambda>s. sql_change (cr_ID ro) s ?t)"
      unfolding t' pushed_messages pushed_changes if_not_P [OF ne] by (intro ext sql_frame ok)+
    ultimately show ?thesis using Some by (simp add: channel_of_def)
  qed
  ultimately show ?thesis using xs by blast
qed

text \<open>A push that does not lag behind the row it meets keeps the messages within the head.\<close>

lemma push_body_within:
  assumes t: "tables_ok (cn_tabs c)" and b: "push_body newid seen p h ms chs c = Some (None, c')"
    and old: "check_old (sql_channel (pr_ChannelID p) (cn_tabs c)) h = None"
    and le: "\<forall>m\<in>set ms. sint (cm_Seq m) \<le> sint (hd_LastSeq h)"
  shows "within_head (cn_tabs c')"
proof -
  let ?cid = "pr_ChannelID p" and ?t = "cn_tabs c"
  obtain t1 r xs c2 c3 where u: "sql_upsert_channel newid p h ?t = Inr t1" and r: "sql_channel ?cid t1 = Some r"
      and t': "cn_tabs c' = pushed_tables (cr_ID r) seen p h ms xs t1"
    by (rule push_body_None [OF b])
  obtain i where ok: "schema_ok t1"
      and ch: "\<forall>cid. sql_channel cid t1 = (if cid = ?cid then Some (pushed_row i (sql_channel cid ?t) p h) else sql_channel cid ?t)"
    by (rule upsert_channel [OF tables_ok_schema [OF t] u])
  have "r = pushed_row i (sql_channel ?cid ?t) p h" using r ch [rule_format, of ?cid] by simp
  then have last: "cr_LastSeq r = hd_LastSeq h" by (cases "sql_channel ?cid ?t") (simp_all add: pushed_row_def)
  have "channels_ok t1" using ok by (simp add: schema_ok_def)
  then have "cr_LastSeq ch = hd_LastSeq h" if "ch \<in> set (t_channels t1)" "cr_ID ch = cr_ID r" for ch
    using same_channel [of t1 ch r] sql_channel_Some [OF r] that last by blast
  then have "within_head (fold (put_message (cr_ID r)) ms t1)"
    using within_head_upsert [OF t u old] le by (intro within_head_fold) simp_all
  then show ?thesis unfolding t' by (rule within_head_pushed)
qed

end

end
