(* ===== verification/ChannelService.thy ===== *)
theory ChannelService
  imports ChannelPush Server
begin

text \<open>
  \<open>internal/publicchannel/rpc.go\<close> and \<open>service.go\<close>, and
  \<open>internal/p2p/public_channel_server.go\<close>: the requests and responses of public channels,
  the service that answers them from the store, and the RPC server that reads a request frame
  and writes one response frame. The result None is a panic of the handler.
\<close>

section \<open>Requests and responses\<close>

record PushRequest =
  pq_Profile :: "ChannelProfile option"
  pq_Head :: "ChannelHead option"
  pq_Messages :: "ChannelMessage option list option"
  pq_Changes :: "ChannelChange option list option"

record PushResponse =
  ps_OK :: bool
  ps_ErrorCode :: string
  ps_ErrorMessage :: string

record GetProfileRequest =
  gpq_ChannelID :: string

record GetProfileResponse =
  gps_OK :: bool
  gps_Profile :: "ChannelProfile option"
  gps_ErrorCode :: string
  gps_ErrorMessage :: string

record GetHeadRequest =
  ghq_ChannelID :: string

record GetHeadResponse =
  ghs_OK :: bool
  ghs_Head :: "ChannelHead option"
  ghs_ErrorCode :: string
  ghs_ErrorMessage :: string

record ListMessagesRequest =
  lmq_ChannelID :: string
  lmq_Limit :: int64
  lmq_BeforeMessageID :: "int64 option"

record ListMessagesResponse =
  lms_OK :: bool
  lms_Messages :: "ChannelMessage option list option"
  lms_ErrorCode :: string
  lms_ErrorMessage :: string

record GetMessageRequest =
  gmq_ChannelID :: string
  gmq_MessageID :: int64

record GetMessageResponse =
  gms_OK :: bool
  gms_Message :: "ChannelMessage option"
  gms_ErrorCode :: string
  gms_ErrorMessage :: string

record SyncChannelRequest =
  scq_ChannelID :: string
  scq_AfterSeq :: int64
  scq_Limit :: int64

record SyncChannelResponse =
  scs_OK :: bool
  scs_ChannelID :: string
  scs_CurrentLastSeq :: int64
  scs_HasMore :: bool
  scs_NextAfterSeq :: int64
  scs_Items :: "ChannelChange list option"
  scs_ErrorCode :: string
  scs_ErrorMessage :: string

section \<open>JSON objects\<close>

definition enc_PushResponse :: "PushResponse \<Rightarrow> json" where
  "enc_PushResponse x =
     JObj ([(''ok'', JBool (ps_OK x))]
     @ (if ps_ErrorCode x = [] then [] else [(''error_code'', JStr (ps_ErrorCode x))])
     @ (if ps_ErrorMessage x = [] then [] else [(''error_message'', JStr (ps_ErrorMessage x))]))"

definition enc_GetProfileResponse :: "GetProfileResponse \<Rightarrow> json" where
  "enc_GetProfileResponse x =
     JObj ([(''ok'', JBool (gps_OK x))]
     @ (case gps_Profile x of None \<Rightarrow> [] | Some v \<Rightarrow> [(''profile'', enc_ChannelProfile v)])
     @ (if gps_ErrorCode x = [] then [] else [(''error_code'', JStr (gps_ErrorCode x))])
     @ (if gps_ErrorMessage x = [] then [] else [(''error_message'', JStr (gps_ErrorMessage x))]))"

definition enc_GetHeadResponse :: "GetHeadResponse \<Rightarrow> json" where
  "enc_GetHeadResponse x =
     JObj ([(''ok'', JBool (ghs_OK x))]
     @ (case ghs_Head x of None \<Rightarrow> [] | Some v \<Rightarrow> [(''head'', enc_ChannelHead v)])
     @ (if ghs_ErrorCode x = [] then [] else [(''error_code'', JStr (ghs_ErrorCode x))])
     @ (if ghs_ErrorMessage x = [] then [] else [(''error_message'', JStr (ghs_ErrorMessage x))]))"

definition enc_ListMessagesResponse :: "ListMessagesResponse \<Rightarrow> json" where
  "enc_ListMessagesResponse x =
     JObj ([(''ok'', JBool (lms_OK x))]
     @ (case lms_Messages x of None \<Rightarrow> [] | Some vs \<Rightarrow> if vs = [] then [] else [(''messages'', JArr (map (enc_ptr enc_ChannelMessage) vs))])
     @ (if lms_ErrorCode x = [] then [] else [(''error_code'', JStr (lms_ErrorCode x))])
     @ (if lms_ErrorMessage x = [] then [] else [(''error_message'', JStr (lms_ErrorMessage x))]))"

definition enc_GetMessageResponse :: "GetMessageResponse \<Rightarrow> json" where
  "enc_GetMessageResponse x =
     JObj ([(''ok'', JBool (gms_OK x))]
     @ (case gms_Message x of None \<Rightarrow> [] | Some v \<Rightarrow> [(''message'', enc_ChannelMessage v)])
     @ (if gms_ErrorCode x = [] then [] else [(''error_code'', JStr (gms_ErrorCode x))])
     @ (if gms_ErrorMessage x = [] then [] else [(''error_message'', JStr (gms_ErrorMessage x))]))"

definition enc_SyncChannelResponse :: "SyncChannelResponse \<Rightarrow> json" where
  "enc_SyncChannelResponse x =
     JObj ([(''ok'', JBool (scs_OK x))]
     @ (if scs_ChannelID x = [] then [] else [(''channel_id'', JStr (scs_ChannelID x))])
     @ (if scs_CurrentLastSeq x = 0 then [] else [(''current_last_seq'', jint (scs_CurrentLastSeq x))])
     @ (if scs_HasMore x then [(''has_more'', JBool (scs_HasMore x))] else [])
     @ (if scs_NextAfterSeq x = 0 then [] else [(''next_after_seq'', jint (scs_NextAfterSeq x))])
     @ (case scs_Items x of None \<Rightarrow> [] | Some vs \<Rightarrow> if vs = [] then [] else [(''items'', JArr (map enc_ChannelChange vs))])
     @ (if scs_ErrorCode x = [] then [] else [(''error_code'', JStr (scs_ErrorCode x))])
     @ (if scs_ErrorMessage x = [] then [] else [(''error_message'', JStr (scs_ErrorMessage x))]))"

section \<open>Decoding\<close>

definition zero_PushRequest :: PushRequest where
  "zero_PushRequest =
     \<lparr>pq_Profile = None, pq_Head = None, pq_Messages = None, pq_Changes = None\<rparr>"

definition field_PushRequest :: "PushRequest \<Rightarrow> string \<Rightarrow> json \<Rightarrow> PushRequest option" where
  "field_PushRequest x k v =
     (if key_is ''profile'' k then map_option (\<lambda>y. x\<lparr>pq_Profile := y\<rparr>) (dec_ptr zero_ChannelProfile dec_ChannelProfile (pq_Profile x) v)
      else if key_is ''head'' k then map_option (\<lambda>y. x\<lparr>pq_Head := y\<rparr>) (dec_ptr zero_ChannelHead dec_ChannelHead (pq_Head x) v)
      else if key_is ''messages'' k then map_option (\<lambda>y. x\<lparr>pq_Messages := y\<rparr>) (dec_slice None (dec_ptr zero_ChannelMessage dec_ChannelMessage) (pq_Messages x) v)
      else if key_is ''changes'' k then map_option (\<lambda>y. x\<lparr>pq_Changes := y\<rparr>) (dec_slice None (dec_ptr zero_ChannelChange dec_ChannelChange) (pq_Changes x) v)
      else Some x)"

definition dec_PushRequest :: "PushRequest \<Rightarrow> json \<Rightarrow> PushRequest option" where
  "dec_PushRequest = dec_struct field_PushRequest"

definition zero_GetProfileRequest :: GetProfileRequest where
  "zero_GetProfileRequest =
     \<lparr>gpq_ChannelID = []\<rparr>"

definition field_GetProfileRequest :: "GetProfileRequest \<Rightarrow> string \<Rightarrow> json \<Rightarrow> GetProfileRequest option" where
  "field_GetProfileRequest x k v =
     (if key_is ''channel_id'' k then map_option (\<lambda>y. x\<lparr>gpq_ChannelID := y\<rparr>) (dec_str (gpq_ChannelID x) v)
      else Some x)"

definition dec_GetProfileRequest :: "GetProfileRequest \<Rightarrow> json \<Rightarrow> GetProfileRequest option" where
  "dec_GetProfileRequest = dec_struct field_GetProfileRequest"

definition zero_GetHeadRequest :: GetHeadRequest where
  "zero_GetHeadRequest =
     \<lparr>ghq_ChannelID = []\<rparr>"

definition field_GetHeadRequest :: "GetHeadRequest \<Rightarrow> string \<Rightarrow> json \<Rightarrow> GetHeadRequest option" where
  "field_GetHeadRequest x k v =
     (if key_is ''channel_id'' k then map_option (\<lambda>y. x\<lparr>ghq_ChannelID := y\<rparr>) (dec_str (ghq_ChannelID x) v)
      else Some x)"

definition dec_GetHeadRequest :: "GetHeadRequest \<Rightarrow> json \<Rightarrow> GetHeadRequest option" where
  "dec_GetHeadRequest = dec_struct field_GetHeadRequest"

definition zero_ListMessagesRequest :: ListMessagesRequest where
  "zero_ListMessagesRequest =
     \<lparr>lmq_ChannelID = [], lmq_Limit = 0, lmq_BeforeMessageID = None\<rparr>"

definition field_ListMessagesRequest :: "ListMessagesRequest \<Rightarrow> string \<Rightarrow> json \<Rightarrow> ListMessagesRequest option" where
  "field_ListMessagesRequest x k v =
     (if key_is ''channel_id'' k then map_option (\<lambda>y. x\<lparr>lmq_ChannelID := y\<rparr>) (dec_str (lmq_ChannelID x) v)
      else if key_is ''limit'' k then map_option (\<lambda>y. x\<lparr>lmq_Limit := y\<rparr>) (dec_int (lmq_Limit x) v)
      else if key_is ''before_message_id'' k then map_option (\<lambda>y. x\<lparr>lmq_BeforeMessageID := y\<rparr>) (dec_ptr 0 dec_int (lmq_BeforeMessageID x) v)
      else Some x)"

definition dec_ListMessagesRequest :: "ListMessagesRequest \<Rightarrow> json \<Rightarrow> ListMessagesRequest option" where
  "dec_ListMessagesRequest = dec_struct field_ListMessagesRequest"

definition zero_GetMessageRequest :: GetMessageRequest where
  "zero_GetMessageRequest =
     \<lparr>gmq_ChannelID = [], gmq_MessageID = 0\<rparr>"

definition field_GetMessageRequest :: "GetMessageRequest \<Rightarrow> string \<Rightarrow> json \<Rightarrow> GetMessageRequest option" where
  "field_GetMessageRequest x k v =
     (if key_is ''channel_id'' k then map_option (\<lambda>y. x\<lparr>gmq_ChannelID := y\<rparr>) (dec_str (gmq_ChannelID x) v)
      else if key_is ''message_id'' k then map_option (\<lambda>y. x\<lparr>gmq_MessageID := y\<rparr>) (dec_int (gmq_MessageID x) v)
      else Some x)"

definition dec_GetMessageRequest :: "GetMessageRequest \<Rightarrow> json \<Rightarrow> GetMessageRequest option" where
  "dec_GetMessageRequest = dec_struct field_GetMessageRequest"

definition zero_SyncChannelRequest :: SyncChannelRequest where
  "zero_SyncChannelRequest =
     \<lparr>scq_ChannelID = [], scq_AfterSeq = 0, scq_Limit = 0\<rparr>"

definition field_SyncChannelRequest :: "SyncChannelRequest \<Rightarrow> string \<Rightarrow> json \<Rightarrow> SyncChannelRequest option" where
  "field_SyncChannelRequest x k v =
     (if key_is ''channel_id'' k then map_option (\<lambda>y. x\<lparr>scq_ChannelID := y\<rparr>) (dec_str (scq_ChannelID x) v)
      else if key_is ''after_seq'' k then map_option (\<lambda>y. x\<lparr>scq_AfterSeq := y\<rparr>) (dec_int (scq_AfterSeq x) v)
      else if key_is ''limit'' k then map_option (\<lambda>y. x\<lparr>scq_Limit := y\<rparr>) (dec_int (scq_Limit x) v)
      else Some x)"

definition dec_SyncChannelRequest :: "SyncChannelRequest \<Rightarrow> json \<Rightarrow> SyncChannelRequest option" where
  "dec_SyncChannelRequest = dec_struct field_SyncChannelRequest"

section \<open>The service\<close>

definition push_failed :: "string \<Rightarrow> string \<Rightarrow> PushResponse" where
  "push_failed code msg = \<lparr>ps_OK = False, ps_ErrorCode = code, ps_ErrorMessage = msg\<rparr>"

definition Service_Push ::
  "('pid, 'key) libp2p \<Rightarrow> 'u uuid \<Rightarrow> (goerr \<Rightarrow> string) \<Rightarrow> (tables \<Rightarrow> int64 option) \<Rightarrow> string \<Rightarrow> PushRequest option \<Rightarrow> conn \<Rightarrow>
   (PushResponse \<times> conn) option" where
  "Service_Push L U txt newid remotePeerID req c =
     (case req of
        None \<Rightarrow> Some (push_failed CodeInvalidPayload ''profile and head are required'', c)
      | Some q \<Rightarrow>
          (case (pq_Profile q, pq_Head q) of
             (Some p, Some h) \<Rightarrow>
               (case Store_Push L U txt newid remotePeerID p h (elems (pq_Messages q)) (elems (pq_Changes q)) c of
                  None \<Rightarrow> None
                | Some (Some err, c') \<Rightarrow> Some (push_failed (ErrorCode (Some err)) (ErrorMessage txt (Some err)), c')
                | Some (None, c') \<Rightarrow> Some (\<lparr>ps_OK = True, ps_ErrorCode = [], ps_ErrorMessage = []\<rparr>, c'))
           | _ \<Rightarrow> Some (push_failed CodeInvalidPayload ''profile and head are required'', c)))"

definition profile_failed :: "string \<Rightarrow> string \<Rightarrow> GetProfileResponse" where
  "profile_failed code msg = \<lparr>gps_OK = False, gps_Profile = None, gps_ErrorCode = code, gps_ErrorMessage = msg\<rparr>"

definition Service_GetProfile :: "(goerr \<Rightarrow> string) \<Rightarrow> string \<Rightarrow> conn \<Rightarrow> GetProfileResponse \<times> conn" where
  "Service_GetProfile txt channelID c =
     (if channelID = [] then (profile_failed CodeInvalidPayload ''channel_id is required'', c)
      else case Store_GetProfile channelID c of
             (Inl err, c') \<Rightarrow> (profile_failed CodeInternalError (Error txt err), c')
           | (Inr None, c') \<Rightarrow> (profile_failed CodePublicChannelNotFound ''channel not found'', c')
           | (Inr (Some p), c') \<Rightarrow>
               (\<lparr>gps_OK = True, gps_Profile = Some p, gps_ErrorCode = [], gps_ErrorMessage = []\<rparr>, c'))"

definition head_failed :: "string \<Rightarrow> string \<Rightarrow> GetHeadResponse" where
  "head_failed code msg = \<lparr>ghs_OK = False, ghs_Head = None, ghs_ErrorCode = code, ghs_ErrorMessage = msg\<rparr>"

definition Service_GetHead :: "(goerr \<Rightarrow> string) \<Rightarrow> string \<Rightarrow> conn \<Rightarrow> GetHeadResponse \<times> conn" where
  "Service_GetHead txt channelID c =
     (if channelID = [] then (head_failed CodeInvalidPayload ''channel_id is required'', c)
      else case Store_GetHead channelID c of
             (Inl err, c') \<Rightarrow> (head_failed CodeInternalError (Error txt err), c')
           | (Inr None, c') \<Rightarrow> (head_failed CodePublicChannelNotFound ''channel not found'', c')
           | (Inr (Some h), c') \<Rightarrow>
               (\<lparr>ghs_OK = True, ghs_Head = Some h, ghs_ErrorCode = [], ghs_ErrorMessage = []\<rparr>, c'))"

definition list_failed :: "string \<Rightarrow> string \<Rightarrow> ListMessagesResponse" where
  "list_failed code msg = \<lparr>lms_OK = False, lms_Messages = None, lms_ErrorCode = code, lms_ErrorMessage = msg\<rparr>"

definition Service_ListMessages ::
  "(goerr \<Rightarrow> string) \<Rightarrow> ListMessagesRequest option \<Rightarrow> conn \<Rightarrow> ListMessagesResponse \<times> conn" where
  "Service_ListMessages txt req c =
     (case req of
        None \<Rightarrow> (list_failed CodeInvalidPayload ''channel_id is required'', c)
      | Some q \<Rightarrow>
          if lmq_ChannelID q = [] then (list_failed CodeInvalidPayload ''channel_id is required'', c)
          else case Store_ListMessages (lmq_ChannelID q) (lmq_BeforeMessageID q) (lmq_Limit q) c of
                 (Inl err, c') \<Rightarrow> (list_failed CodeInternalError (Error txt err), c')
               | (Inr None, c') \<Rightarrow> (list_failed CodePublicChannelNotFound ''channel not found'', c')
               | (Inr (Some ms), c') \<Rightarrow>
                   (\<lparr>lms_OK = True, lms_Messages = Some (map Some ms), lms_ErrorCode = [], lms_ErrorMessage = []\<rparr>, c'))"

definition message_failed :: "string \<Rightarrow> string \<Rightarrow> GetMessageResponse" where
  "message_failed code msg = \<lparr>gms_OK = False, gms_Message = None, gms_ErrorCode = code, gms_ErrorMessage = msg\<rparr>"

definition Service_GetMessage :: "(goerr \<Rightarrow> string) \<Rightarrow> string \<Rightarrow> int64 \<Rightarrow> conn \<Rightarrow> GetMessageResponse \<times> conn" where
  "Service_GetMessage txt channelID messageID c =
     (if channelID = [] then (message_failed CodeInvalidPayload ''channel_id is required'', c)
      else case Store_GetMessage channelID messageID c of
             (Inl err, c') \<Rightarrow> (message_failed CodeInternalError (Error txt err), c')
           | (Inr None, c') \<Rightarrow> (message_failed CodePublicChannelNotFound ''message not found'', c')
           | (Inr (Some m), c') \<Rightarrow>
               (\<lparr>gms_OK = True, gms_Message = Some m, gms_ErrorCode = [], gms_ErrorMessage = []\<rparr>, c'))"

definition sync_failed :: "string \<Rightarrow> string \<Rightarrow> SyncChannelResponse" where
  "sync_failed code msg =
     \<lparr>scs_OK = False, scs_ChannelID = [], scs_CurrentLastSeq = 0, scs_HasMore = False, scs_NextAfterSeq = 0,
      scs_Items = None, scs_ErrorCode = code, scs_ErrorMessage = msg\<rparr>"

definition Service_SyncChannel ::
  "(goerr \<Rightarrow> string) \<Rightarrow> SyncChannelRequest option \<Rightarrow> conn \<Rightarrow> SyncChannelResponse \<times> conn" where
  "Service_SyncChannel txt req c =
     (case req of
        None \<Rightarrow> (sync_failed CodeInvalidPayload ''channel_id is required'', c)
      | Some q \<Rightarrow>
          if scq_ChannelID q = [] then (sync_failed CodeInvalidPayload ''channel_id is required'', c)
          else case SyncChanges (scq_ChannelID q) (scq_AfterSeq q) (scq_Limit q) c of
                 (Inl err, c') \<Rightarrow> (sync_failed CodeInternalError (Error txt err), c')
               | (Inr None, c') \<Rightarrow> (sync_failed CodePublicChannelNotFound ''channel not found'', c')
               | (Inr (Some res), c') \<Rightarrow>
                   (\<lparr>scs_OK = True, scs_ChannelID = sr_ChannelID res, scs_CurrentLastSeq = sr_CurrentLastSeq res,
                     scs_HasMore = sr_HasMore res, scs_NextAfterSeq = sr_NextAfterSeq res,
                     scs_Items = Some (sr_Items res), scs_ErrorCode = [], scs_ErrorMessage = []\<rparr>, c'))"

section \<open>The server\<close>

definition PublicChannelRPCProtocol :: string where "PublicChannelRPCProtocol = ''/meshchat/public-channel/rpc/1.0.0''"

definition MethodPublicChannelPush :: string where "MethodPublicChannelPush = ''public_channel.push''"
definition MethodPublicChannelGetProfile :: string where "MethodPublicChannelGetProfile = ''public_channel.get_profile''"
definition MethodPublicChannelGetHead :: string where "MethodPublicChannelGetHead = ''public_channel.get_head''"
definition MethodPublicChannelListMessages :: string where "MethodPublicChannelListMessages = ''public_channel.list_messages''"
definition MethodPublicChannelGetMessage :: string where "MethodPublicChannelGetMessage = ''public_channel.get_message''"
definition MethodPublicChannelSyncChannel :: string where "MethodPublicChannelSyncChannel = ''public_channel.sync_channel''"

record PublicChannelFrameLimits =
  pfl_RPCRequest :: uint32
  pfl_RPCResponse :: uint32

text \<open>The dynamic type of a response body.\<close>

datatype channel_response =
    PushBody PushResponse
  | ProfileBody GetProfileResponse
  | HeadBody GetHeadResponse
  | ListBody ListMessagesResponse
  | MessageBody GetMessageResponse
  | SyncBody SyncChannelResponse

fun enc_channel_response :: "channel_response \<Rightarrow> json" where
  "enc_channel_response (PushBody v) = enc_PushResponse v"
| "enc_channel_response (ProfileBody v) = enc_GetProfileResponse v"
| "enc_channel_response (HeadBody v) = enc_GetHeadResponse v"
| "enc_channel_response (ListBody v) = enc_ListMessagesResponse v"
| "enc_channel_response (MessageBody v) = enc_GetMessageResponse v"
| "enc_channel_response (SyncBody v) = enc_SyncChannelResponse v"

fun response_OK :: "channel_response \<Rightarrow> bool" where
  "response_OK (PushBody v) = ps_OK v"
| "response_OK (ProfileBody v) = gps_OK v"
| "response_OK (HeadBody v) = ghs_OK v"
| "response_OK (ListBody v) = lms_OK v"
| "response_OK (MessageBody v) = gms_OK v"
| "response_OK (SyncBody v) = scs_OK v"

fun errorStringFromInner :: "channel_response \<Rightarrow> string" where
  "errorStringFromInner (PushBody v) = (if ps_OK v then [] else ps_ErrorMessage v)"
| "errorStringFromInner (ProfileBody v) = (if gps_OK v then [] else gps_ErrorMessage v)"
| "errorStringFromInner (HeadBody v) = (if ghs_OK v then [] else ghs_ErrorMessage v)"
| "errorStringFromInner (ListBody v) = (if lms_OK v then [] else lms_ErrorMessage v)"
| "errorStringFromInner (MessageBody v) = (if gms_OK v then [] else gms_ErrorMessage v)"
| "errorStringFromInner (SyncBody v) = (if scs_OK v then [] else scs_ErrorMessage v)"

definition writeRPCBody :: "string \<Rightarrow> channel_response \<Rightarrow> RPCResponse" where
  "writeRPCBody requestID inner =
     (let ok = response_OK inner
      in \<lparr>rresp_RequestID = requestID, rresp_OK = ok, rresp_Error = rpcErrorString ok (errorStringFromInner inner),
          rresp_Body = enc_channel_response inner\<rparr>)"

definition channel_writeRPCUnknownMethod :: "(string \<Rightarrow> string) \<Rightarrow> string \<Rightarrow> string \<Rightarrow> RPCResponse" where
  "channel_writeRPCUnknownMethod quote requestID method =
     (let msg = ''unknown method: '' @ quote method
      in \<lparr>rresp_RequestID = requestID, rresp_OK = False, rresp_Error = msg,
          rresp_Body = enc_RPCErrorBody
            \<lparr>eb_ErrorCode = CodeRPCUnknownMethod, eb_ErrorMessage = msg, eb_Method = method\<rparr>\<rparr>)"

definition channel_writeRPCError :: "string \<Rightarrow> string \<Rightarrow> string \<Rightarrow> RPCResponse" where
  "channel_writeRPCError requestID code errMsg =
     \<lparr>rresp_RequestID = requestID, rresp_OK = False, rresp_Error = errMsg,
      rresp_Body = enc_RPCErrorBody \<lparr>eb_ErrorCode = code, eb_ErrorMessage = errMsg, eb_Method = []\<rparr>\<rparr>"

definition channel_writeRPC :: "PublicChannelFrameLimits \<Rightarrow> rpc_stream \<Rightarrow> RPCResponse \<Rightarrow> writer \<times> stream_end" where
  "channel_writeRPC fl stream resp =
     (case str_writeDeadline stream of
        Some e \<Rightarrow> (str_out stream, Reset)
      | None \<Rightarrow>
          (case WriteJSON (str_out stream) (enc_RPCResponse resp) (pfl_RPCResponse fl) of
             (Some e, w) \<Rightarrow> (w, Reset)
           | (None, w) \<Rightarrow> (w, Closed)))"

definition handlePush ::
  "('pid, 'key) libp2p \<Rightarrow> 'u uuid \<Rightarrow> (goerr \<Rightarrow> string) \<Rightarrow> (tables \<Rightarrow> int64 option) \<Rightarrow> string \<Rightarrow> RPCRequest \<Rightarrow> conn \<Rightarrow>
   (RPCResponse \<times> conn) option" where
  "handlePush L U txt newid remotePeerID rpcReq c =
     (case unmarshal_raw zero_PushRequest dec_PushRequest (rpc_Body rpcReq) of
        Inl err \<Rightarrow>
          Some (writeRPCBody (rpc_RequestID rpcReq) (PushBody (push_failed CodeInvalidPayload (Error txt err))), c)
      | Inr req \<Rightarrow>
          (case Service_Push L U txt newid remotePeerID (Some req) c of
             None \<Rightarrow> None
           | Some (resp, c') \<Rightarrow> Some (writeRPCBody (rpc_RequestID rpcReq) (PushBody resp), c')))"

definition handleGetProfile :: "(goerr \<Rightarrow> string) \<Rightarrow> RPCRequest \<Rightarrow> conn \<Rightarrow> RPCResponse \<times> conn" where
  "handleGetProfile txt rpcReq c =
     (case unmarshal_raw zero_GetProfileRequest dec_GetProfileRequest (rpc_Body rpcReq) of
        Inl err \<Rightarrow>
          (writeRPCBody (rpc_RequestID rpcReq) (ProfileBody (profile_failed CodeInvalidPayload (Error txt err))), c)
      | Inr req \<Rightarrow>
          (case Service_GetProfile txt (gpq_ChannelID req) c of
             (resp, c') \<Rightarrow> (writeRPCBody (rpc_RequestID rpcReq) (ProfileBody resp), c')))"

definition handleGetHead :: "(goerr \<Rightarrow> string) \<Rightarrow> RPCRequest \<Rightarrow> conn \<Rightarrow> RPCResponse \<times> conn" where
  "handleGetHead txt rpcReq c =
     (case unmarshal_raw zero_GetHeadRequest dec_GetHeadRequest (rpc_Body rpcReq) of
        Inl err \<Rightarrow>
          (writeRPCBody (rpc_RequestID rpcReq) (HeadBody (head_failed CodeInvalidPayload (Error txt err))), c)
      | Inr req \<Rightarrow>
          (case Service_GetHead txt (ghq_ChannelID req) c of
             (resp, c') \<Rightarrow> (writeRPCBody (rpc_RequestID rpcReq) (HeadBody resp), c')))"

definition handleListMessages :: "(goerr \<Rightarrow> string) \<Rightarrow> RPCRequest \<Rightarrow> conn \<Rightarrow> RPCResponse \<times> conn" where
  "handleListMessages txt rpcReq c =
     (case unmarshal_raw zero_ListMessagesRequest dec_ListMessagesRequest (rpc_Body rpcReq) of
        Inl err \<Rightarrow>
          (writeRPCBody (rpc_RequestID rpcReq) (ListBody (list_failed CodeInvalidPayload (Error txt err))), c)
      | Inr req \<Rightarrow>
          (case Service_ListMessages txt (Some req) c of
             (resp, c') \<Rightarrow> (writeRPCBody (rpc_RequestID rpcReq) (ListBody resp), c')))"

definition handleGetMessage :: "(goerr \<Rightarrow> string) \<Rightarrow> RPCRequest \<Rightarrow> conn \<Rightarrow> RPCResponse \<times> conn" where
  "handleGetMessage txt rpcReq c =
     (case unmarshal_raw zero_GetMessageRequest dec_GetMessageRequest (rpc_Body rpcReq) of
        Inl err \<Rightarrow>
          (writeRPCBody (rpc_RequestID rpcReq) (MessageBody (message_failed CodeInvalidPayload (Error txt err))), c)
      | Inr req \<Rightarrow>
          (case Service_GetMessage txt (gmq_ChannelID req) (gmq_MessageID req) c of
             (resp, c') \<Rightarrow> (writeRPCBody (rpc_RequestID rpcReq) (MessageBody resp), c')))"

definition handleSyncChannel :: "(goerr \<Rightarrow> string) \<Rightarrow> RPCRequest \<Rightarrow> conn \<Rightarrow> RPCResponse \<times> conn" where
  "handleSyncChannel txt rpcReq c =
     (case unmarshal_raw zero_SyncChannelRequest dec_SyncChannelRequest (rpc_Body rpcReq) of
        Inl err \<Rightarrow>
          (writeRPCBody (rpc_RequestID rpcReq) (SyncBody (sync_failed CodeInvalidPayload (Error txt err))), c)
      | Inr req \<Rightarrow>
          (case Service_SyncChannel txt (Some req) c of
             (resp, c') \<Rightarrow> (writeRPCBody (rpc_RequestID rpcReq) (SyncBody resp), c')))"

definition channel_dispatch ::
  "('pid, 'key) libp2p \<Rightarrow> 'u uuid \<Rightarrow> (goerr \<Rightarrow> string) \<Rightarrow> (string \<Rightarrow> string) \<Rightarrow> (tables \<Rightarrow> int64 option) \<Rightarrow> string \<Rightarrow> bytes \<Rightarrow>
   conn \<Rightarrow> (RPCResponse \<times> conn) option" where
  "channel_dispatch L U txt quote newid remotePeerID frame c =
     (case unmarshal zero_RPCRequest dec_RPCRequest frame of
        Inl err \<Rightarrow> Some (channel_writeRPCError [] CodeRPCInvalidRequest (Error txt err), c)
      | Inr rpcReq \<Rightarrow>
          if rpc_RequestID rpcReq = []
          then Some (channel_writeRPCError [] CodeRPCMissingRequestID ''request_id is required'', c)
          else if rpc_Method rpcReq = MethodPublicChannelPush then handlePush L U txt newid remotePeerID rpcReq c
          else if rpc_Method rpcReq = MethodPublicChannelGetProfile then Some (handleGetProfile txt rpcReq c)
          else if rpc_Method rpcReq = MethodPublicChannelGetHead then Some (handleGetHead txt rpcReq c)
          else if rpc_Method rpcReq = MethodPublicChannelListMessages then Some (handleListMessages txt rpcReq c)
          else if rpc_Method rpcReq = MethodPublicChannelGetMessage then Some (handleGetMessage txt rpcReq c)
          else if rpc_Method rpcReq = MethodPublicChannelSyncChannel then Some (handleSyncChannel txt rpcReq c)
          else Some (channel_writeRPCUnknownMethod quote (rpc_RequestID rpcReq) (rpc_Method rpcReq), c))"

definition channel_HandleRPC ::
  "('pid, 'key) libp2p \<Rightarrow> 'u uuid \<Rightarrow> (goerr \<Rightarrow> string) \<Rightarrow> (string \<Rightarrow> string) \<Rightarrow> (tables \<Rightarrow> int64 option) \<Rightarrow>
   PublicChannelFrameLimits \<Rightarrow> rpc_stream \<Rightarrow> conn \<Rightarrow> (writer \<times> stream_end \<times> conn) option" where
  "channel_HandleRPC L U txt quote newid fl stream c =
     (case str_readDeadline stream of
        Some e \<Rightarrow> Some (str_out stream, Reset, c)
      | None \<Rightarrow>
          (case ReadFrame (str_in stream) (pfl_RPCRequest fl) of
             (Inl e, _) \<Rightarrow> Some (str_out stream, Reset, c)
           | (Inr frame, _) \<Rightarrow>
               (case channel_dispatch L U txt quote newid (str_remote stream) frame c of
                  None \<Rightarrow> None
                | Some (resp, c') \<Rightarrow>
                    (case channel_writeRPC fl stream resp of (w, e) \<Rightarrow> Some (w, e, c')))))"

section \<open>Only a push changes the tables\<close>

lemma getChannel_tabs: "getChannelByChannelID i c = (r, c') \<Longrightarrow> cn_tabs c' = cn_tabs c"
  unfolding getChannelByChannelID_def by (rule query_tabs)

lemma getMessage_tabs: "getMessage i k c = (r, c') \<Longrightarrow> cn_tabs c' = cn_tabs c"
  unfolding getMessage_def by (rule query_tabs)

lemma GetProfile_tabs: "Store_GetProfile i c = (r, c') \<Longrightarrow> cn_tabs c' = cn_tabs c"
  by (auto simp: Store_GetProfile_def dest: getChannel_tabs split: prod.splits sum.splits option.splits if_splits)

lemma GetHead_tabs: "Store_GetHead i c = (r, c') \<Longrightarrow> cn_tabs c' = cn_tabs c"
  by (auto simp: Store_GetHead_def dest: getChannel_tabs split: prod.splits sum.splits option.splits)

lemma GetMessage_tabs: "Store_GetMessage i k c = (r, c') \<Longrightarrow> cn_tabs c' = cn_tabs c"
  by (auto simp: Store_GetMessage_def dest!: getChannel_tabs getMessage_tabs split: prod.splits sum.splits option.splits)

lemma ListMessages_tabs: "Store_ListMessages i b l c = (r, c') \<Longrightarrow> cn_tabs c' = cn_tabs c"
  unfolding Store_ListMessages_def Let_def
  by (auto dest!: getChannel_tabs query_tabs next_fault_tabs split: prod.splits sum.splits option.splits)

lemma SyncChanges_tabs: "SyncChanges i a l c = (r, c') \<Longrightarrow> cn_tabs c' = cn_tabs c"
  unfolding SyncChanges_def Let_def
  by (auto dest!: getChannel_tabs query_tabs next_fault_tabs split: prod.splits sum.splits option.splits)

lemma Service_reads:
  "Service_GetProfile txt i c = (r1, c1) \<Longrightarrow> cn_tabs c1 = cn_tabs c"
  "Service_GetHead txt i c = (r2, c2) \<Longrightarrow> cn_tabs c2 = cn_tabs c"
  "Service_ListMessages txt q3 c = (r3, c3) \<Longrightarrow> cn_tabs c3 = cn_tabs c"
  "Service_GetMessage txt i k c = (r4, c4) \<Longrightarrow> cn_tabs c4 = cn_tabs c"
  "Service_SyncChannel txt q5 c = (r5, c5) \<Longrightarrow> cn_tabs c5 = cn_tabs c"
  by (auto simp: Service_GetProfile_def Service_GetHead_def Service_ListMessages_def Service_GetMessage_def
      Service_SyncChannel_def dest: GetProfile_tabs GetHead_tabs ListMessages_tabs GetMessage_tabs SyncChanges_tabs
      split: prod.splits sum.splits option.splits if_splits)

lemma handle_reads:
  "handleGetProfile txt q c = (r1, c1) \<Longrightarrow> cn_tabs c1 = cn_tabs c"
  "handleGetHead txt q c = (r1, c1) \<Longrightarrow> cn_tabs c1 = cn_tabs c"
  "handleListMessages txt q c = (r1, c1) \<Longrightarrow> cn_tabs c1 = cn_tabs c"
  "handleGetMessage txt q c = (r1, c1) \<Longrightarrow> cn_tabs c1 = cn_tabs c"
  "handleSyncChannel txt q c = (r1, c1) \<Longrightarrow> cn_tabs c1 = cn_tabs c"
  by (auto simp: handleGetProfile_def handleGetHead_def handleListMessages_def handleGetMessage_def handleSyncChannel_def
      dest: Service_reads split: prod.splits sum.splits)

text \<open>A request leaves the tables as they are unless it is a push that the store accepts.\<close>

lemma dispatch_tables:
  assumes "channel_dispatch L U txt quote newid remote frame c = Some (resp, c')"
  shows "cn_tabs c' = cn_tabs c \<or> (\<exists>p h ms chs err. Store_Push L U txt newid remote p h ms chs c = Some (err, c'))"
  using assms
  by (auto simp: channel_dispatch_def handlePush_def Service_Push_def split: sum.splits if_splits option.splits prod.splits
      dest: handle_reads)

end
