(* ===== verification/Decoded.thy ===== *)
theory Decoded
  imports Auth ChannelService
begin

text \<open>
  What the decoder lets in: every text of a value that \<open>encoding/json\<close> decodes is valid
  UTF-8, whatever the bytes it came from, since invalid bytes and lone surrogates are read as
  the replacement character. Messages, requests and channel data that come from the wire or
  from the database are therefore well formed.
\<close>

section \<open>UTF-8 pieces\<close>

lemma utf8_valid_Nil [simp]: "utf8_valid []"
  by (simp add: utf8_valid.simps)

lemma utf8_valid_ascii: "is_ascii c \<Longrightarrow> utf8_valid (c # s) \<longleftrightarrow> utf8_valid s"
  by (simp add: utf8_valid.simps)

lemma utf8_size_append:
  assumes "utf8_size s \<noteq> 0"
  shows "utf8_size (s @ t) = utf8_size s" and "utf8_size s \<le> length s"
proof -
  have two: "2 \<le> length s" using assms by (simp add: utf8_size_def split: if_splits)
  then have "0 < length s" "1 < length s" by linarith+
  then have hd: "(s @ t) ! 0 = s ! 0" "(s @ t) ! 1 = s ! 1" by (simp_all only: nth_append if_True)
  have third: "3 \<le> length s \<Longrightarrow> (s @ t) ! 2 = s ! 2" and fourth: "4 \<le> length s \<Longrightarrow> (s @ t) ! 3 = s ! 3"
    by (simp_all add: nth_append)
  consider (a) "byte_in 0xC2 0xDF (s ! 0) \<and> utf8_cont (s ! 1)"
    | (b) "\<not> (byte_in 0xC2 0xDF (s ! 0) \<and> utf8_cont (s ! 1))" "3 \<le> length s \<and> utf8_start3 (s ! 0) (s ! 1) \<and> utf8_cont (s ! 2)"
    | (c) "\<not> (byte_in 0xC2 0xDF (s ! 0) \<and> utf8_cont (s ! 1))" "\<not> (utf8_start3 (s ! 0) (s ! 1) \<and> utf8_cont (s ! 2))"
      "4 \<le> length s \<and> utf8_start4 (s ! 0) (s ! 1) \<and> utf8_cont (s ! 2) \<and> utf8_cont (s ! 3)"
    using assms two by (fastforce simp: utf8_size_def split: if_splits)
  then have "utf8_size (s @ t) = utf8_size s \<and> utf8_size s \<le> length s"
  proof cases
    case a
    then show ?thesis using two hd by (simp add: utf8_size_def)
  next
    case b
    then show ?thesis using two hd third by (simp add: utf8_size_def)
  next
    case c
    then have "3 \<le> length s" by simp
    then show ?thesis using c two hd third fourth by (simp add: utf8_size_def)
  qed
  then show "utf8_size (s @ t) = utf8_size s" "utf8_size s \<le> length s" by auto
qed

lemma utf8_valid_append: "utf8_valid s \<Longrightarrow> utf8_valid t \<Longrightarrow> utf8_valid (s @ t)"
proof (induction s rule: utf8_valid.induct)
  case 1
  then show ?case by simp
next
  case (2 c cs)
  let ?n = "utf8_size (c # cs)"
  show ?case
  proof (cases "is_ascii c")
    case True
    then show ?thesis using 2 by (simp add: utf8_valid.simps)
  next
    case False
    then have n: "?n \<noteq> 0" "utf8_valid (drop ?n (c # cs))"
      using 2(3) by (auto simp: utf8_valid.simps split: if_splits)
    note ap = utf8_size_append(1) [OF n(1), of t] utf8_size_append(2) [OF n(1)]
    have "utf8_valid (drop ?n (c # cs) @ t)" using 2(2) False n 2(4) by blast
    moreover have "drop ?n (c # cs @ t) = drop ?n (c # cs) @ t"
      unfolding append_Cons [symmetric] drop_append using ap(2) by simp
    ultimately have "utf8_valid (drop ?n (c # cs @ t))" by simp
    then show ?thesis using False n(1) ap(1) by (simp add: utf8_valid.simps)
  qed
qed

lemma utf8_valid_piece:
  assumes "\<not> is_ascii c" "utf8_size (c # s) \<noteq> 0"
  shows "utf8_valid (take (utf8_size (c # s)) (c # s))"
proof -
  let ?n = "utf8_size (c # s)"
  have le: "?n \<le> length (c # s)" by (rule utf8_size_append(2) [OF assms(2)])
  have same: "utf8_size (take ?n (c # s)) = ?n"
    using assms(2) by (auto simp: utf8_size_def nth_append split: if_splits)
  obtain m where m: "?n = Suc m" using assms(2) not0_implies_Suc by blast
  then have "take ?n (c # s) = c # take m s" by simp
  with same assms m show ?thesis by (simp add: utf8_valid.simps)
qed

lemma utf8_valid_replacement: "utf8_valid replacement_char"
  by code_simp

text \<open>A code point that is not a surrogate is encoded as a valid character.\<close>

lemma byte_in_char: "n < 256 \<Longrightarrow> byte_in lo hi (char_of n) \<longleftrightarrow> lo \<le> n \<and> n \<le> hi"
  by (simp add: byte_in_def)

lemma utf8_valid_two: "byte_in 0xC2 0xDF a \<Longrightarrow> utf8_cont b \<Longrightarrow> utf8_valid [a, b]"
  by (simp add: utf8_valid.simps utf8_size_def is_ascii_def byte_in_def)

lemma utf8_valid_three:
  assumes "utf8_start3 a b" "utf8_cont c"
  shows "utf8_valid [a, b, c]"
proof -
  have "224 \<le> (of_char a :: nat)" using assms(1) by (auto simp: utf8_start3_def byte_in_def)
  then have "\<not> is_ascii a" "\<not> byte_in 0xC2 0xDF a" by (simp_all add: is_ascii_def byte_in_def)
  with assms show ?thesis by (simp add: utf8_valid.simps utf8_size_def)
qed

lemma utf8_valid_four:
  assumes "utf8_start4 a b" "utf8_cont c" "utf8_cont d"
  shows "utf8_valid [a, b, c, d]"
proof -
  have "240 \<le> (of_char a :: nat)" using assms(1) by (auto simp: utf8_start4_def byte_in_def)
  then have "\<not> is_ascii a" "\<not> byte_in 0xC2 0xDF a" "\<not> utf8_start3 a b"
    by (simp_all add: is_ascii_def byte_in_def utf8_start3_def)
  with assms show ?thesis by (simp add: utf8_valid.simps utf8_size_def)
qed

lemma utf8_cont_low: "utf8_cont (char_of (0x80 + n mod 64))" for n :: nat
proof -
  have "n mod 64 < 64" by simp
  then have "0x80 + n mod 64 < (256 :: nat)" "0x80 + n mod 64 \<le> (0xBF :: nat)" by linarith+
  then show ?thesis by (simp only: utf8_cont_def byte_in_char) simp
qed

lemma utf8_valid_encode:
  assumes "r < 0x110000" "r < 0xD800 \<or> 0xE000 \<le> r"
  shows "utf8_valid (utf8_encode r)"
proof -
  consider "r < 0x80" | "0x80 \<le> r" "r < 0x800" | "0x800 \<le> r" "r < 0x10000" | "0x10000 \<le> r" by linarith
  then show ?thesis
  proof cases
    case 1
    then show ?thesis by (simp add: utf8_encode_def utf8_valid.simps is_ascii_def)
  next
    case 2
    have d: "r div 64 < 32" "2 \<le> r div 64" using 2 by auto
    then have "byte_in 0xC2 0xDF (char_of (0xC0 + r div 64))" by (subst byte_in_char) auto
    then show ?thesis using utf8_valid_two [OF _ utf8_cont_low] 2 by (simp add: utf8_encode_def)
  next
    case 3
    have d: "r div 4096 < 16" "(r div 64) mod 64 < 64" using 3 by auto
    have lead: "0xE0 + r div 4096 < (256 :: nat)" "0x80 + (r div 64) mod 64 < (256 :: nat)" using d by linarith+
    have q: "r div 4096 = r div 64 div 64" "32 \<le> r div 64" "r div 64 < 864 \<or> 896 \<le> r div 64"
      using 3 assms(2) by (auto simp: div_mult2_eq [symmetric])
    have eq: "r div 64 = 64 * (r div 4096) + r div 64 mod 64" unfolding q(1) by simp
    have low: "32 \<le> (r div 64) mod 64" if "r div 4096 = 0" using that q(2) eq by linarith
    have sur: "(r div 64) mod 64 < 32" if "r div 4096 = 13" using that q(3) eq d(2) by linarith
    have "utf8_start3 (char_of (0xE0 + r div 4096)) (char_of (0x80 + (r div 64) mod 64))"
      using d(1,2) low sur unfolding utf8_start3_def utf8_cont_def byte_in_char [OF lead(1)] byte_in_char [OF lead(2)]
      by linarith
    then show ?thesis using utf8_valid_three [OF _ utf8_cont_low] 3 by (simp add: utf8_encode_def)
  next
    case 4
    have d: "r div 262144 < 5" "(r div 4096) mod 64 < 64" using assms(1) by auto
    have lead: "0xF0 + r div 262144 < (256 :: nat)" "0x80 + (r div 4096) mod 64 < (256 :: nat)" using d by linarith+
    have q: "r div 262144 = r div 4096 div 64" "16 \<le> r div 4096" "r div 4096 < 272"
      using 4 assms(1) by (auto simp: div_mult2_eq [symmetric])
    have eq: "r div 4096 = 64 * (r div 262144) + r div 4096 mod 64" unfolding q(1) by simp
    have low: "16 \<le> (r div 4096) mod 64" if "r div 262144 = 0" using that q(2) eq by linarith
    have high: "(r div 4096) mod 64 < 16" if "r div 262144 = 4" using that q(3) eq by linarith
    have "utf8_start4 (char_of (0xF0 + r div 262144)) (char_of (0x80 + (r div 4096) mod 64))"
      using d(1,2) low high unfolding utf8_start4_def utf8_cont_def byte_in_char [OF lead(1)] byte_in_char [OF lead(2)]
      by linarith
    then show ?thesis using utf8_valid_four [OF _ utf8_cont_low utf8_cont_low] 4 by (simp add: utf8_encode_def)
  qed
qed

section \<open>Strings and tokens\<close>

lemma hex_val_16: "hex_val c = Some v \<Longrightarrow> v < 16"
  by (auto simp: hex_val_def is_digit_def less_eq_char_def split: if_splits)

lemma hex4_less: "hex4 s = Some v \<Longrightarrow> v < 0x10000"
  by (auto simp: hex4_def dest!: hex_val_16 split: list.splits option.splits)

lemma unescape_u_valid: "unescape_u s = Some (t, r) \<Longrightarrow> utf8_valid t"
  by (auto simp: unescape_u_def low_surrogate_def utf8_valid_replacement dest: hex4_less
      intro!: utf8_valid_encode split: option.splits if_splits list.splits)

lemma unescape_valid: "unescape s = Some (t, r) \<Longrightarrow> utf8_valid t"
  by (auto simp: unescape_def utf8_valid_ascii is_ascii_def unescape_u_valid split: list.splits if_splits)

lemma lex_str_valid: "lex_str s = Some (t, r) \<Longrightarrow> utf8_valid t"
proof (induction s arbitrary: t r rule: lex_str.induct)
  case 1
  from 1 show ?case by (subst (asm) lex_str.simps) simp
next
  case (2 c cs)
  from 2(5) [unfolded lex_str.simps(2)] consider (quote) "t = []"
    | (esc) u r' v where "\<not> c = CHR 0x22" "c = CHR 0x5C" "unescape cs = Some (u, r')" "lex_str r' = Some (v, r)" "t = u @ v"
    | (ascii) v where "\<not> c = CHR 0x22" "\<not> c = CHR 0x5C" "\<not> of_char c < (32 :: nat)" "is_ascii c" "lex_str cs = Some (v, r)" "t = [c] @ v"
    | (bad) v where "\<not> c = CHR 0x22" "\<not> c = CHR 0x5C" "\<not> of_char c < (32 :: nat)" "\<not> is_ascii c" "utf8_size (c # cs) = 0" "lex_str cs = Some (v, r)"
        "t = replacement_char @ v"
    | (multi) v where "\<not> c = CHR 0x22" "\<not> c = CHR 0x5C" "\<not> of_char c < (32 :: nat)" "\<not> is_ascii c" "utf8_size (c # cs) \<noteq> 0"
        "lex_str (drop (utf8_size (c # cs)) (c # cs)) = Some (v, r)" "t = take (utf8_size (c # cs)) (c # cs) @ v"
    by (auto split: if_splits option.splits prod.splits)
  then show ?case
  proof cases
    case quote
    then show ?thesis by simp
  next
    case esc
    show ?thesis unfolding esc(5) using unescape_valid [OF esc(3)] 2(1) [OF esc(1-3) refl esc(4)] by (rule utf8_valid_append)
  next
    case ascii
    have "utf8_valid v" by (rule 2(2) [OF ascii(1-5)])
    then show ?thesis using ascii by (simp add: utf8_valid_ascii)
  next
    case bad
    have "utf8_valid v" by (rule 2(3) [OF bad(1-6)])
    then show ?thesis unfolding bad(7) by (rule utf8_valid_append [OF utf8_valid_replacement])
  next
    case multi
    have "utf8_valid v" by (rule 2(4) [OF multi(1-6)])
    then show ?thesis unfolding multi(7) by (rule utf8_valid_append [OF utf8_valid_piece [OF multi(4,5)]])
  qed
qed

fun valid_token :: "token \<Rightarrow> bool" where
  "valid_token (TStr s) = utf8_valid s"
| "valid_token _ = True"

lemma punct_valid: "punct c = Some t \<Longrightarrow> valid_token t"
  by (auto simp: punct_def split: if_splits)

lemma keyword_valid: "keyword s = Some (t, n) \<Longrightarrow> valid_token t"
  by (auto simp: keyword_def split: if_splits)

lemma cons_tok_valid: "cons_tok t m = Some ts \<Longrightarrow> valid_token t \<Longrightarrow> (\<And>us. m = Some us \<Longrightarrow> list_all valid_token us) \<Longrightarrow>
   list_all valid_token ts"
  by (auto simp: cons_tok_def)

lemma lex_valid: "lex s = Some ts \<Longrightarrow> list_all valid_token ts"
proof (induction s arbitrary: ts rule: lex.induct)
  case 1
  then show ?case by (simp add: lex.simps)
next
  case (2 c cs)
  note eq = 2(6) [unfolded lex.simps(2)]
  show ?case
  proof (cases "is_ws c")
    case True
    then show ?thesis using 2(1) eq by simp
  next
    case ws: False
    show ?thesis
    proof (cases "punct c")
      case (Some t)
      with eq ws show ?thesis using cons_tok_valid [of t "GoJson.lex cs" ts] punct_valid [OF Some] 2(5) [OF ws Some] by simp
    next
      case None
      note 3 = 2(2) [OF ws None] and 4 = 2(3) [OF ws None] and 5 = 2(4) [OF ws None]
      from eq ws None consider
          (str) u r where "c = CHR 0x22" "lex_str cs = Some (u, r)" "cons_tok (TStr u) (lex r) = Some ts"
        | (num) u r where "c \<noteq> CHR 0x22" "c = CHR ''-'' \<or> is_digit c" "lex_num (c # cs) = Some (u, r)" "cons_tok (TNum u) (lex r) = Some ts"
        | (kw) u k where "c \<noteq> CHR 0x22" "\<not> (c = CHR ''-'' \<or> is_digit c)" "keyword (c # cs) = Some (u, k)"
            "cons_tok u (lex (drop (k - 1) cs)) = Some ts"
        by (auto split: if_splits option.splits prod.splits)
      then show ?thesis
      proof cases
        case str
        then show ?thesis using cons_tok_valid [OF str(3)] 3 [OF str(1,2) refl] lex_str_valid [OF str(2)] by simp
      next
        case num
        then show ?thesis using cons_tok_valid [OF num(4)] 4 [OF num(1-3) refl] by simp
      next
        case kw
        then show ?thesis using cons_tok_valid [OF kw(4)] 5 [OF kw(1-3) refl] keyword_valid [OF kw(3)] by simp
      qed
    qed
  qed
qed

section \<open>Values\<close>

text \<open>All texts of a JSON value are valid, keys and values.\<close>

fun valid_texts :: "json \<Rightarrow> bool" where
  "valid_texts (JStr s) = utf8_valid s"
| "valid_texts (JArr xs) = (\<forall>x\<in>set xs. valid_texts x)"
| "valid_texts (JObj kvs) = (\<forall>kv\<in>set kvs. utf8_valid (fst kv) \<and> valid_texts (snd kv))"
| "valid_texts _ = True"

fun valid_frame :: "frame \<Rightarrow> bool" where
  "valid_frame (FArr xs) = (\<forall>x\<in>set xs. valid_texts x)"
| "valid_frame (FObj kvs) = (\<forall>kv\<in>set kvs. utf8_valid (fst kv) \<and> valid_texts (snd kv))"
| "valid_frame (FKey kvs k) = (utf8_valid k \<and> (\<forall>kv\<in>set kvs. utf8_valid (fst kv) \<and> valid_texts (snd kv)))"

definition valid_state :: "pmode \<times> frame list \<Rightarrow> bool" where
  "valid_state st \<longleftrightarrow> list_all valid_frame (snd st) \<and> (case fst st of PEnd v \<Rightarrow> valid_texts v | _ \<Rightarrow> True)"

lemma deliver_valid: "deliver v fs = Some st \<Longrightarrow> valid_texts v \<Longrightarrow> list_all valid_frame fs \<Longrightarrow> valid_state st"
  by (auto simp: deliver_def valid_state_def split: list.splits frame.splits)

lemma open_frame_valid:
  "open_frame m f fs = Some st \<Longrightarrow> valid_frame f \<Longrightarrow> list_all valid_frame fs \<Longrightarrow> (\<And>v. m \<noteq> PEnd v) \<Longrightarrow> valid_state st"
  by (cases m) (auto simp: open_frame_def valid_state_def split: if_splits)

lemma start_value_valid:
  assumes "start_value fs t = Some st" "valid_token t" "list_all valid_frame fs"
  shows "valid_state st"
  using assms by (cases t) (simp_all add: start_value_def deliver_valid open_frame_valid)

lemma json_step_valid:
  assumes "json_step (m, fs) t = Some st" "valid_token t" "valid_state (m, fs)"
  shows "valid_state st"
proof -
  have fs: "list_all valid_frame fs" using assms(3) by (simp add: valid_state_def)
  show ?thesis
  proof (cases m)
    case PVal
    then show ?thesis using assms(1,2) fs start_value_valid by (simp add: json_step_def)
  next
    case PArr0
    then obtain xs r where "fs = FArr xs # r"
      using assms(1) by (auto simp: json_step_def split: list.splits frame.splits)
    then show ?thesis
      using assms(1,2) fs PArr0 deliver_valid [of "JArr xs" r] start_value_valid [of "FArr xs # r" t]
      by (auto simp: json_step_def split: if_splits)
  next
    case PArrNext
    then obtain xs r where "fs = FArr xs # r"
      using assms(1) by (auto simp: json_step_def split: list.splits frame.splits)
    then show ?thesis
      using assms(1,2) fs PArrNext deliver_valid [of "JArr xs" r]
      by (auto simp: json_step_def valid_state_def split: if_splits)
  next
    case PObj0
    then obtain kvs r where "fs = FObj kvs # r"
      using assms(1) by (auto simp: json_step_def split: list.splits frame.splits)
    then show ?thesis
      using assms(1,2) fs PObj0 deliver_valid [of "JObj kvs" r]
      by (cases t) (auto simp: json_step_def valid_state_def)
  next
    case PKey
    then obtain kvs r where "fs = FObj kvs # r"
      using assms(1) by (auto simp: json_step_def split: list.splits frame.splits)
    then show ?thesis
      using assms(1,2) fs PKey by (cases t) (auto simp: json_step_def valid_state_def)
  next
    case PColon
    then show ?thesis using assms(1) fs by (auto simp: json_step_def valid_state_def split: if_splits)
  next
    case PObjNext
    then obtain kvs r where "fs = FObj kvs # r"
      using assms(1) by (auto simp: json_step_def split: list.splits frame.splits)
    then show ?thesis
      using assms(1,2) fs PObjNext deliver_valid [of "JObj kvs" r]
      by (auto simp: json_step_def valid_state_def split: if_splits)
  next
    case (PEnd v)
    then show ?thesis using assms(1) by (simp add: json_step_def)
  qed
qed

lemma json_run_valid:
  "json_run st ts = Some st' \<Longrightarrow> list_all valid_token ts \<Longrightarrow> valid_state st \<Longrightarrow> valid_state st'"
proof (induction st ts rule: json_run.induct)
  case (2 st t ts)
  then show ?case using json_step_valid [of "fst st" "snd st" t] by (auto split: option.splits)
qed simp

lemma json_parse_valid: "json_parse s = Some j \<Longrightarrow> valid_texts j"
proof -
  assume "json_parse s = Some j"
  then obtain ts fs where "lex s = Some ts" "json_run (PVal, []) ts = Some (PEnd j, fs)"
    by (auto simp: json_parse_def split: option.splits pmode.splits)
  then show "valid_texts j"
    using json_run_valid [OF _ lex_valid] by (fastforce simp: valid_state_def)
qed

section \<open>Decoded values\<close>

text \<open>A decoder keeps a property of its variable when every value it stores has it.\<close>

definition keeps :: "('a \<Rightarrow> bool) \<Rightarrow> ('a \<Rightarrow> json \<Rightarrow> 'a option) \<Rightarrow> bool" where
  "keeps I d \<longleftrightarrow> (\<forall>x j y. I x \<longrightarrow> valid_texts j \<longrightarrow> d x j = Some y \<longrightarrow> I y)"

lemma keepsD: "keeps I d \<Longrightarrow> I x \<Longrightarrow> valid_texts j \<Longrightarrow> d x j = Some y \<Longrightarrow> I y"
  unfolding keeps_def by blast

lemma keeps_str: "keeps utf8_valid dec_str"
  by (auto simp: keeps_def dec_str_def split: json.splits)

lemma keeps_struct:
  assumes "\<And>x k v y. I x \<Longrightarrow> valid_texts v \<Longrightarrow> f x k v = Some y \<Longrightarrow> I y"
  shows "keeps I (dec_struct f)"
proof -
  have fields: "I y" if "I x" "\<forall>kv\<in>set kvs. valid_texts (snd kv)" "dec_fields f x kvs = Some y" for x kvs y
    using that by (induction kvs arbitrary: x) (auto split: option.splits, metis assms)
  show ?thesis unfolding keeps_def
  proof (intro allI impI)
    fix x j y
    assume "I x" "valid_texts j" "dec_struct f x j = Some y"
    then show "I y" using fields [of x _ y] by (cases j) (auto simp: dec_struct_def)
  qed
qed

lemma keeps_ptr:
  assumes "keeps I d" "I zero"
  shows "keeps (pred_option I) (dec_ptr zero d)"
  unfolding keeps_def
proof (intro allI impI)
  fix x j y
  assume "pred_option I x" "valid_texts j" "dec_ptr zero d x j = Some y"
  then show "pred_option I y"
    using keepsD [OF assms(1), of "case x of None \<Rightarrow> zero | Some x \<Rightarrow> x" j] assms(2)
    by (cases j; cases x) (auto simp: dec_ptr_def)
qed

lemma keeps_slice:
  assumes "keeps I d" "I zero"
  shows "keeps (pred_option (list_all I)) (dec_slice zero d)"
proof -
  have elems: "list_all I ys" if "list_all I cur" "\<forall>j\<in>set js. valid_texts j" "dec_elems zero d cur js = Some ys" for cur js ys
    using that
  proof (induction js arbitrary: cur ys)
    case (Cons j js)
    have "I (case cur of [] \<Rightarrow> zero | x # _ \<Rightarrow> x)" using Cons.prems(1) assms(2) by (cases cur) auto
    moreover have "list_all I (tl cur)" using Cons.prems(1) by (cases cur) auto
    ultimately show ?case
      using Cons.prems(2,3) Cons.IH [of "tl cur"] keepsD [OF assms(1)] by (auto split: option.splits)
  qed simp
  show ?thesis unfolding keeps_def
  proof (intro allI impI)
    fix x j y
    assume "pred_option (list_all I) x" "valid_texts j" "dec_slice zero d x j = Some y"
    then show "pred_option (list_all I) y"
      using elems [of "case x of None \<Rightarrow> [] | Some xs \<Rightarrow> xs"] by (cases j; cases x) (auto simp: dec_slice_def)
  qed
qed

lemma unmarshal_keeps: "unmarshal zero d b = Inr x \<Longrightarrow> keeps I d \<Longrightarrow> I zero \<Longrightarrow> I x"
  by (auto simp: unmarshal_def split: option.splits dest: json_parse_valid keepsD)

lemma unmarshal_raw_keeps:
  "unmarshal_raw zero d b = Inr x \<Longrightarrow> keeps I d \<Longrightarrow> I zero \<Longrightarrow> pred_option valid_texts b \<Longrightarrow> I x"
  by (auto simp: unmarshal_raw_def split: option.splits dest: keepsD)

subsection \<open>Messages and requests\<close>

definition wf_StoreRequest :: "StoreRequest \<Rightarrow> bool" where
  "wf_StoreRequest q \<longleftrightarrow> pred_option wf_Envelope (sreq_Message q)"

definition wf_FetchRequest :: "FetchRequest \<Rightarrow> bool" where
  "wf_FetchRequest q \<longleftrightarrow> utf8_valid (freq_RecipientID q)"

definition wf_RPCRequest :: "RPCRequest \<Rightarrow> bool" where
  "wf_RPCRequest q \<longleftrightarrow> utf8_valid (rpc_RequestID q) \<and> utf8_valid (rpc_Method q) \<and> pred_option valid_texts (rpc_Body q)"

lemma wf_StoredMessage_alt: "wf_StoredMessage m \<longleftrightarrow> pred_option wf_Envelope (sm_Message m)"
  by (simp add: wf_StoredMessage_def split: option.split)

lemma wf_zero [simp]:
  "wf_CipherPayload zero_CipherPayload" "wf_Signature zero_Signature" "wf_Envelope zero_OfflineMessageEnvelope"
  "wf_StoredMessage zero_StoredMessage" "wf_StoreRequest zero_StoreRequest" "wf_FetchRequest zero_FetchRequest"
  "wf_AckRequest zero_AckRequest" "wf_RPCRequest zero_RPCRequest"
  by (simp_all add: wf_CipherPayload_def zero_CipherPayload_def wf_Signature_def zero_Signature_def wf_Envelope_def
      zero_OfflineMessageEnvelope_def wf_StoredMessage_def zero_StoredMessage_def wf_StoreRequest_def zero_StoreRequest_def
      wf_FetchRequest_def zero_FetchRequest_def wf_AckRequest_def zero_AckRequest_def wf_RPCRequest_def zero_RPCRequest_def)

lemma keeps_CipherPayload: "keeps wf_CipherPayload dec_CipherPayload"
  unfolding dec_CipherPayload_def
  by (rule keeps_struct)
    (auto simp: field_CipherPayload_def wf_CipherPayload_def dest: keepsD [OF keeps_str] split: if_splits)

lemma keeps_Signature: "keeps wf_Signature dec_Signature"
  unfolding dec_Signature_def
  by (rule keeps_struct) (auto simp: field_Signature_def wf_Signature_def dest: keepsD [OF keeps_str] split: if_splits)

lemma keeps_Envelope: "keeps wf_Envelope dec_OfflineMessageEnvelope"
  unfolding dec_OfflineMessageEnvelope_def
  by (rule keeps_struct)
    (auto simp: field_OfflineMessageEnvelope_def wf_Envelope_def split: if_splits
      dest: keepsD [OF keeps_str] keepsD [OF keeps_CipherPayload] keepsD [OF keeps_Signature])

lemmas keeps_message = keeps_ptr [OF keeps_Envelope wf_zero(3)]

lemma keeps_StoredMessage: "keeps wf_StoredMessage dec_StoredMessage"
  unfolding dec_StoredMessage_def
  by (rule keeps_struct)
    (auto simp: field_StoredMessage_def wf_StoredMessage_alt split: if_splits dest: keepsD [OF keeps_message])

lemma keeps_StoreRequest: "keeps wf_StoreRequest dec_StoreRequest"
  unfolding dec_StoreRequest_def
  by (rule keeps_struct)
    (auto simp: field_StoreRequest_def wf_StoreRequest_def split: if_splits dest: keepsD [OF keeps_message])

lemma keeps_FetchRequest: "keeps wf_FetchRequest dec_FetchRequest"
  unfolding dec_FetchRequest_def
  by (rule keeps_struct)
    (auto simp: field_FetchRequest_def wf_FetchRequest_def split: if_splits dest: keepsD [OF keeps_str])

lemma keeps_AckRequest: "keeps wf_AckRequest dec_AckRequest"
  unfolding dec_AckRequest_def
  by (rule keeps_struct)
    (auto simp: field_AckRequest_def wf_AckRequest_def split: if_splits dest: keepsD [OF keeps_str])

lemma keeps_RPCRequest: "keeps wf_RPCRequest dec_RPCRequest"
  unfolding dec_RPCRequest_def
  by (rule keeps_struct)
    (auto simp: field_RPCRequest_def wf_RPCRequest_def split: if_splits dest: keepsD [OF keeps_str])

subsection \<open>Channel data\<close>

definition wf_PushRequest :: "PushRequest \<Rightarrow> bool" where
  "wf_PushRequest q \<longleftrightarrow> pred_option wf_ChannelProfile (pq_Profile q) \<and> pred_option wf_ChannelHead (pq_Head q) \<and>
     pred_option (list_all (pred_option wf_ChannelMessage)) (pq_Messages q)"

lemma wf_ChannelProfile_alt: "wf_ChannelProfile p \<longleftrightarrow> utf8_valid (pr_ChannelID p) \<and> utf8_valid (pr_OwnerPeerID p) \<and>
  utf8_valid (pr_Name p) \<and> utf8_valid (pr_Bio p) \<and> pred_option wf_ChannelImage (pr_Avatar p)"
  by (cases "pr_Avatar p") (auto simp: wf_ChannelProfile_def)

lemma wf_ChannelContent_alt: "wf_ChannelContent c \<longleftrightarrow> utf8_valid (cc_Text c) \<and>
  pred_option (list_all wf_ChannelImage) (cc_Images c) \<and> pred_option (list_all wf_ChannelFile) (cc_Files c)"
  by (cases "cc_Images c"; cases "cc_Files c") (auto simp: wf_ChannelContent_def elems_def list_all_iff)

lemma wf_channel_zero [simp]:
  "wf_ChannelImage zero_ChannelImage" "wf_ChannelFile zero_ChannelFile" "wf_ChannelContent zero_ChannelContent"
  "wf_ChannelProfile zero_ChannelProfile" "wf_ChannelHead zero_ChannelHead" "wf_ChannelMessage zero_ChannelMessage"
  "wf_PushRequest zero_PushRequest"
  by (simp_all add: wf_ChannelImage_def zero_ChannelImage_def wf_ChannelFile_def zero_ChannelFile_def
      wf_ChannelContent_alt zero_ChannelContent_def wf_ChannelProfile_alt zero_ChannelProfile_def
      wf_ChannelHead_def zero_ChannelHead_def wf_ChannelMessage_def zero_ChannelMessage_def wf_PushRequest_def
      zero_PushRequest_def)

lemma keeps_ChannelImage: "keeps wf_ChannelImage dec_ChannelImage"
  unfolding dec_ChannelImage_def
  by (rule keeps_struct)
    (auto simp: field_ChannelImage_def wf_ChannelImage_def split: if_splits dest: keepsD [OF keeps_str])

lemma keeps_ChannelFile: "keeps wf_ChannelFile dec_ChannelFile"
  unfolding dec_ChannelFile_def
  by (rule keeps_struct)
    (auto simp: field_ChannelFile_def wf_ChannelFile_def split: if_splits dest: keepsD [OF keeps_str])

lemmas keeps_images = keeps_slice [OF keeps_ChannelImage wf_channel_zero(1)]
lemmas keeps_files = keeps_slice [OF keeps_ChannelFile wf_channel_zero(2)]
lemmas keeps_avatar = keeps_ptr [OF keeps_ChannelImage wf_channel_zero(1)]

lemma keeps_ChannelContent: "keeps wf_ChannelContent dec_ChannelContent"
  unfolding dec_ChannelContent_def
  by (rule keeps_struct)
    (auto simp: field_ChannelContent_def wf_ChannelContent_alt split: if_splits
      dest: keepsD [OF keeps_str] keepsD [OF keeps_images] keepsD [OF keeps_files])

lemma keeps_ChannelProfile: "keeps wf_ChannelProfile dec_ChannelProfile"
  unfolding dec_ChannelProfile_def
  by (rule keeps_struct)
    (auto simp: field_ChannelProfile_def wf_ChannelProfile_alt split: if_splits
      dest: keepsD [OF keeps_str] keepsD [OF keeps_avatar])

lemma keeps_ChannelHead: "keeps wf_ChannelHead dec_ChannelHead"
  unfolding dec_ChannelHead_def
  by (rule keeps_struct)
    (auto simp: field_ChannelHead_def wf_ChannelHead_def split: if_splits dest: keepsD [OF keeps_str])

lemma keeps_ChannelMessage: "keeps wf_ChannelMessage dec_ChannelMessage"
  unfolding dec_ChannelMessage_def
  by (rule keeps_struct)
    (auto simp: field_ChannelMessage_def wf_ChannelMessage_def split: if_splits
      dest: keepsD [OF keeps_str] keepsD [OF keeps_ChannelContent])

lemmas keeps_profile = keeps_ptr [OF keeps_ChannelProfile wf_channel_zero(4)]
lemmas keeps_head = keeps_ptr [OF keeps_ChannelHead wf_channel_zero(5)]
lemmas keeps_post = keeps_ptr [OF keeps_ChannelMessage wf_channel_zero(6)]

lemma keeps_posts: "keeps (pred_option (list_all (pred_option wf_ChannelMessage)))
    (dec_slice None (dec_ptr zero_ChannelMessage dec_ChannelMessage))"
  by (rule keeps_slice [OF keeps_post]) simp

lemma keeps_PushRequest: "keeps wf_PushRequest dec_PushRequest"
  unfolding dec_PushRequest_def
  by (rule keeps_struct)
    (auto simp: field_PushRequest_def wf_PushRequest_def split: if_splits
      dest: keepsD [OF keeps_profile] keepsD [OF keeps_head] keepsD [OF keeps_posts])

end
