(* ===== verification/Node.thy ===== *)
theory Node
  imports Server GcWorker Interleaving Decoded
begin

text \<open>
  The running offline node: request streams of any number of peers, handled concurrently, and
  the garbage collector, over the pebble store and under its faults. What a handler does to the
  store between two of its calls can be interleaved with everything else: a store or an
  acknowledgement reaches the store in one call under the recipient's lock, a fetch reads and
  marks in two. Rate limiters and counters are left arbitrary at every step, which allows every
  interleaving of their use. A step reads the clock at any time up to \<open>rn_now\<close>, which bounds the
  readings so far: the clock may go back, and a reading may be older than the lock it is used under.
  The steps are labelled with the frames that were received, so that
  what becomes of a mailbox can be traced to requests.
\<close>

section \<open>What a frame asks for\<close>

definition frame_request :: "bytes \<Rightarrow> RPCRequest option" where
  "frame_request frame =
     (case unmarshal zero_RPCRequest dec_RPCRequest frame of
        Inl _ \<Rightarrow> None
      | Inr q \<Rightarrow> if rpc_RequestID q = [] then None else Some q)"

definition frame_body :: "string \<Rightarrow> 'a \<Rightarrow> ('a \<Rightarrow> json \<Rightarrow> 'a option) \<Rightarrow> bytes \<Rightarrow> 'a option" where
  "frame_body method zero d frame =
     (case frame_request frame of
        None \<Rightarrow> None
      | Some q \<Rightarrow>
          if rpc_Method q \<noteq> method then None
          else (case unmarshal_raw zero d (rpc_Body q) of Inl _ \<Rightarrow> None | Inr x \<Rightarrow> Some x))"

definition store_frame :: "bytes \<Rightarrow> StoreRequest option" where
  "store_frame = frame_body MethodOfflineStore zero_StoreRequest dec_StoreRequest"

definition fetch_frame :: "bytes \<Rightarrow> FetchRequest option" where
  "fetch_frame = frame_body MethodOfflineFetch zero_FetchRequest dec_FetchRequest"

definition ack_frame :: "bytes \<Rightarrow> AckRequest option" where
  "ack_frame = frame_body MethodOfflineAck zero_AckRequest dec_AckRequest"

section \<open>The steps\<close>

record 'db running =
  rn_db :: 'db
  rn_fetched :: "(string \<times> StoredMessage list) list"
  rn_refs :: "expiredRef list"
  rn_now :: int64

type_synonym received = "(string \<times> bytes) list"

inductive node_step ::
  "'db pebble \<Rightarrow> verifier \<Rightarrow> (goerr \<Rightarrow> string) \<Rightarrow> (string \<Rightarrow> string) \<Rightarrow> StoreService \<Rightarrow> int64 \<Rightarrow>
   'db running \<Rightarrow> received \<Rightarrow> 'db running \<Rightarrow> bool"
  for P V show_err quote cfg mx where
  Request: "n_store n = rn_db s \<Longrightarrow> 0 \<le> sint (c_now c) \<Longrightarrow> sint (c_now c) \<le> sint (rn_now s) \<Longrightarrow> fetch_frame frame = None \<Longrightarrow>
    rpc_dispatch (pebble_store P) V show_err quote cfg mx c c' remote frame n = Some (resp, n') \<Longrightarrow>
    node_step P V show_err quote cfg mx s [(remote, frame)] (s\<lparr>rn_db := n_store n'\<rparr>)"
| Fetch: "n_store n = rn_db s \<Longrightarrow> fetch_frame frame = Some rq \<Longrightarrow>
    Fetch_Handle (pebble_store P) show_err mx c remote (Some rq) n = (resp, n') \<Longrightarrow>
    node_step P V show_err quote cfg mx s [(remote, frame)]
      (s\<lparr>rn_db := n_store n',
         rn_fetched := (if fresp_OK resp then [(freq_RecipientID rq, fresp_Items resp)] else []) @ rn_fetched s\<rparr>)"
| Mark: "(r, items) \<in> set (rn_fetched s) \<Longrightarrow> n_store n = rn_db s \<Longrightarrow>
    Fetch_MarkDelivered (pebble_store P) c r items n = (err, n') \<Longrightarrow>
    node_step P V show_err quote cfg mx s []
      (s\<lparr>rn_db := n_store n', rn_fetched := remove1 (r, items) (rn_fetched s)\<rparr>)"
| Scan: "sint now \<le> sint (rn_now s) \<Longrightarrow> 0 < sint limit \<Longrightarrow>
    db_Iter P (rn_db s) ''exp/'' (expUpperBound now) = Inr (es, ie) \<Longrightarrow> gc_scan poll now limit 0 es [] = (None, broke, i, refs) \<Longrightarrow> broke \<or> ie = None \<Longrightarrow>
    node_step P V show_err quote cfg mx s [] (s\<lparr>rn_refs := refs @ rn_refs s\<rparr>)"
| Collect: "ref \<in> set (rn_refs s) \<Longrightarrow> gc_delete_ref P (rn_db s) ref = (err, d') \<Longrightarrow>
    node_step P V show_err quote cfg mx s [] (s\<lparr>rn_db := d', rn_refs := remove1 ref (rn_refs s)\<rparr>)"
| Clock: "sint (rn_now s) \<le> sint now \<Longrightarrow> node_step P V show_err quote cfg mx s [] (s\<lparr>rn_now := now\<rparr>)"

inductive node_run ::
  "'db pebble \<Rightarrow> verifier \<Rightarrow> (goerr \<Rightarrow> string) \<Rightarrow> (string \<Rightarrow> string) \<Rightarrow> StoreService \<Rightarrow> int64 \<Rightarrow>
   'db running \<Rightarrow> received \<Rightarrow> 'db running \<Rightarrow> bool"
  for P V show_err quote cfg mx s0 where
  Start: "node_run P V show_err quote cfg mx s0 [] s0"
| Step: "node_run P V show_err quote cfg mx s0 ls s \<Longrightarrow> node_step P V show_err quote cfg mx s l s' \<Longrightarrow>
    node_run P V show_err quote cfg mx s0 (ls @ l) s'"

section \<open>What may become of a mailbox\<close>

text \<open>
  A message may be added for a store request that its sender signed, and dropped for an
  acknowledgement that the recipient signed and sent; the delivered frontier moves only when the
  recipient has fetched.
\<close>

definition may_add :: "('pid, 'key) libp2p \<Rightarrow> StoreService \<Rightarrow> received \<Rightarrow> string \<Rightarrow> StoredMessage \<Rightarrow> bool" where
  "may_add L cfg ls r sm \<longleftrightarrow>
     (\<exists>remote frame rq env. (remote, frame) \<in> set ls \<and> store_frame frame = Some rq \<and> sreq_Message rq = Some env \<and>
        RecipientID env = r \<and> sm_Message sm = Some (with_ttl cfg env) \<and>
        messageSize (with_ttl cfg env) \<le> sint (ss_maxMessageSize cfg) \<and>
        signed_by L (SenderID env) (CanonicalMessageEnvelope env (ss_defaultTTLSec cfg)) (env_Signature env))"

definition may_drop :: "('pid, 'key) libp2p \<Rightarrow> received \<Rightarrow> string \<Rightarrow> uint64 \<Rightarrow> bool" where
  "may_drop L ls r s \<longleftrightarrow>
     (\<exists>frame rq. (r, frame) \<in> set ls \<and> ack_frame frame = Some rq \<and> areq_RecipientID rq = r \<and>
        signed_by L r (CanonicalAck rq) (areq_Signature rq) \<and> s \<le> areq_AckSeq rq)"

definition has_fetched :: "received \<Rightarrow> string \<Rightarrow> bool" where
  "has_fetched ls r \<longleftrightarrow> (\<exists>frame rq. (r, frame) \<in> set ls \<and> fetch_frame frame = Some rq \<and> freq_RecipientID rq = r)"

definition permitted ::
  "('pid, 'key) libp2p \<Rightarrow> StoreService \<Rightarrow> received \<Rightarrow> int64 \<Rightarrow> mailboxes \<Rightarrow> mailboxes \<Rightarrow> bool" where
  "permitted L cfg ls now M M' \<longleftrightarrow>
     (\<forall>r. mb_last (M r) \<le> mb_last (M' r) \<and> mb_delivered (M r) \<le> mb_delivered (M' r) \<and>
        (\<forall>s sm. mb_msgs (M' r) s = Some sm \<longrightarrow>
           mb_msgs (M r) s = Some sm \<or> mb_last (M r) < s \<and> may_add L cfg ls r sm) \<and>
        (\<forall>s sm. mb_msgs (M r) s = Some sm \<longrightarrow>
           mb_msgs (M' r) s = Some sm \<or> sint (ExpireAt sm) \<le> sint now \<or>
           may_drop L ls r s \<and> s \<le> mb_delivered (M' r)) \<and>
        (mb_delivered (M' r) \<noteq> mb_delivered (M r) \<longrightarrow> has_fetched ls r))"

lemma permitted_refl [simp]: "permitted L cfg ls now M M"
  by (simp add: permitted_def)

lemma permitted_more:
  assumes "permitted L cfg ls now M M'" "set ls \<subseteq> set ls'"
  shows "permitted L cfg ls' now M M'"
proof -
  have "may_add L cfg ls r sm \<Longrightarrow> may_add L cfg ls' r sm" "may_drop L ls r s \<Longrightarrow> may_drop L ls' r s"
    "has_fetched ls r \<Longrightarrow> has_fetched ls' r" for r s sm
    using assms(2) unfolding may_add_def may_drop_def has_fetched_def by blast+
  then show ?thesis using assms(1) unfolding permitted_def by blast
qed

lemma permitted_trans:
  assumes a: "permitted L cfg ls now M M'" and b: "permitted L cfg ls now' M' M''" and t: "sint now \<le> sint now'"
  shows "permitted L cfg ls now' M M''"
  unfolding permitted_def
proof (intro allI conjI impI)
  fix r
  have mono: "mb_last (M r) \<le> mb_last (M' r)" "mb_delivered (M r) \<le> mb_delivered (M' r)"
    "mb_last (M' r) \<le> mb_last (M'' r)" "mb_delivered (M' r) \<le> mb_delivered (M'' r)"
    using a b by (auto simp: permitted_def)
  then show "mb_last (M r) \<le> mb_last (M'' r)" "mb_delivered (M r) \<le> mb_delivered (M'' r)"
    by (blast intro: order_trans)+
  show "has_fetched ls r" if "mb_delivered (M'' r) \<noteq> mb_delivered (M r)"
    using that a b unfolding permitted_def by metis
  fix s sm
  show "mb_msgs (M r) s = Some sm \<or> mb_last (M r) < s \<and> may_add L cfg ls r sm" if "mb_msgs (M'' r) s = Some sm"
  proof -
    have "mb_msgs (M' r) s = Some sm \<or> mb_last (M' r) < s \<and> may_add L cfg ls r sm"
      using b that unfolding permitted_def by blast
    moreover have "mb_msgs (M' r) s = Some sm \<Longrightarrow> mb_msgs (M r) s = Some sm \<or> mb_last (M r) < s \<and> may_add L cfg ls r sm"
      using a unfolding permitted_def by blast
    ultimately show ?thesis using mono(1) by (auto intro: le_less_trans)
  qed
  show "mb_msgs (M'' r) s = Some sm \<or> sint (ExpireAt sm) \<le> sint now' \<or> may_drop L ls r s \<and> s \<le> mb_delivered (M'' r)"
    if "mb_msgs (M r) s = Some sm"
  proof -
    have "mb_msgs (M' r) s = Some sm \<or> sint (ExpireAt sm) \<le> sint now \<or> may_drop L ls r s \<and> s \<le> mb_delivered (M' r)"
      using a that unfolding permitted_def by blast
    moreover have "mb_msgs (M' r) s = Some sm \<Longrightarrow>
        mb_msgs (M'' r) s = Some sm \<or> sint (ExpireAt sm) \<le> sint now' \<or> may_drop L ls r s \<and> s \<le> mb_delivered (M'' r)"
      using b unfolding permitted_def by blast
    ultimately show ?thesis using mono(4) t by (auto intro: order_trans)
  qed
qed

text \<open>The updates of one mailbox.\<close>

lemma permitted_one:
  assumes "mb_last (M r) \<le> mb_last mb" "mb_delivered (M r) \<le> mb_delivered mb"
    "\<And>s sm. mb_msgs mb s = Some sm \<Longrightarrow> mb_msgs (M r) s = Some sm \<or> mb_last (M r) < s \<and> may_add L cfg ls r sm"
    "\<And>s sm. mb_msgs (M r) s = Some sm \<Longrightarrow> mb_msgs mb s = Some sm \<or> sint (ExpireAt sm) \<le> sint now \<or>
       may_drop L ls r s \<and> s \<le> mb_delivered mb"
    "mb_delivered mb \<noteq> mb_delivered (M r) \<Longrightarrow> has_fetched ls r"
  shows "permitted L cfg ls now M (M(r := mb))"
  using assms by (simp add: permitted_def)

lemma permitted_add:
  assumes "mailbox_ok r (M r)" "mb_last (M r) < StoreSeq sm" "may_add L cfg ls r sm"
  shows "permitted L cfg ls now M (M(r := mb_add sm (M r)))"
proof (rule permitted_one)
  fix s x
  show "mb_msgs (mb_add sm (M r)) s = Some x \<Longrightarrow> mb_msgs (M r) s = Some x \<or> mb_last (M r) < s \<and> may_add L cfg ls r x"
    using assms(2,3) by (auto simp: mb_add_def split: if_splits)
  show "mb_msgs (M r) s = Some x \<Longrightarrow> mb_msgs (mb_add sm (M r)) s = Some x \<or> sint (ExpireAt x) \<le> sint now \<or>
      may_drop L ls r s \<and> s \<le> mb_delivered (mb_add sm (M r))"
    using mailbox_ok_last [OF assms(1), of s x] assms(2) by (auto simp: mb_add_def)
qed (use assms(2) in \<open>simp_all add: mb_add_def\<close>)

lemma permitted_mark:
  assumes "mailbox_ok r (M r)" "has_fetched ls r"
  shows "permitted L cfg ls now M (M(r := mb_mark t D (M r)))"
  using mb_mark_frontier [OF assms(1), of t D] assms(2) by (intro permitted_one) (auto simp: mb_mark_def)

lemma permitted_ack:
  assumes "w \<le> mb_delivered (M r)" "\<And>s. s \<le> w \<Longrightarrow> may_drop L ls r s"
  shows "permitted L cfg ls now M (M(r := mb_ack_upto w (M r)))"
  using assms by (intro permitted_one) (auto simp: mb_ack_upto_def restrict_map_def split: if_splits)

lemma permitted_gc:
  assumes "ref_held M now ref"
  shows "permitted L cfg ls now M (gc_remove ref M)"
proof -
  obtain e r s where ref: "ref = ref_of e r s" and same: "\<forall>sm. mb_msgs (M r) s = Some sm \<longrightarrow> ExpireAt sm = e"
    using assms by (auto simp: ref_held_def ref_safe_def)
  have "sint e \<le> sint now" using assms ref by (simp add: ref_held_def ref_of_def)
  then have "permitted L cfg ls now M (M(r := mb_remove s (M r)))"
    using same by (intro permitted_one) (auto split: if_splits)
  then show ?thesis by (simp add: gc_remove_def ref ref_of_def)
qed

section \<open>What the frames of a request carry\<close>

lemma frame_body_keeps:
  assumes "frame_body method zero d frame = Some x" "keeps I d" "I zero"
  shows "I x"
proof -
  obtain q where q: "unmarshal zero_RPCRequest dec_RPCRequest frame = Inr q" "unmarshal_raw zero d (rpc_Body q) = Inr x"
    using assms(1) by (auto simp: frame_body_def frame_request_def split: sum.splits option.splits if_splits)
  have "wf_RPCRequest q" by (rule unmarshal_keeps [OF q(1) keeps_RPCRequest wf_zero(8)])
  then show ?thesis using unmarshal_raw_keeps [OF q(2) assms(2,3)] by (simp add: wf_RPCRequest_def)
qed

lemma store_frame_wf: "store_frame frame = Some rq \<Longrightarrow> sreq_Message rq = Some env \<Longrightarrow> wf_Envelope env"
  unfolding store_frame_def by (drule frame_body_keeps [OF _ keeps_StoreRequest wf_zero(5)]) (simp add: wf_StoreRequest_def)

lemma methods_differ [simp]:
  "MethodOfflineStore \<noteq> MethodOfflineFetch" "MethodOfflineStore \<noteq> MethodOfflineAck" "MethodOfflineFetch \<noteq> MethodOfflineAck"
  "MethodOfflineFetch \<noteq> MethodOfflineStore" "MethodOfflineAck \<noteq> MethodOfflineStore" "MethodOfflineAck \<noteq> MethodOfflineFetch"
  by (simp_all add: MethodOfflineStore_def MethodOfflineFetch_def MethodOfflineAck_def)

text \<open>What the dispatcher does with a frame that is no good fetch request.\<close>

lemma dispatch_cases:
  assumes "rpc_dispatch S V show_err quote cfg mx c c' remote frame n = Some (resp, n')" "fetch_frame frame = None"
  obtains (refused) "n_store n' = n_store n"
  | (store) rq sresp where "store_frame frame = Some rq" "Store_Handle S V show_err cfg c remote (Some rq) n = Some (sresp, n')"
  | (ack) rq aresp where "ack_frame frame = Some rq" "Ack_Handle S V show_err c remote (Some rq) n = Some (aresp, n')"
proof (cases "frame_request frame")
  case None
  then have "n' = n"
    using assms(1) by (auto simp: frame_request_def rpc_dispatch_def split: sum.splits if_splits)
  then show thesis using refused by simp
next
  case (Some q)
  have q: "unmarshal zero_RPCRequest dec_RPCRequest frame = Inr q" "rpc_RequestID q \<noteq> []"
    using Some by (auto simp: frame_request_def split: sum.splits if_splits)
  consider (s) "rpc_Method q = MethodOfflineStore" | (f) "rpc_Method q = MethodOfflineFetch" | (a) "rpc_Method q = MethodOfflineAck"
    | (x) "rpc_Method q \<noteq> MethodOfflineStore" "rpc_Method q \<noteq> MethodOfflineFetch" "rpc_Method q \<noteq> MethodOfflineAck"
    by blast
  then show thesis
  proof cases
    case s
    then have h: "handleStoreRPC S V show_err cfg c remote q n = Some (resp, n')" using assms(1) q by (simp add: rpc_dispatch_def)
    show thesis
    proof (cases "unmarshal_raw zero_StoreRequest dec_StoreRequest (rpc_Body q)")
      case (Inl e)
      then show thesis using h refused by (simp add: handleStoreRPC_def)
    next
      case (Inr rq)
      then have "store_frame frame = Some rq" using Some s by (simp add: store_frame_def frame_body_def)
      then show thesis using h Inr store by (auto simp: handleStoreRPC_def split: option.splits)
    qed
  next
    case f
    show thesis
    proof (cases "unmarshal_raw zero_FetchRequest dec_FetchRequest (rpc_Body q)")
      case (Inl e)
      then show thesis using assms(1) q f refused by (simp add: rpc_dispatch_def handleFetchRPC_def)
    next
      case (Inr rq)
      then have "fetch_frame frame = Some rq" using Some f by (simp add: fetch_frame_def frame_body_def)
      then show thesis using assms(2) by simp
    qed
  next
    case a
    then have h: "handleAckRPC S V show_err c remote q n = Some (resp, n')" using assms(1) q by (simp add: rpc_dispatch_def)
    show thesis
    proof (cases "unmarshal_raw zero_AckRequest dec_AckRequest (rpc_Body q)")
      case (Inl e)
      then show thesis using h refused by (simp add: handleAckRPC_def)
    next
      case (Inr rq)
      then have "ack_frame frame = Some rq" using Some a by (simp add: ack_frame_def frame_body_def)
      then show thesis using h Inr ack by (auto simp: handleAckRPC_def split: option.splits)
    qed
  next
    case x
    then show thesis using assms(1) q refused by (simp add: rpc_dispatch_def)
  qed
qed

section \<open>The invariant\<close>

lemma sint_add64: "- (2 ^ 63) \<le> sint a + sint b \<Longrightarrow> sint a + sint b < 2 ^ 63 \<Longrightarrow> sint (a + b :: int64) = sint a + sint b"
  by (simp add: sint_word_ariths signed_take_bit_int_eq_self)

text \<open>One step up to the requests received so far.\<close>

definition moves ::
  "('pid, 'key) libp2p \<Rightarrow> StoreService \<Rightarrow> received \<Rightarrow> int64 \<Rightarrow> nat \<Rightarrow> mailboxes \<Rightarrow> mailboxes \<Rightarrow> bool" where
  "moves L cfg ls now k M M' \<longleftrightarrow>
     evolves now M M' \<and> permitted L cfg ls now M M' \<and> (\<forall>r. unat (mb_last (M' r)) \<le> unat (mb_last (M r)) + k)"

lemma moves_refl [simp]: "moves L cfg ls now k M M"
  by (simp add: moves_def)

lemma moves_later:
  assumes "moves L cfg ls t k M M'" "sint t \<le> sint now"
  shows "moves L cfg ls now k M M'"
proof -
  have "permitted L cfg ls now M M'"
    using permitted_trans [OF _ permitted_refl assms(2)] assms(1) unfolding moves_def by blast
  moreover have "evolves now M M'"
    using assms unfolding moves_def evolves_def by (meson order_trans)
  ultimately show ?thesis using assms(1) by (simp add: moves_def)
qed

context pebble_db
begin

definition node_inv :: "received \<Rightarrow> mailboxes \<Rightarrow> 'db running \<Rightarrow> bool" where
  "node_inv ls M s \<longleftrightarrow> pmodel (rn_db s) M \<and> (\<forall>ref\<in>set (rn_refs s). ref_held M (rn_now s) ref) \<and>
     (\<forall>f\<in>set (rn_fetched s). plain (fst f) \<and> has_fetched ls (fst f))"

lemma store_moves:
  assumes m: "pmodel (n_store n) M"
    and h: "Store_Handle (pebble_store P) (NewVerifier L t) show_err cfg c remote (Some rq) n = Some (resp, n')"
    and f: "(remote, frame) \<in> set ls" "store_frame frame = Some rq"
    and r: "\<And>env. sreq_Message rq = Some env \<Longrightarrow> plain (RecipientID env) \<and> mb_last (M (RecipientID env)) \<noteq> - 1"
    and now: "0 \<le> sint (c_now c)" "sint (c_now c) + sint (ss_maxTTLSec cfg) < 2 ^ 63"
  shows "\<exists>M'. pmodel (n_store n') M' \<and> moves L cfg ls (c_now c) 1 M M'"
proof -
  have ttl: "0 \<le> sint (c_now c + EffectiveTTL (Some env) (ss_defaultTTLSec cfg))"
    if "store_admitted (NewVerifier L t) cfg (with_ttl cfg env)" for env
  proof -
    let ?ttl = "EffectiveTTL (Some env) (ss_defaultTTLSec cfg)"
    have "0 < sint ?ttl" "sint ?ttl \<le> sint (ss_maxTTLSec cfg)" using that by (simp_all add: store_admitted_def with_ttl_effective)
    then show ?thesis using now by (subst sint_add64) auto
  qed
  have "if \<not> sresp_OK resp then pmodel (n_store n') M
    else \<exists>q m. Some rq = Some q \<and> sreq_Message q = Some m \<and> store_admitted (NewVerifier L t) cfg (with_ttl cfg m) \<and>
      store_post pmodel M (c_now c)
        \<lparr>StoreSeq = 0, ReceivedAt = 0, ExpireAt = 0, sm_Message = Some (with_ttl cfg m)\<rparr>
        (with_ttl cfg m) (Inr (sresp_StoreSeq resp, sresp_ExpireAt resp, sresp_Duplicate resp)) (n_store n')"
    by (rule storage.Store_Handle_spec [OF m h]) (use r ttl store_frame_wf [OF f(2)] in auto)
  then consider (same) "pmodel (n_store n') M"
    | (new) env where "sreq_Message rq = Some env" "store_admitted (NewVerifier L t) cfg (with_ttl cfg env)"
      "pmodel (n_store n') (M(RecipientID env := mb_add (next_message (M (RecipientID env)) (c_now c)
         \<lparr>StoreSeq = 0, ReceivedAt = 0, ExpireAt = 0, sm_Message = Some (with_ttl cfg env)\<rparr> (with_ttl cfg env)) (M (RecipientID env))))"
    by (auto simp: store_post_def split: if_splits)
  then show ?thesis
  proof cases
    case same
    then show ?thesis using moves_refl by blast
  next
    case new
    let ?r = "RecipientID env"
    let ?sm = "next_message (M ?r) (c_now c)
      \<lparr>StoreSeq = 0, ReceivedAt = 0, ExpireAt = 0, sm_Message = Some (with_ttl cfg env)\<rparr> (with_ttl cfg env)"
    have sm: "StoreSeq ?sm = mb_last (M ?r) + 1" "sm_Message ?sm = Some (with_ttl cfg env)" by (simp_all add: next_message_def)
    have last: "mb_last (M ?r) \<noteq> - 1" using r [OF new(1)] by simp
    then have up: "mb_last (M ?r) < StoreSeq ?sm"
      using word64_le_plus_one [of "mb_last (M ?r)" "mb_last (M ?r) + 1"] sm(1) by simp
    have ok: "mailbox_ok ?r (M ?r)" using m by (auto simp: pmodel_def)
    have "may_add L cfg ls ?r ?sm"
      unfolding may_add_def using f new(1) sm(2) verified_signed [of L t cfg env] new(2) by (auto simp: store_admitted_def)
    then have "permitted L cfg ls (c_now c) M (M(?r := mb_add ?sm (M ?r)))" by (rule permitted_add [of ?r M, OF ok up])
    moreover have "evolves (c_now c) M (M(?r := mb_add ?sm (M ?r)))" by (rule evolves_add [of ?r M, OF ok up])
    moreover have "unat (mb_last (M ?r) + 1) \<le> unat (mb_last (M ?r)) + 1" by (simp add: unat_word_ariths)
    ultimately have "moves L cfg ls (c_now c) 1 M (M(?r := mb_add ?sm (M ?r)))"
      using sm(1) by (auto simp: moves_def mb_add_def)
    with new(3) show ?thesis by blast
  qed
qed

lemma ack_moves:
  assumes m: "pmodel (n_store n) M" and r: "plain remote"
    and h: "Ack_Handle (pebble_store P) (NewVerifier L t) show_err c remote (Some rq) n = Some (resp, n')"
    and f: "(remote, frame) \<in> set ls" "ack_frame frame = Some rq"
  shows "\<exists>M'. pmodel (n_store n') M' \<and> moves L cfg ls now 0 M M'"
proof -
  consider (same) "pmodel (n_store n') M"
    | (upto) w where "areq_RecipientID rq = remote" "VerifyAck (NewVerifier L t) (Some rq) = None"
      "mb_acked (M remote) \<le> w" "w \<le> areq_AckSeq rq" "areq_AckSeq rq \<le> mb_delivered (M remote)"
      "pmodel (n_store n') (M(remote := mb_ack_upto w (M remote)))"
    using storage.Ack_Handle_spec [OF m h r] by blast
  then show ?thesis
  proof cases
    case same
    then show ?thesis using moves_refl by blast
  next
    case upto
    have "signed_by L remote (CanonicalAck rq) (areq_Signature rq)"
      using upto(1,2) by (simp add: NewVerifier_def Peer_VerifyAck_def verify_signed_accepts)
    then have "may_drop L ls remote s" if "s \<le> w" for s
      unfolding may_drop_def using f upto(1,4) order_trans [OF that upto(4)] by blast
    then have "permitted L cfg ls now M (M(remote := mb_ack_upto w (M remote)))"
      using upto(4,5) by (intro permitted_ack) (auto intro: order_trans)
    moreover have "evolves now M (M(remote := mb_ack_upto w (M remote)))" using upto(3) by (rule evolves_ack)
    ultimately have "moves L cfg ls now 0 M (M(remote := mb_ack_upto w (M remote)))" by (simp add: moves_def mb_ack_upto_def)
    with upto(6) show ?thesis by blast
  qed
qed

lemma mark_moves:
  assumes m: "pmodel (n_store n) M" and r: "plain r" "has_fetched ls r"
    and h: "Fetch_MarkDelivered (pebble_store P) c r items n = (err, n')"
  shows "\<exists>M'. pmodel (n_store n') M' \<and> moves L cfg ls now 0 M M'"
proof -
  let ?D = "set (delivered_seqs (map Some items))"
  obtain e st where st: "i_MarkDelivered (pebble_store P) (c_ctx c) (c_now c) (n_store n) r (map Some items) = (e, st)" "n_store n' = st"
    using h by (auto simp: Fetch_MarkDelivered_def split: prod.splits)
  have ok: "mailbox_ok r (M r)" using m by (auto simp: pmodel_def)
  have "moves L cfg ls now 0 M (M(r := mb_mark (c_now c) ?D (M r)))"
    using permitted_mark [of r M, OF ok r(2)] evolves_mark [of r M, OF ok] by (simp add: moves_def mb_mark_def)
  then have "moves L cfg ls now 0 M
      (if e = None \<and> map Some items \<noteq> [] then M(r := mb_mark (c_now c) ?D (M r)) else M)" by simp
  with storage.mark_law [OF m r(1) st(1)] st(2) show ?thesis by blast
qed

lemma node_inv_store:
  assumes "node_inv ls M s" "pmodel d' M'" "moves L cfg ls (rn_now s) k M M'" "set fs \<subseteq> set (rn_fetched s)"
    "set refs \<subseteq> set (rn_refs s)"
  shows "node_inv ls M' (s\<lparr>rn_db := d', rn_fetched := fs, rn_refs := refs\<rparr>)"
  using assms ref_held_evolves [of M "rn_now s" _ "rn_now s" M' "rn_now s"] by (auto simp: node_inv_def moves_def)

lemma node_inv_more: "node_inv ls M s \<Longrightarrow> node_inv (ls @ l) M s"
proof -
  have "has_fetched ls r \<Longrightarrow> has_fetched (ls @ l) r" for r unfolding has_fetched_def by auto
  then show "node_inv ls M s \<Longrightarrow> node_inv (ls @ l) M s" by (auto simp: node_inv_def)
qed

lemma gc_moves:
  assumes held: "ref_held M now ref" and m: "pmodel d M" and h: "gc_delete_ref P d ref = (err, d')"
  shows "\<exists>M'. pmodel d' M' \<and> moves L cfg ls now 0 M M'"
proof -
  have safe: "ref_safe M ref" using held by (simp add: ref_held_def)
  have "repr (if err = None then gc_remove ref M else M) (view d')"
    using gc_ref_refines [OF m [unfolded pmodel_def] safe h] by simp
  moreover have "mb_last (gc_remove ref M r) = mb_last (M r)" for r by (simp add: gc_remove_def)
  then have "moves L cfg ls now 0 M (gc_remove ref M)"
    using permitted_gc [OF held] evolves_gc [OF held] by (simp add: moves_def)
  then have "moves L cfg ls now 0 M (if err = None then gc_remove ref M else M)" by simp
  ultimately show ?thesis by (auto simp: pmodel_def)
qed

text \<open>The frames received and what the clock may read.\<close>

lemma node_step_moves:
  assumes inv: "node_inv ls M s" and step: "node_step P (NewVerifier L t) show_err quote cfg mx s l s'"
    and l: "\<forall>(remote, frame)\<in>set l. plain remote \<and>
      (\<forall>rq env. store_frame frame = Some rq \<longrightarrow> sreq_Message rq = Some env \<longrightarrow> plain (RecipientID env))"
    and last: "\<forall>r. mb_last (M r) \<noteq> - 1"
    and now: "sint (rn_now s) + sint (ss_maxTTLSec cfg) < 2 ^ 63"
  shows "\<exists>M'. node_inv (ls @ l) M' s' \<and> moves L cfg (ls @ l) (rn_now s') (length l) M M' \<and> sint (rn_now s) \<le> sint (rn_now s')"
proof -
  note inv' = node_inv_more [OF inv, of l]
  have m: "pmodel (rn_db s) M" using inv by (simp add: node_inv_def)
  have put: "\<exists>M'. node_inv (ls @ l) M' (s\<lparr>rn_db := d', rn_fetched := fs, rn_refs := refs\<rparr>) \<and>
      moves L cfg (ls @ l) (rn_now s) (length l) M M'"
    if p: "\<exists>M'. pmodel d' M' \<and> moves L cfg (ls @ l) (rn_now s) k M M'" "k \<le> length l"
      "set fs \<subseteq> set (rn_fetched s)" "set refs \<subseteq> set (rn_refs s)" for d' fs refs k
  proof -
    obtain M' where M': "pmodel d' M'" "moves L cfg (ls @ l) (rn_now s) k M M'" using p(1) by blast
    have "moves L cfg (ls @ l) (rn_now s) (length l) M M'"
      using M'(2) p(2) by (auto simp: moves_def intro: order_trans)
    then show ?thesis using node_inv_store [OF inv' M'(1) _ p(3,4)] by blast
  qed
  from step show ?thesis
  proof cases
    case (Request n c frame c' remote resp n')
    have lab: "(remote, frame) \<in> set (ls @ l)" "plain remote" "length l = 1"
      and pl: "\<And>rq env. store_frame frame = Some rq \<Longrightarrow> sreq_Message rq = Some env \<Longrightarrow> plain (RecipientID env)"
      using Request(1) l by auto
    have mn: "pmodel (n_store n) M" using m Request(3) by simp
    have "\<exists>M'. pmodel (n_store n') M' \<and> moves L cfg (ls @ l) (rn_now s) 1 M M'"
      using Request(7,6)
    proof (cases rule: dispatch_cases)
      case refused
      then show ?thesis using mn moves_refl by metis
    next
      case (store rq sresp)
      have "\<exists>M'. pmodel (n_store n') M' \<and> moves L cfg (ls @ l) (c_now c) 1 M M'"
        by (rule store_moves [OF mn store(2) lab(1) store(1)]) (use last pl store(1) now Request(4,5) in auto)
      then show ?thesis using moves_later Request(5) by blast
    next
      case (ack rq aresp)
      obtain M' where "pmodel (n_store n') M'" "moves L cfg (ls @ l) (rn_now s) 0 M M'"
        using ack_moves [OF mn lab(2) ack(2) lab(1) ack(1)] by blast
      then show ?thesis by (auto simp: moves_def intro: le_SucI)
    qed
    from put [OF this, of "rn_fetched s" "rn_refs s"] show ?thesis using Request(2) lab(3) by simp
  next
    case (Fetch n frame rq c remote resp n')
    have lab: "(remote, frame) \<in> set (ls @ l)" "plain remote" using Fetch(1) l by auto
    have d: "n_store n' = rn_db s" using Fetch_Handle_store [OF Fetch(5)] Fetch(3) by simp
    have "plain (freq_RecipientID rq) \<and> has_fetched (ls @ l) (freq_RecipientID rq)" if "fresp_OK resp"
      using Fetch_Handle_OK [OF Fetch(5) that] lab Fetch(4) unfolding has_fetched_def by (metis option.inject)
    then have "node_inv (ls @ l) M s'" using inv' d Fetch(2) by (auto simp: node_inv_def)
    then show ?thesis using Fetch(2) by (intro exI [of _ M]) simp
  next
    case (Mark r items n c err n')
    have "pmodel (n_store n) M" "plain r" "has_fetched (ls @ l) r"
      using inv' Mark(3,4) by (auto simp: node_inv_def)
    from mark_moves [OF this Mark(5)] put [of "n_store n'" 0 "remove1 (r, items) (rn_fetched s)" "rn_refs s"]
    show ?thesis using Mark(1,2) set_remove1_subset by fastforce
  next
    case (Scan now limit es ie poll broke i refs)
    have rep: "repr M (view (rn_db s))" using m by (simp add: pmodel_def)
    have "\<forall>ref\<in>set refs. ref_live M now ref"
      using gc_scan_selects [OF rep Scan(4-7)] by (simp add: gc_selects_def)
    then have "\<forall>ref\<in>set refs. ref_held M (rn_now s) ref"
      using ref_live_held_later [OF rep _ Scan(3)] by blast
    then have "node_inv (ls @ l) M s'" using inv' Scan(2) by (auto simp: node_inv_def)
    then show ?thesis using Scan(2) by (intro exI [of _ M]) simp
  next
    case (Collect ref err d')
    have held: "ref_held M (rn_now s) ref" using inv Collect(3) by (simp add: node_inv_def)
    from gc_moves [OF held m Collect(4)] put [of d' 0 "rn_fetched s" "remove1 ref (rn_refs s)"]
    show ?thesis using Collect(1,2) set_remove1_subset by fastforce
  next
    case (Clock now)
    then have "node_inv (ls @ l) M s'"
      using inv' ref_held_evolves [OF _ evolves_refl] by (auto simp: node_inv_def)
    then show ?thesis using Clock by (intro exI [of _ M]) simp
  qed
qed

lemma node_run_permitted:
  assumes "node_run P (NewVerifier L t) show_err quote cfg mx s0 ls s" "node_inv [] M s0"
    "\<forall>(remote, frame)\<in>set ls. plain remote \<and>
      (\<forall>rq env. store_frame frame = Some rq \<longrightarrow> sreq_Message rq = Some env \<longrightarrow> plain (RecipientID env))"
    "\<forall>r. unat (mb_last (M r)) + length ls < 2 ^ 64 - 1"
    "sint (rn_now s) + sint (ss_maxTTLSec cfg) < 2 ^ 63"
  shows "\<exists>M'. node_inv ls M' s \<and> permitted L cfg ls (rn_now s) M M' \<and>
    (\<forall>r. unat (mb_last (M' r)) \<le> unat (mb_last (M r)) + length ls) \<and> sint (rn_now s0) \<le> sint (rn_now s)"
  using assms
proof (induction rule: node_run.induct)
  case Start
  then show ?case by (intro exI [of _ M]) simp
next
  case (Step ls s l s')
  have mono: "sint (rn_now s) \<le> sint (rn_now s')" using Step.hyps(2) by cases auto
  have "\<forall>(remote, frame)\<in>set ls. plain remote \<and>
      (\<forall>rq env. store_frame frame = Some rq \<longrightarrow> sreq_Message rq = Some env \<longrightarrow> plain (RecipientID env))"
    using Step.prems(2) by auto
  moreover have "unat (mb_last (M r)) + length ls < 2 ^ 64 - 1" for r using Step.prems(3) [rule_format, of r] by simp
  moreover have "sint (rn_now s) + sint (ss_maxTTLSec cfg) < 2 ^ 63" using mono Step.prems(4) by linarith
  ultimately obtain M' where M': "node_inv ls M' s" "permitted L cfg ls (rn_now s) M M'"
      "\<forall>r. unat (mb_last (M' r)) \<le> unat (mb_last (M r)) + length ls" "sint (rn_now s0) \<le> sint (rn_now s)"
    using Step.IH [OF Step.prems(1)] by blast
  have last: "\<forall>r. mb_last (M' r) \<noteq> - 1"
  proof (intro allI notI)
    fix r
    assume "mb_last (M' r) = - 1"
    then have "unat (mb_last (M' r)) = 2 ^ 64 - 1" by (simp add: unsigned_minus_1_eq_mask mask_eq_exp_minus_1)
    then show False
      using M'(3) [rule_format, of r] Step.prems(3) [rule_format, of r] by simp
  qed
  have l: "\<forall>(remote, frame)\<in>set l. plain remote \<and>
      (\<forall>rq env. store_frame frame = Some rq \<longrightarrow> sreq_Message rq = Some env \<longrightarrow> plain (RecipientID env))"
    using Step.prems(2) by auto
  have now: "sint (rn_now s) + sint (ss_maxTTLSec cfg) < 2 ^ 63" using mono Step.prems(4) by linarith
  obtain M'' where M'': "node_inv (ls @ l) M'' s'" "moves L cfg (ls @ l) (rn_now s') (length l) M' M''"
    using node_step_moves [OF M'(1) Step.hyps(2) l last now] by blast
  have "permitted L cfg (ls @ l) (rn_now s) M M'" by (rule permitted_more [OF M'(2)]) simp
  then have "permitted L cfg (ls @ l) (rn_now s') M M''"
    using permitted_trans M''(2) mono unfolding moves_def by blast
  moreover have "unat (mb_last (M'' r)) \<le> unat (mb_last (M r)) + length (ls @ l)" for r
  proof -
    have "unat (mb_last (M'' r)) \<le> unat (mb_last (M' r)) + length l" using M''(2) by (simp add: moves_def)
    then show ?thesis using M'(3) [rule_format, of r] by simp
  qed
  ultimately show ?case using M''(1) M'(4) mono by (intro exI [of _ M'']) auto
qed

end

end
