(* ===== verification/Example.thy ===== *)
theory Example
  imports Service
begin

text \<open>
  A concrete mailbox: one message from \<open>alice\<close> to \<open>bob\<close>, stored at time 100 with a
  lifetime of 50 seconds, first pending, then delivered. It is what the examples of the other
  theories start from.
\<close>

definition ex_env :: OfflineMessageEnvelope where
  "ex_env =
     \<lparr>env_Version = 1, MsgID = ''m1'', SenderID = ''alice'', RecipientID = ''bob'',
      ConversationID = ''c1'', CreatedAt = 90, TTLSec = Some 50,
      Cipher = \<lparr>cp_Algorithm = ''x'', cp_RecipientKeyID = ''k'', cp_Nonce = ''n'', cp_Ciphertext = ''t''\<rparr>,
      env_Signature = \<lparr>sig_Algorithm = ''ed25519'', sig_Value = ''AAAA''\<rparr>\<rparr>"

definition ex_msg :: StoredMessage where
  "ex_msg = \<lparr>StoreSeq = 0, ReceivedAt = 0, ExpireAt = 0, sm_Message = Some ex_env\<rparr>"

definition ex_stored :: StoredMessage where
  "ex_stored = \<lparr>StoreSeq = 1, ReceivedAt = 100, ExpireAt = 150, sm_Message = Some ex_env\<rparr>"

definition ex_none :: mailboxes where
  "ex_none = (\<lambda>_. empty_mailbox)"

definition ex_pending :: mailboxes where
  "ex_pending = ex_none(''bob'' := \<lparr>mb_last = 1, mb_delivered = 0, mb_acked = 0, mb_msgs = [1 \<mapsto> ex_stored]\<rparr>)"

definition ex_delivered :: mailboxes where
  "ex_delivered = ex_none(''bob'' := \<lparr>mb_last = 1, mb_delivered = 1, mb_acked = 0, mb_msgs = [1 \<mapsto> ex_stored]\<rparr>)"

lemma ascii_texts [simp]:
  "utf8_valid ''m1''" "utf8_valid ''alice''" "utf8_valid ''bob''" "utf8_valid ''c1''" "utf8_valid ''x''"
  "utf8_valid ''k''" "utf8_valid ''n''" "utf8_valid ''t''" "utf8_valid ''ed25519''" "utf8_valid ''AAAA''"
  by (rule ascii_utf8_valid, simp add: is_ascii_def)+

lemma plain_bob [simp]: "plain ''bob''"
  by (simp add: plain_def)

lemma ex_env_ok [simp]: "wf_Envelope ex_env" "storable ex_env" "RecipientID ex_env = ''bob''" "MsgID ex_env = ''m1''"
  "EffectiveTTL (Some ex_env) d = 50"
  by (simp_all add: ex_env_def wf_Envelope_def wf_CipherPayload_def wf_Signature_def storable_def EffectiveTTL_def)

lemma ex_msg_env [simp]: "sm_Message ex_msg = Some ex_env"
  by (simp add: ex_msg_def)

lemma ex_none_bob [simp]: "ex_none ''bob'' = empty_mailbox"
  by (simp add: ex_none_def)

lemma repr_none: "repr ex_none (map_of [])"
  using repr_empty by (simp add: ex_none_def)

lemma ex_find_id: "find_id empty_mailbox i = None"
  by (simp add: find_id_None empty_mailbox_def)

lemma ex_next: "next_message empty_mailbox 100 ex_msg ex_env = ex_stored"
  by (simp add: next_message_def stamp_def empty_mailbox_def ex_msg_def ex_stored_def)

lemma repr_pending: "\<exists>d. repr ex_pending (map_of d)"
proof -
  have "\<exists>d'. storeMessageWithQuota mem_pebble None 100 [] (Some ex_msg) 0 0 False =
        Some (Inr (mb_last empty_mailbox + 1, ExpireAt ex_stored, False), d') \<and>
      repr (ex_none(''bob'' := mb_add ex_stored empty_mailbox)) (map_of d')"
    using mem.store_fresh [OF repr_none ex_msg_env, of 100 False 0 0]
    by (simp add: ex_find_id ex_next) (simp add: empty_mailbox_def)
  moreover have "ex_none(''bob'' := mb_add ex_stored empty_mailbox) = ex_pending"
    by (simp add: ex_pending_def mb_add_def empty_mailbox_def ex_stored_def)
  ultimately show ?thesis by auto
qed

lemma ex_pending_seqs: "pending (ex_pending ''bob'') a = (if a \<le> 1 then [ex_stored] else [])"
proof -
  have "{s \<in> dom [1 \<mapsto> ex_stored]. a \<le> s} = (if a \<le> 1 then {1} else {})" by auto
  then show ?thesis by (simp add: pending_def seqs_from_def ex_pending_def)
qed

lemma repr_delivered: "\<exists>d. repr ex_delivered (map_of d)"
proof -
  obtain d where d: "repr ex_pending (map_of d)" using repr_pending by blast
  have "\<exists>d'. MarkDelivered mem_pebble None 100 d ''bob'' [Some ex_stored] = (None, d') \<and>
      repr (ex_pending(''bob'' := mb_mark 100 (set (delivered_seqs [Some ex_stored])) (ex_pending ''bob''))) (map_of d')"
    by (rule mem.mark_ok [OF d]) simp_all
  moreover have "mb_delivered (ex_pending ''bob'') = 0" by (simp add: ex_pending_def)
  then have "mb_mark 100 (set (delivered_seqs [Some ex_stored])) (ex_pending ''bob'') = ex_delivered ''bob''"
    by (simp add: mb_mark_def ex_pending_seqs delivered_seqs_def ex_stored_def)
      (simp add: ex_pending_def ex_delivered_def ex_stored_def)
  then have "ex_pending(''bob'' := mb_mark 100 (set (delivered_seqs [Some ex_stored])) (ex_pending ''bob'')) = ex_delivered"
    by (simp add: fun_eq_iff ex_pending_def ex_delivered_def)
  ultimately show ?thesis by auto
qed

text \<open>The message is stored within quotas of 10 messages and 10000 bytes.\<close>

lemma ex_length: "length (marshal_StoredMessage ex_stored) < 10000" "10 < length (marshal_StoredMessage ex_stored)"
  unfolding ex_stored_def ex_env_def by code_simp+

lemma ex_quota: "check_quota mem_pebble [] ''bob'' (marshal_StoredMessage ex_stored) 10 10000 = Inr ()"
proof -
  have u: "usage_count empty_mailbox = 0" "usage_bytes empty_mailbox = 0"
    by (simp_all add: usage_count_def usage_bytes_def pending_def seqs_from_def empty_mailbox_def)
  show ?thesis
    using mem.check_quota_eq [OF repr_none, of "''bob''" "marshal_StoredMessage ex_stored" 10 10000] u ex_length by simp
qed

lemma ex_store: "\<exists>d'. StoreMessageWithQuota mem_pebble None 100 [] (Some ex_msg) 10 10000 = Some (Inr (1, 150, False), d')"
  using mem.store_fresh [OF repr_none ex_msg_env, of 100 True 10 10000] ex_quota
  by (simp add: ex_find_id ex_next StoreMessageWithQuota_def) (auto simp: empty_mailbox_def ex_stored_def)

end
