(* ===== verification/StorageTheorems.thy ===== *)
theory StorageTheorems
  imports Interleaving GcWorker Example
begin

text \<open>
  What the message store guarantees: its behaviour under concurrent use and faults, the
  outcome of each operation, and the collection of expired messages. The statements are over
  any database library that behaves as \<open>pebble_db\<close> (with faults) or \<open>pebble_ok\<close>
  (without) says; the examples run on the reference store \<open>mem_pebble\<close>.
\<close>

section \<open>Facts\<close>

lemmas mem_db = mem.pebble_db_axioms
lemmas mem_ok = mem.pebble_ok_axioms

text \<open>The messages a fetch may return.\<close>

definition fetchable :: "int64 \<Rightarrow> uint64 \<Rightarrow> mailbox \<Rightarrow> StoredMessage set" where
  "fetchable now after mb =
     {sm. mb_msgs mb (StoreSeq sm) = Some sm \<and> after < StoreSeq sm \<and> sint now < sint (ExpireAt sm)}"

text \<open>
  The number a fetch resumes from: the requested one, except that the successor of the largest
  number wraps around to 0, so that a fetch after it starts at the beginning of the mailbox.
\<close>

definition fetch_from :: "uint64 \<Rightarrow> uint64" where
  "fetch_from after = (if after = - 1 then 0 else after)"

lemma set_pending_after:
  assumes "mailbox_ok r mb"
  shows "set (filter (live now) (pending mb (after + 1))) = fetchable now (fetch_from after) mb"
proof (cases "after = - 1")
  case True
  have "StoreSeq sm \<noteq> 0" if "mb_msgs mb (StoreSeq sm) = Some sm" for sm
    using mailbox_ok_stored [OF assms that] word_gt_0 [of "StoreSeq sm"] by (metis stored_ok_def)
  then show ?thesis
    using True unfolding fetchable_def live_def fetch_from_def by (auto simp: set_pending [OF assms] word_neq_0_conv)
next
  case False
  then show ?thesis
    using word64_le_plus_one [OF False] by (auto simp: set_pending [OF assms] fetchable_def live_def fetch_from_def)
qed

lemma mb_fetch_char:
  assumes ok: "mailbox_ok r mb" and limit: "0 < sint limit"
    and res: "(items, hasMore) = mb_fetch now after limit mb"
  defines "F \<equiv> fetchable now (fetch_from after) mb"
  shows "sorted_wrt (<) (map StoreSeq items)" "set items \<subseteq> F"
    "int (length items) = min (sint limit) (int (card F))"
    "hasMore \<longleftrightarrow> sint limit < int (card F)"
    "\<forall>x\<in>F - set items. \<forall>y\<in>set items. StoreSeq y < StoreSeq x"
proof -
  let ?ms = "filter (live now) (pending mb (after + 1))" and ?n = "nat (sint limit)"
  have items: "items = take ?n ?ms" "hasMore \<longleftrightarrow> ?n < length ?ms" using res by (simp_all add: mb_fetch_def Let_def)
  have sorted: "sorted_wrt (<) (map StoreSeq ?ms)"
    using sorted_pending [OF ok, of "after + 1"] by (simp add: sorted_wrt_map sorted_wrt_filter)
  have set: "set ?ms = F" unfolding F_def by (rule set_pending_after [OF ok])
  have "distinct ?ms" using sorted unfolding strict_sorted_iff by (simp add: distinct_map)
  then have card: "card F = length ?ms" unfolding set [symmetric] by (rule distinct_card)
  show "sorted_wrt (<) (map StoreSeq items)" using sorted items(1) by (simp add: take_map [symmetric] sorted_wrt_take)
  show "set items \<subseteq> F" using items(1) set by (auto dest: in_set_takeD)
  show "int (length items) = min (sint limit) (int (card F))" "hasMore \<longleftrightarrow> sint limit < int (card F)"
    using items card limit by auto
  show "\<forall>x\<in>F - set items. \<forall>y\<in>set items. StoreSeq y < StoreSeq x"
  proof (intro ballI)
    fix x y
    assume x: "x \<in> F - set items" and y: "y \<in> set items"
    have "x \<in> set (drop ?n ?ms)"
      using x set items(1) by (metis DiffE Un_iff append_take_drop_id set_append)
    moreover have "sorted_wrt (<) (map StoreSeq (take ?n ?ms) @ map StoreSeq (drop ?n ?ms))"
      using sorted by (metis append_take_drop_id map_append)
    ultimately show "StoreSeq y < StoreSeq x" using y items(1) by (simp add: sorted_wrt_append)
  qed
qed

text \<open>The frontier does not stop before a message it may pass.\<close>

lemma advance_stops:
  assumes "sorted_wrt (<) (map StoreSeq sms)" "\<forall>sm\<in>set sms. f < StoreSeq sm" "sm \<in> set sms"
    "StoreSeq sm = advance now D sms f + 1"
  shows "live now sm \<and> StoreSeq sm \<notin> D"
  using assms
proof (induction sms arbitrary: f)
  case (Cons x sms)
  show ?case
  proof (cases "StoreSeq x = f + 1 \<and> (\<not> live now x \<or> StoreSeq x \<in> D)")
    case True
    then have adv: "StoreSeq sm = advance now D sms (f + 1) + 1" using Cons.prems(4) by auto
    have gt: "\<forall>y\<in>set sms. f + 1 < StoreSeq y" using Cons.prems(1) True by auto
    then have ge: "f + 1 \<le> advance now D sms (f + 1)" using advance_ge Cons.prems(1) by auto
    show ?thesis
    proof (cases "sm \<in> set sms")
      case True
      then show ?thesis using Cons.IH [OF _ gt True adv] Cons.prems(1) by simp
    next
      case False
      then have x: "sm = x" using Cons.prems(3) by simp
      then have eq: "advance now D sms (f + 1) = f" using adv True by (metis add_right_cancel)
      have "f < f + 1" using Cons.prems(2) x True by auto
      then show ?thesis using ge eq by (simp add: not_le [symmetric])
    qed
  next
    case False
    then have s: "StoreSeq sm = f + 1" using Cons.prems(4) by auto
    then show ?thesis
    proof (cases "sm = x")
      case True
      then show ?thesis using False s by auto
    next
      case no: False
      then have "sm \<in> set sms" using Cons.prems(3) by simp
      then have "StoreSeq x < StoreSeq sm" "f < StoreSeq x" using Cons.prems(1,2) by simp_all
      moreover have "f \<noteq> - 1" using \<open>f < StoreSeq x\<close> by auto
      ultimately show ?thesis using s word64_le_plus_one [of f "StoreSeq x"] by auto
    qed
  qed
qed simp

section \<open>Concurrent use\<close>

text \<open>
  C2. Start with any store that represents mailboxes and no collection under way. Whatever
  interleaving of stores, delivery marks, acknowledgements and collector steps follows, with
  whatever database faults, cancellations and clock readings, as long as the stores are of
  well-formed messages whose recipient has no slash, whose expiry time does not overflow and for which
  a number is left: the store represents mailboxes again; no counter
  went back; a message is gone only if it was acknowledged or is expired; no number was reused.
\<close>

theorem concurrent_store_evolves:
  assumes "pebble_db P view" "sys_steps P s s'" "repr M (view (sys_db s))" "sys_refs s = []"
  shows "\<exists>M'. repr M' (view (sys_db s')) \<and> evolves (sys_now s') M M'"
proof -
  have "pebble_db.sys_inv view M s" using assms(3,4) by (simp add: pebble_db.sys_inv_def [OF assms(1)])
  then obtain M' where "pebble_db.sys_inv view M' s'" "evolves (sys_now s') M M'"
    using pebble_db.sys_steps_inv [OF assms(1,2)] by blast
  then show ?thesis using pebble_db.sys_inv_def [OF assms(1)] by blast
qed

theorem concurrent_store_evolves_witness:
  "\<exists>d' M'. sys_steps mem_pebble \<lparr>sys_db = [], sys_refs = [], sys_now = 100\<rparr> \<lparr>sys_db = d', sys_refs = [], sys_now = 100\<rparr> \<and>
     repr M' (map_of d') \<and> evolves 100 ex_none M' \<and> d' \<noteq> []"
proof -
  let ?s = "\<lparr>sys_db = [], sys_refs = [], sys_now = 100\<rparr> :: memdb system"
  obtain d' where d': "storeMessageWithQuota mem_pebble None 100 [] (Some ex_msg) 0 0 False =
        Some (Inr (1, 150, False), d')" "repr (ex_none(''bob'' := mb_add ex_stored empty_mailbox)) (map_of d')"
    using mem.store_fresh [OF repr_none ex_msg_env, of 100 False 0 0]
    by (simp add: ex_find_id ex_next) (auto simp: empty_mailbox_def ex_stored_def)
  have "lastSeq mem_pebble [] ''bob'' \<noteq> Inr (- 1)" by (simp add: lastSeq_def mem_pebble_def)
  then have "sys_step mem_pebble ?s (?s\<lparr>sys_db := d'\<rparr>)"
    using d'(1) by (intro sys_step.Store [of 100 _ ex_msg ex_env]) simp_all
  then have run: "sys_steps mem_pebble ?s \<lparr>sys_db = d', sys_refs = [], sys_now = 100\<rparr>"
    by (simp add: sys_steps_def)
  have "d' \<noteq> []"
  proof
    assume "d' = []"
    then have "mb_msgs (mb_add ex_stored empty_mailbox) 1 = None"
      using repr_keys(1) [OF d'(2), of "''bob''" 1] by simp
    then show False by (simp add: mb_add_def ex_stored_def)
  qed
  then show ?thesis using run concurrent_store_evolves [OF mem_db run, of ex_none] repr_none by auto
qed

section \<open>Storing\<close>

text \<open>
  C3. Storing under faults, for a well-formed message whose recipient has no slash, with a number left
  and an expiry time that does not overflow: an error leaves the mailboxes as they were; a duplicate
  names the stored message with that id; otherwise the message is new, gets the next number and the
  expiry time now plus its lifetime, and is added to its recipient's mailbox.
\<close>

theorem store_correct:
  assumes "pebble_db P view" "repr M (view d)" "sm_Message msg = Some env" "storable env"
    "mb_last (M (RecipientID env)) \<noteq> - 1" "0 \<le> sint (now + EffectiveTTL (Some env) 0)"
    "storeMessageWithQuota P ctx now d (Some msg) mm mbytes q = Some (res, d')"
  shows "case res of
      Inl e \<Rightarrow> repr M (view d')
    | Inr (s, ex, dup) \<Rightarrow>
        if dup then d' = d \<and> (\<exists>sm. mb_msgs (M (RecipientID env)) s = Some sm \<and>
            msg_id sm = MsgID env \<and> ExpireAt sm = ex)
        else find_id (M (RecipientID env)) (MsgID env) = None \<and>
          s = mb_last (M (RecipientID env)) + 1 \<and> ex = now + EffectiveTTL (Some env) 0 \<and>
          repr (M(RecipientID env := mb_add (stamp msg env s now) (M (RecipientID env)))) (view d')"
  using pebble_db.store_refines [OF assms]
  by (auto simp: Let_def next_message_def split: sum.splits if_splits)

theorem store_correct_witness:
  "\<exists>d'. storeMessageWithQuota mem_pebble None 100 [] (Some ex_msg) 10 10000 True = Some (Inr (1, 150, False), d') \<and>
     repr (ex_none(''bob'' := mb_add (stamp ex_msg ex_env 1 100) empty_mailbox)) (map_of d')"
proof -
  obtain d' where d': "storeMessageWithQuota mem_pebble None 100 [] (Some ex_msg) 10 10000 True =
      Some (Inr (1, 150, False), d')"
    using ex_store by (auto simp: StoreMessageWithQuota_def)
  show ?thesis
    using store_correct [OF mem_db repr_none ex_msg_env _ _ _ d'] d' by (simp add: empty_mailbox_def)
qed

text \<open>
  C4. Without faults a message with a new id is stored exactly when the quotas allow it: it
  gets the next number, or the answer is the error of the quota it would exceed and the store
  is unchanged. Limits that are not positive do not limit.
\<close>

theorem store_quota:
  assumes "pebble_ok P view" "repr M (view d)" "sm_Message msg = Some env" "storable env" "RecipientID env = r"
    "find_id (M r) (MsgID env) = None"
    "mb_last (M r) \<noteq> - 1" "0 \<le> sint (now + EffectiveTTL (Some env) 0)"
    "length (pending (M r) 0) < 2 ^ 63"
    "bytes = sum_list (map (length \<circ> marshal_StoredMessage) (pending (M r) 0))
       + length (marshal_StoredMessage (stamp msg env (mb_last (M r) + 1) now))" "bytes < 2 ^ 63"
  shows "\<exists>d'. StoreMessageWithQuota P None now d (Some msg) mm mbytes =
    (if 0 < sint mm \<and> sint mm \<le> int (length (pending (M r) 0))
     then Some (Inl (AppError CodeRecipientQuotaExceeded ''recipient pending message quota exceeded''), d)
     else if 0 < sint mbytes \<and> sint mbytes < int bytes
     then Some (Inl (AppError CodeRecipientBytesExceeded ''recipient pending bytes exceeded''), d)
     else Some (Inr (mb_last (M r) + 1, now + EffectiveTTL (Some env) 0, False), d'))"
proof -
  let ?sm = "next_message (M r) now msg env"
  have r: "plain r" using assms(4,5) by (simp add: storable_def)
  have small: "usage_count (M r) < 2 ^ 63" "usage_bytes (M r) + length (marshal_StoredMessage ?sm) < 2 ^ 63"
    using assms(9-11) by (simp_all add: usage_count_def usage_bytes_def next_message_def)
  have q: "check_quota P d r (marshal_StoredMessage ?sm) mm mbytes =
    (if 0 < sint mm \<and> sint mm \<le> int (length (pending (M r) 0))
     then Inl (AppError CodeRecipientQuotaExceeded ''recipient pending message quota exceeded'')
     else if 0 < sint mbytes \<and> sint mbytes < int bytes
     then Inl (AppError CodeRecipientBytesExceeded ''recipient pending bytes exceeded'')
     else Inr ())"
    unfolding pebble_ok.check_quota_eq [OF assms(1,2) r small] assms(10)
    by (simp add: usage_count_def usage_bytes_def next_message_def)
  show ?thesis
  proof (cases "check_quota P d r (marshal_StoredMessage ?sm) mm mbytes")
    case (Inl e)
    then have "StoreMessageWithQuota P None now d (Some msg) mm mbytes = Some (Inl e, d)"
      using pebble_ok.store_quota_refused [OF assms(1-4), of now mm mbytes e] assms(5,6)
      by (simp add: StoreMessageWithQuota_def)
    with Inl q show ?thesis by (auto split: if_splits)
  next
    case (Inr u)
    then obtain d' where "StoreMessageWithQuota P None now d (Some msg) mm mbytes
        = Some (Inr (mb_last (M r) + 1, ExpireAt ?sm, False), d')"
      using pebble_ok.store_fresh [OF assms(1-4), of now True mm mbytes] assms(5-8)
      by (auto simp: StoreMessageWithQuota_def)
    with Inr q show ?thesis by (auto simp: next_message_def split: if_splits)
  qed
qed

theorem store_quota_witness:
  "\<exists>d'. StoreMessageWithQuota mem_pebble None 100 [] (Some ex_msg) 0 10 =
     Some (Inl (AppError CodeRecipientBytesExceeded ''recipient pending bytes exceeded''), d')"
proof -
  have p: "pending empty_mailbox 0 = []" by (simp add: pending_def seqs_from_def empty_mailbox_def)
  have st: "stamp ex_msg ex_env (mb_last empty_mailbox + 1) 100 = ex_stored"
    using ex_next by (simp add: next_message_def)
  note len = ex_length
  have "\<exists>d'. StoreMessageWithQuota mem_pebble None 100 [] (Some ex_msg) 0 10 =
    (if 0 < sint (0 :: int64) \<and> sint (0 :: int64) \<le> int (length (pending (ex_none ''bob'') 0))
     then Some (Inl (AppError CodeRecipientQuotaExceeded ''recipient pending message quota exceeded''), [])
     else if 0 < sint (10 :: int64) \<and> sint (10 :: int64) < int (length (marshal_StoredMessage ex_stored))
     then Some (Inl (AppError CodeRecipientBytesExceeded ''recipient pending bytes exceeded''), [])
     else Some (Inr (mb_last (ex_none ''bob'') + 1, 100 + EffectiveTTL (Some ex_env) 0, False), d'))"
    using p st len by (intro store_quota [OF mem_ok repr_none ex_msg_env])
      (simp_all add: ex_find_id, simp_all add: empty_mailbox_def)
  then show ?thesis using len by auto
qed

text \<open>A retry while the message waits: under faults it fails or names the waiting message.\<close>

lemma store_retry:
  assumes db: "pebble_db P view" and rep: "repr M (view d)" and env: "sm_Message msg = Some env" "storable env"
    and sm: "mb_msgs (M (RecipientID env)) n = Some sm" "msg_id sm = MsgID env"
  shows "\<exists>res. storeMessageWithQuota P ctx now d (Some msg) mm mbytes q = Some (res, d) \<and>
    (res = Inr (n, ExpireAt sm, True) \<or> (\<exists>e. res = Inl e))"
proof (cases ctx)
  case (Some e)
  then show ?thesis by (simp add: storeMessageWithQuota_def)
next
  case None
  let ?r = "RecipientID env"
  have r: "plain ?r" using env(2) by (simp add: storable_def)
  have ok: "mailbox_ok ?r (M ?r)" using rep by blast
  have id: "find_id (M ?r) (MsgID env) = Some n" using find_id_Some [OF ok] sm by blast
  obtain dr where dr: "dup_check P d ?r (MsgID env) = Some (dr, d)"
    using pebble_db.dup_check_returns [OF db rep r] by blast
  have "dr = Inr (Some (n, ExpireAt sm)) \<or> (\<exists>e. dr = Inl e)"
  proof (cases dr)
    case (Inr found)
    then obtain k ex where k: "found = Some (k, ex)"
      using pebble_db.dup_check_repr [OF db rep r dr] id by (cases found) auto
    then obtain tm where tm: "mb_msgs (M ?r) k = Some tm" "msg_id tm = MsgID env" "ExpireAt tm = ex"
      using pebble_db.dup_check_repr [OF db rep r dr] Inr by auto
    then have "find_id (M ?r) (MsgID env) = Some k" using find_id_Some [OF ok] by blast
    then show ?thesis using id tm sm(1) k Inr by simp
  qed simp
  then show ?thesis using dr env(1) None by (auto simp: storeMessageWithQuota_def)
qed

text \<open>A message that was stored and is not gone after any further run is the same message.\<close>

lemma stored_stays:
  assumes db: "pebble_db P view" and inv: "pebble_db.sys_inv view M s" and run: "sys_steps P s s'"
    and sm: "mb_msgs (M r) n = Some sm" and r: "plain r" and there: "view (sys_db s') (msgKey r n) \<noteq> None"
  obtains M' where "repr M' (view (sys_db s'))" "mb_msgs (M' r) n = Some sm"
proof -
  obtain M' where M': "pebble_db.sys_inv view M' s'" "evolves (sys_now s') M M'"
    using pebble_db.sys_steps_inv [OF db run inv] by blast
  have rep: "repr M (view (sys_db s))" "repr M' (view (sys_db s'))"
    using inv M'(1) by (simp_all add: pebble_db.sys_inv_def [OF db])
  obtain tm where tm: "mb_msgs (M' r) n = Some tm"
    using there repr_keys(1) [OF rep(2) r, of n] by auto
  have "n \<le> mb_last (M r)" using mailbox_ok_last [OF repr_ok [OF rep(1)] sm] .
  then have "mb_msgs (M r) n = Some tm" using M'(2) tm unfolding evolves_def by (meson not_le)
  then show thesis using that rep(2) tm sm by simp
qed

text \<open>A store that was answered leaves a message with its id under the answered number, as a duplicate or not.\<close>

lemma store_enters:
  assumes "pebble_db P view" "pebble_db.sys_inv view M1 s1" "sm_Message msg = Some env" "storable env" "r = RecipientID env"
    "view (sys_db s1) (seqKey r) \<noteq> Some (FormatUint (- 1))" "0 \<le> sint (now + EffectiveTTL (Some env) 0)"
    "storeMessageWithQuota P ctx now (sys_db s1) (Some msg) mm mbytes q = Some (Inr (n, ex, dup), d')"
  obtains M' sm where "pebble_db.sys_inv view M' (s1\<lparr>sys_db := d'\<rparr>)"
    "mb_msgs (M' r) n = Some sm" "msg_id sm = MsgID env" "ExpireAt sm = ex"
proof -
  note db = assms(1) and inv = assms(2)
  have rep: "repr M1 (view (sys_db s1))" using inv by (simp add: pebble_db.sys_inv_def [OF db])
  have ok: "mailbox_ok r (M1 r)" using rep by blast
  have r: "plain r" using assms(4,5) by (simp add: storable_def)
  have room: "mb_last (M1 r) \<noteq> - 1" using assms(6) repr_keys(3) [OF rep r] by (auto simp: counter_val_def)
  note ref = pebble_db.store_refines [OF db rep assms(3,4) _ assms(7,8), folded assms(5), OF room]
  show thesis
  proof (cases dup)
    case True
    then have "d' = sys_db s1" using ref by simp
    with True show thesis using that [of M1] ref inv by auto
  next
    case False
    let ?sm = "next_message (M1 r) now msg env"
    have new: "n = mb_last (M1 r) + 1" "ex = ExpireAt ?sm" "repr (M1(r := mb_add ?sm (M1 r))) (view d')"
      using ref False by (simp_all add: Let_def)
    have "mb_last (M1 r) < StoreSeq ?sm"
      using room word64_le_plus_one [of "mb_last (M1 r)" "mb_last (M1 r) + 1"] by (simp add: next_message_def)
    then have "evolves (sys_now s1) M1 (M1(r := mb_add ?sm (M1 r)))"
      using pebble_db.evolves_add [OF db, of r M1, OF ok] by blast
    then have "pebble_db.sys_inv view (M1(r := mb_add ?sm (M1 r))) (s1\<lparr>sys_db := d'\<rparr>)"
      by (rule pebble_db.sys_inv_evolves [OF db inv new(3)])
    moreover have "mb_msgs (mb_add ?sm (M1 r)) n = Some ?sm" "msg_id ?sm = MsgID env"
      using new(1) msg_id_stamp [OF assms(3)] by (simp_all add: mb_add_def next_message_def)
    ultimately show thesis using that [of "M1(r := mb_add ?sm (M1 r))" ?sm] new(2) by simp
  qed
qed

text \<open>
  C5. Storing is idempotent for as long as the message waits. Let a store, at any point of a run of
  the concurrent system, be answered with a number and an expiry, and let any other steps follow:
  other stores, delivery marks, acknowledgements and collections, in any interleaving and with faults.
  If there still is a message under that number, storing a message with the same id and recipient
  changes nothing, and unless the database fails or the context is done it is answered with the same
  number and expiry, as a duplicate. The recipient has no slash; the first store finds a number left
  and an expiry time that does not overflow, as do the stores of the run.
\<close>

theorem store_idempotent:
  assumes "pebble_db P view" "sys_steps P s0 s1" "repr M (view (sys_db s0))" "sys_refs s0 = []"
    "sm_Message msg = Some env" "storable env" "r = RecipientID env"
    "view (sys_db s1) (seqKey r) \<noteq> Some (FormatUint (- 1))" "0 \<le> sint (now + EffectiveTTL (Some env) 0)"
    "storeMessageWithQuota P ctx now (sys_db s1) (Some msg) mm mbytes q = Some (Inr (n, ex, dup), d')"
    "sys_steps P (s1\<lparr>sys_db := d'\<rparr>) s2" "view (sys_db s2) (msgKey r n) \<noteq> None"
    "sm_Message msg' = Some env'" "storable env'" "RecipientID env' = r" "MsgID env' = MsgID env"
  shows "\<exists>res. storeMessageWithQuota P ctx' now' (sys_db s2) (Some msg') mm' mbytes' q' = Some (res, sys_db s2) \<and>
    (res = Inr (n, ex, True) \<or> (\<exists>e. res = Inl e) \<and> \<not> (pebble_ok P view \<and> ctx' = None))"
proof -
  note db = assms(1)
  have "pebble_db.sys_inv view M s0" using assms(3,4) by (simp add: pebble_db.sys_inv_def [OF db])
  then obtain M1 where inv: "pebble_db.sys_inv view M1 s1"
    using pebble_db.sys_steps_inv [OF db assms(2)] by blast
  have r: "plain r" using assms(6,7) by (simp add: storable_def)
  obtain M' sm where M': "pebble_db.sys_inv view M' (s1\<lparr>sys_db := d'\<rparr>)"
      and sm: "mb_msgs (M' r) n = Some sm" "msg_id sm = MsgID env" "ExpireAt sm = ex"
    by (rule store_enters [OF db inv assms(5-10)])
  obtain M2 where M2: "repr M2 (view (sys_db s2))" "mb_msgs (M2 r) n = Some sm"
    by (rule stored_stays [OF db M' assms(11) sm(1) r assms(12)])
  have sm': "mb_msgs (M2 (RecipientID env')) n = Some sm" "msg_id sm = MsgID env'"
    using M2(2) sm(2) assms(15,16) by simp_all
  obtain res where res: "storeMessageWithQuota P ctx' now' (sys_db s2) (Some msg') mm' mbytes' q' = Some (res, sys_db s2)"
      "res = Inr (n, ex, True) \<or> (\<exists>e. res = Inl e)"
    using store_retry [OF db M2(1) assms(13,14) sm'] sm(3) by blast
  have "res = Inr (n, ex, True)" if live: "pebble_ok P view" "ctx' = None"
  proof -
    have "find_id (M2 (RecipientID env')) (MsgID env') = Some n"
      using find_id_Some [OF repr_ok [OF M2(1)]] sm' by blast
    from pebble_ok.store_duplicate [OF live(1) M2(1) assms(13,14) this] show ?thesis
      using res(1) live(2) sm' sm(3) by simp
  qed
  with res show ?thesis by blast
qed

theorem store_idempotent_witness:
  "\<exists>d d' u c err. storeMessageWithQuota mem_pebble None 100 [] (Some ex_msg) 0 0 False = Some (Inr (1, 150, False), d) \<and>
     MarkDelivered mem_pebble None 110 d ''bob'' [Some ex_stored] = (err, d') \<and>
     (\<exists>res. storeMessageWithQuota mem_pebble None 120 d' (Some ex_msg) 0 0 False = Some (res, d') \<and>
        (res = Inr (1, 150, True) \<or> (\<exists>e. res = Inl e) \<and> \<not> (pebble_ok mem_pebble map_of \<and> (None :: goerr option) = None)))"
proof -
  obtain d where d: "storeMessageWithQuota mem_pebble None 100 [] (Some ex_msg) 0 0 False = Some (Inr (1, 150, False), d)"
      "repr (ex_none(''bob'' := mb_add ex_stored empty_mailbox)) (map_of d)"
    using mem.store_fresh [OF repr_none ex_msg_env, of 100 False 0 0]
    by (simp add: ex_find_id ex_next) (auto simp: empty_mailbox_def ex_stored_def)
  let ?s = "\<lparr>sys_db = [], sys_refs = [], sys_now = 110\<rparr> :: memdb system"
  let ?M = "ex_none(''bob'' := mb_add ex_stored empty_mailbox)"
  obtain err d' where mk: "MarkDelivered mem_pebble None 110 d ''bob'' [Some ex_stored] = (err, d')" by fastforce
  have "MarkDelivered mem_pebble None 110 (sys_db (?s\<lparr>sys_db := d\<rparr>)) ''bob'' [Some ex_stored] = (err, d')"
    using mk by simp
  from sys_step.Mark [OF plain_bob this]
  have "sys_step mem_pebble (?s\<lparr>sys_db := d\<rparr>) (?s\<lparr>sys_db := d\<rparr>\<lparr>sys_db := d'\<rparr>)" .
  then have run: "sys_steps mem_pebble (?s\<lparr>sys_db := d\<rparr>) (?s\<lparr>sys_db := d'\<rparr>)" by (simp add: sys_steps_def)
  have start: "sys_steps mem_pebble ?s ?s" by (simp add: sys_steps_def)
  have "repr (if err = None then ?M(''bob'' := mb_mark 110 (set (delivered_seqs [Some ex_stored])) (?M ''bob'')) else ?M) (map_of d')"
    using mem.mark_refines [OF d(2) plain_bob _ mk] by (auto split: option.splits)
  then have there: "map_of d' (msgKey ''bob'' 1) \<noteq> None"
    using repr_keys(1) [OF _ plain_bob, of _ "map_of d'" 1]
    by (auto simp: mb_mark_def mb_add_def ex_stored_def split: if_splits)
  have d1: "storeMessageWithQuota mem_pebble None 100 (sys_db ?s) (Some ex_msg) 0 0 False = Some (Inr (1, 150, False), d)"
    using d(1) by simp
  have "\<exists>res. storeMessageWithQuota mem_pebble None 120 (sys_db (?s\<lparr>sys_db := d'\<rparr>)) (Some ex_msg) 0 0 False
        = Some (res, sys_db (?s\<lparr>sys_db := d'\<rparr>)) \<and>
      (res = Inr (1, 150, True) \<or> (\<exists>e. res = Inl e) \<and> \<not> (pebble_ok mem_pebble map_of \<and> (None :: goerr option) = None))"
    by (rule store_idempotent [OF mem_db start _ _ ex_msg_env _ _ _ _ d1 run _ ex_msg_env])
      (use repr_none there in simp_all)
  then show ?thesis using d(1) mk by auto
qed

section \<open>Fetching and marking\<close>

text \<open>
  C6. What a fetch returns, even if the database may fault, for a recipient without a slash, a
  positive limit and a store that represents mailboxes: unexpired stored messages numbered after the
  given number, in increasing order, the lowest ones first, at most the limit, all of them if they are
  not more, and \<open>hasMore\<close> tells whether there are more. A fetch after 2^64 - 1 starts at the
  beginning of the mailbox.
\<close>

theorem fetch_exact:
  assumes "pebble_db P view" "repr M (view d)" "plain r" "0 < sint limit"
    "FetchMessages P ctx now d r after limit = Inr (items, hasMore)"
    "F = fetchable now (if after = - 1 then 0 else after) (M r)"
  shows "sorted_wrt (<) (map StoreSeq items) \<and> set items \<subseteq> F \<and>
    int (length items) = min (sint limit) (int (card F)) \<and>
    (hasMore \<longleftrightarrow> sint limit < int (card F)) \<and>
    (\<forall>x\<in>F - set items. \<forall>y\<in>set items. StoreSeq y < StoreSeq x)"
  using mb_fetch_char [OF repr_ok [OF assms(2)] assms(4) pebble_db.fetch_refines [OF assms(1-5)]] assms(6)
  unfolding fetch_from_def by blast

theorem fetch_exact_witness:
  "\<exists>d. repr ex_pending (map_of d) \<and> FetchMessages mem_pebble None 120 d ''bob'' 0 10 = Inr ([ex_stored], False) \<and>
     FetchMessages mem_pebble None 120 d ''bob'' (- 1) 10 = Inr ([ex_stored], False) \<and>
     set [ex_stored] \<subseteq> fetchable 120 0 (ex_pending ''bob'')"
proof -
  obtain d where d: "repr ex_pending (map_of d)" using repr_pending by blast
  have f: "FetchMessages mem_pebble None 120 d ''bob'' a 10 = Inr ([ex_stored], False)" if "a = 0 \<or> a = - 1" for a
    using mem.fetch_eq [OF d plain_bob, of 10 120 a] that
    by (auto simp: mb_fetch_def ex_pending_seqs Let_def live_def ex_stored_def)
  have "set [ex_stored] \<subseteq> fetchable 120 0 (ex_pending ''bob'')"
    using fetch_exact [OF mem_db d plain_bob _ f [of "- 1"] refl] by simp
  then show ?thesis using d f by blast
qed

text \<open>
  C7. Marking messages as delivered moves the delivered frontier of the recipient and nothing
  else: forward, never beyond the last number, only over stored messages that were delivered
  or are expired, and up to the first stored message that is neither.
\<close>

theorem mark_frontier:
  assumes "pebble_db P view" "repr M (view d)" "plain r" "items \<noteq> []"
    "MarkDelivered P ctx now d r items = (None, d')"
  shows "\<exists>w. repr (M(r := (M r)\<lparr>mb_delivered := w\<rparr>)) (view d') \<and>
    mb_delivered (M r) \<le> w \<and> w \<le> mb_last (M r) \<and>
    (\<forall>s. mb_delivered (M r) < s \<and> s \<le> w \<longrightarrow>
       (\<exists>sm. mb_msgs (M r) s = Some sm \<and> (sint (ExpireAt sm) \<le> sint now \<or> s \<in> set (delivered_seqs items)))) \<and>
    (\<forall>sm. w \<noteq> - 1 \<longrightarrow> mb_msgs (M r) (w + 1) = Some sm \<longrightarrow>
       sint now < sint (ExpireAt sm) \<and> w + 1 \<notin> set (delivered_seqs items))"
proof -
  let ?f = "mb_delivered (M r)" and ?D = "set (delivered_seqs items)"
  let ?sms = "pending (M r) (?f + 1)" and ?w = "mb_delivered (mb_mark now ?D (M r))"
  have ok: "mailbox_ok r (M r)" using assms(2) by blast
  have w: "?w = advance now ?D ?sms ?f" by (simp add: mb_mark_def)
  have upd: "(M r)\<lparr>mb_delivered := ?w\<rparr> = mb_mark now ?D (M r)" by (simp add: mb_mark_def)
  have "repr (M(r := (M r)\<lparr>mb_delivered := ?w\<rparr>)) (view d')"
    unfolding upd using pebble_db.mark_refines [OF assms(1-5)] by simp
  moreover note le = mb_mark_frontier [OF ok, of now ?D]
  moreover have "\<exists>sm. mb_msgs (M r) s = Some sm \<and> (sint (ExpireAt sm) \<le> sint now \<or> s \<in> ?D)" if s: "?f < s" "s \<le> ?w" for s
  proof -
    have f: "?f \<noteq> - 1" using s(1) by auto
    have gt: "\<forall>sm\<in>set ?sms. ?f < StoreSeq sm" using word64_le_plus_one [OF f] by (auto simp: set_pending [OF ok])
    show ?thesis
      using advance_covers [OF sorted_pending [OF ok] gt s(1) s(2) [unfolded w]]
      by (auto simp: set_pending [OF ok] live_def not_less)
  qed
  moreover have "sint now < sint (ExpireAt sm) \<and> ?w + 1 \<notin> ?D"
    if m: "?w \<noteq> - 1" "mb_msgs (M r) (?w + 1) = Some sm" for sm
  proof -
    have f: "?f \<noteq> - 1" using m(1) le by (metis word_order.extremum_unique)
    have gt: "\<forall>sm\<in>set ?sms. ?f < StoreSeq sm" using word64_le_plus_one [OF f] by (auto simp: set_pending [OF ok])
    have s: "StoreSeq sm = ?w + 1" using mailbox_ok_stored [OF ok m(2)] by (simp add: stored_ok_def)
    have "?w < ?w + 1" using word64_le_plus_one [OF m(1), of "?w + 1"] by simp
    then have "?f < ?w + 1" using le by (blast intro: le_less_trans)
    then have "?f + 1 \<le> ?w + 1" using word64_le_plus_one [OF f] by blast
    then have "sm \<in> set ?sms" using m(2) s by (simp add: set_pending [OF ok])
    then show ?thesis
      using advance_stops [OF sorted_pending [OF ok] gt _ s [unfolded w]] s by (auto simp: live_def)
  qed
  ultimately show ?thesis by blast
qed

theorem mark_frontier_witness:
  "\<exists>d d' w. repr ex_pending (map_of d) \<and> MarkDelivered mem_pebble None 100 d ''bob'' [Some ex_stored] = (None, d') \<and>
     repr (ex_pending(''bob'' := (ex_pending ''bob'')\<lparr>mb_delivered := w\<rparr>)) (map_of d') \<and> w \<le> 1"
proof -
  obtain d where d: "repr ex_pending (map_of d)" using repr_pending by blast
  obtain d' where mk: "MarkDelivered mem_pebble None 100 d ''bob'' [Some ex_stored] = (None, d')"
    using mem.mark_ok [OF d plain_bob, of "[Some ex_stored]" 100] by auto
  have "mb_last (ex_pending ''bob'') = 1" by (simp add: ex_pending_def)
  then show ?thesis using mark_frontier [OF mem_db d plain_bob _ mk] d mk by (metis list.distinct(1))
qed

end
