(* ===== verification/Polling.thy ===== *)
theory Polling
  imports Service StorageTheorems
begin

text \<open>
  A recipient that polls: it fetches after the last number it has seen, lets the node mark what it got
  as delivered, as \<open>handleFetchRPC\<close> in \<open>internal/p2p/protocols.go\<close> does, acknowledges the last
  message, and goes on until a fetch brings nothing. Over any storage that meets its contract this
  brings every message exactly once and in order, and leaves nothing behind that has not expired,
  as long as garbage collection has not torn a gap beyond the delivered frontier.
\<close>

section \<open>The client\<close>

text \<open>A fetch as the server handles it: what is returned is marked before it is sent.\<close>

definition fetch_and_mark ::
  "'st storage \<Rightarrow> (goerr \<Rightarrow> string) \<Rightarrow> int64 \<Rightarrow> call_env \<Rightarrow> call_env \<Rightarrow> string \<Rightarrow> FetchRequest \<Rightarrow> 'st node \<Rightarrow>
   FetchResponse \<times> 'st node" where
  "fetch_and_mark S show_err mx c c' remote rq n =
     (case Fetch_Handle S show_err mx c remote (Some rq) n of
        (resp, n') \<Rightarrow>
          (resp, if fresp_OK resp then snd (Fetch_MarkDelivered S c' (freq_RecipientID rq) (fresp_Items resp) n') else n'))"

text \<open>
  At most \<open>k\<close> rounds after the number \<open>after\<close>; \<open>ack s\<close> is the client's acknowledgement of \<open>s\<close>. None
  is a request that is refused.
\<close>

fun drain ::
  "'st storage \<Rightarrow> verifier \<Rightarrow> (goerr \<Rightarrow> string) \<Rightarrow> int64 \<Rightarrow> call_env \<Rightarrow> (uint64 \<Rightarrow> AckRequest) \<Rightarrow> string \<Rightarrow> int64 \<Rightarrow> nat \<Rightarrow>
   uint64 \<Rightarrow> 'st node \<Rightarrow> (StoredMessage list \<times> 'st node) option" where
  "drain S V show_err mx c ack r limit 0 seen n = Some ([], n)"
| "drain S V show_err mx c ack r limit (Suc k) seen n =
     (case fetch_and_mark S show_err mx c c r
             \<lparr>freq_Version = 1, freq_RecipientID = r, freq_AfterSeq = seen, freq_Limit = limit\<rparr> n of
        (resp, n1) \<Rightarrow>
          if \<not> fresp_OK resp then None
          else if fresp_Items resp = [] then Some ([], n1)
          else
            (case Ack_Handle S V show_err c r (Some (ack (StoreSeq (last (fresp_Items resp))))) n1 of
               None \<Rightarrow> None
             | Some (aresp, n2) \<Rightarrow>
                 if \<not> aresp_OK aresp then None
                 else (case drain S V show_err mx c ack r limit k (StoreSeq (last (fresp_Items resp))) n2 of
                         None \<Rightarrow> None
                       | Some (items, n3) \<Rightarrow> Some (fresp_Items resp @ items, n3))))"

section \<open>A round on a mailbox\<close>

text \<open>What a recipient can still get, and mailboxes whose undelivered numbers are all there.\<close>

definition unread :: "int64 \<Rightarrow> mailbox \<Rightarrow> StoredMessage list" where
  "unread now mb = filter (live now) (pending mb 0)"

definition gap_free :: "mailbox \<Rightarrow> bool" where
  "gap_free mb \<longleftrightarrow> (\<forall>s. mb_delivered mb < s \<longrightarrow> s \<le> mb_last mb \<longrightarrow> mb_msgs mb s \<noteq> None)"

lemma pending_all:
  assumes ok: "mailbox_ok r mb" and seen: "seen \<le> mb_acked mb"
  shows "pending mb (seen + 1) = pending mb 0"
proof -
  have "seen + 1 \<le> s" if s: "s \<in> dom (mb_msgs mb)" for s
  proof -
    have "seen < s" using s seen mailbox_ok_unacked [OF ok] by (auto intro: le_less_trans)
    moreover from this have "seen \<noteq> - 1" by auto
    ultimately show ?thesis using word64_le_plus_one by blast
  qed
  then have "{s \<in> dom (mb_msgs mb). seen + 1 \<le> s} = {s \<in> dom (mb_msgs mb). 0 \<le> s}" by auto
  then show ?thesis by (simp only: pending_def seqs_from_def)
qed

lemma sorted_unread: "mailbox_ok r mb \<Longrightarrow> sorted_wrt (<) (map StoreSeq (unread now mb))"
  using sorted_pending [of r mb 0] by (simp add: unread_def sorted_wrt_map sorted_wrt_filter)

lemma set_unread: "mailbox_ok r mb \<Longrightarrow> set (unread now mb) = {sm. mb_msgs mb (StoreSeq sm) = Some sm \<and> live now sm}"
  by (auto simp: unread_def set_pending)

text \<open>Strictly sorted lists with the same elements are equal.\<close>

lemma unread_eqI:
  assumes "mailbox_ok r mb" "sorted_wrt (<) (map StoreSeq xs)"
    "set xs = {sm. mb_msgs mb (StoreSeq sm) = Some sm \<and> live now sm}"
  shows "unread now mb = xs"
proof -
  have "map StoreSeq (unread now mb) = map StoreSeq xs"
    by (rule strict_sorted_equal [OF assms(2) sorted_unread [OF assms(1)]])
      (simp only: list.set_map set_unread [OF assms(1)] assms(3))
  moreover have "set (unread now mb) \<union> set xs = {sm. mb_msgs mb (StoreSeq sm) = Some sm \<and> live now sm}"
    by (simp only: set_unread [OF assms(1)] assms(3) Un_absorb)
  moreover have "inj_on StoreSeq {sm. mb_msgs mb (StoreSeq sm) = Some sm \<and> live now sm}"
    by (rule inj_onI) (metis (lifting) mem_Collect_eq option.inject)
  ultimately show ?thesis by (metis map_inj_on)
qed

lemma mark_reaches:
  assumes ok: "mailbox_ok r mb" and gap: "gap_free mb" and items: "unread now mb = items @ rest" "items \<noteq> []"
  shows "StoreSeq (last items) \<le> mb_delivered (mb_mark now (StoreSeq ` set items) mb)"
proof (rule ccontr)
  let ?a = "StoreSeq (last items)" and ?d = "mb_delivered mb" and ?D = "StoreSeq ` set items"
  let ?f = "mb_delivered (mb_mark now ?D mb)"
  assume "\<not> ?a \<le> ?f"
  then have lt: "?f < ?a" by simp
  have "last items \<in> set (unread now mb)" using items by simp
  then have last: "mb_msgs mb ?a = Some (last items)" using set_unread [OF ok] by auto
  have df: "?d \<le> ?f" using mb_mark_frontier [OF ok] by blast
  have top: "x \<noteq> - 1" if "x < ?a" for x :: uint64 using that by auto
  have nd: "?d \<noteq> - 1" "?f \<noteq> - 1" using top [OF lt] top [OF le_less_trans [OF df lt]] by blast+
  have next_le: "?f + 1 \<le> ?a" using lt nd word64_le_plus_one by blast
  have "?d < ?f + 1" using df nd(2) word64_le_plus_one [OF nd(2)] by (meson le_less_trans order_refl)
  moreover have "?f + 1 \<le> mb_last mb" using next_le mailbox_ok_last [OF ok last] by simp
  ultimately obtain sm where sm: "mb_msgs mb (?f + 1) = Some sm" using gap by (auto simp: gap_free_def)
  then have seq: "StoreSeq sm = ?f + 1" using mailbox_ok_stored [OF ok] by (auto simp: stored_ok_def)
  have "sm \<in> set (pending mb (?d + 1))"
    using sm seq \<open>?d < ?f + 1\<close> word64_le_plus_one [OF nd(1)] by (simp add: set_pending [OF ok])
  then have stop: "live now sm \<and> StoreSeq sm \<notin> ?D"
    using advance_stops [OF sorted_pending [OF ok] pending_after [OF ok nd(1)]] seq by (simp add: mb_mark_def)
  then have "sm \<in> set (unread now mb)" using sm seq set_unread [OF ok] by auto
  then have "sm \<in> set rest" using stop items(1) by auto
  moreover have "sorted_wrt (<) (map StoreSeq items @ map StoreSeq rest)" using sorted_unread [OF ok, of now] items(1) by simp
  ultimately have "?a < StoreSeq sm" using items(2) by (auto simp: sorted_wrt_append)
  then show False using seq next_le by simp
qed

lemma unread_ack:
  assumes ok: "mailbox_ok r mb" "mailbox_ok r mb'" and items: "unread now mb = items @ rest" "items \<noteq> []"
    and msgs: "mb_msgs mb' = (mb_msgs mb) |` {s. StoreSeq (last items) < s}"
  shows "unread now mb' = rest"
proof (rule unread_eqI [OF ok(2)])
  have sorted: "sorted_wrt (<) (map StoreSeq items @ map StoreSeq rest)" using sorted_unread [OF ok(1), of now] items(1) by simp
  then show "sorted_wrt (<) (map StoreSeq rest)" by (simp add: sorted_wrt_append)
  have "StoreSeq x \<le> StoreSeq (last items)" if "x \<in> set items" for x
  proof -
    obtain ys where ys: "items = ys @ [last items]" using items(2) by (metis append_butlast_last_id)
    then have "sorted_wrt (<) (map StoreSeq ys @ [StoreSeq (last items)])"
      using sorted ys by (metis list.simps(8,9) map_append sorted_wrt_append)
    moreover have "x \<in> set ys \<or> x = last items" using that ys by (metis Un_iff empty_iff insert_iff list.set set_append)
    ultimately show ?thesis by (auto simp: sorted_wrt_append)
  qed
  moreover have "\<forall>x\<in>set rest. StoreSeq (last items) < StoreSeq x" using sorted items(2) by (auto simp: sorted_wrt_append)
  ultimately have "set rest = {x \<in> set (unread now mb). StoreSeq (last items) < StoreSeq x}"
    using items(1) by (auto simp: leD)
  then show "set rest = {sm. mb_msgs mb' (StoreSeq sm) = Some sm \<and> live now sm}"
    unfolding set_unread [OF ok(1)] by (auto simp: msgs restrict_map_def)
qed

text \<open>A message that is stored comes last.\<close>

lemma unread_add:
  assumes ok: "mailbox_ok r mb" "mailbox_ok r (mb_add sm mb)" and last: "mb_last mb \<noteq> - 1"
    and seq: "StoreSeq sm = mb_last mb + 1" and live: "live now sm"
  shows "unread now (mb_add sm mb) = unread now mb @ [sm]"
proof (rule unread_eqI [OF ok(2)])
  have top: "mb_last mb < mb_last mb + 1" using word64_le_plus_one [OF last] by blast
  have le: "StoreSeq x < StoreSeq sm" if "mb_msgs mb (StoreSeq x) = Some x" for x
    using mailbox_ok_last [OF ok(1) that] top seq by (simp add: le_less_trans)
  then show "sorted_wrt (<) (map StoreSeq (unread now mb @ [sm]))"
    using sorted_unread [OF ok(1), of now] set_unread [OF ok(1), of now] by (auto simp: sorted_wrt_append)
  have "mb_msgs mb (StoreSeq sm) = None" using le [of sm] mailbox_ok_stored [OF ok(1)] mailbox_ok_last [OF ok(1)] top seq
    by (metis leD not_None_eq)
  then show "set (unread now mb @ [sm]) = {x. mb_msgs (mb_add sm mb) (StoreSeq x) = Some x \<and> live now x}"
    using live set_unread [OF ok(1), of now] by (auto simp: mb_add_def)
qed

lemma gap_free_add:
  assumes "gap_free mb" "StoreSeq sm = mb_last mb + 1"
  shows "gap_free (mb_add sm mb)"
proof -
  have "s = mb_last mb + 1 \<or> s \<le> mb_last mb" if "s \<le> mb_last mb + 1" for s
    using that word64_le_plus_one [of "mb_last mb" s] by (cases "mb_last mb = - 1") (auto simp: not_le)
  then show ?thesis using assms by (auto simp: gap_free_def mb_add_def)
qed

section \<open>Rounds over a storage that meets its contract\<close>

text \<open>The client's acknowledgements are well formed and signed, and no call is cancelled.\<close>

definition good_client :: "verifier \<Rightarrow> call_env \<Rightarrow> (uint64 \<Rightarrow> AckRequest) \<Rightarrow> string \<Rightarrow> bool" where
  "good_client V c ack r \<longleftrightarrow>
     c_ctx c = None \<and> (\<forall>j. c_poll c j = None) \<and> plain r \<and> r \<noteq> [] \<and>
     (\<forall>s. areq_RecipientID (ack s) = r \<and> areq_AckSeq (ack s) = s \<and>
        validateAckRequest (Some (ack s)) = None \<and> VerifyAck V (Some (ack s)) = None)"

context live_storage
begin

lemma fetch_round:
  assumes m: "model (n_store n) M" and c: "good_client V c ack r"
    and limit: "0 < sint limit" "sint limit \<le> sint mx" and seen: "seen \<le> mb_acked (M r)"
  obtains resp n1 where
    "fetch_and_mark S show_err mx c c r
       \<lparr>freq_Version = 1, freq_RecipientID = r, freq_AfterSeq = seen, freq_Limit = limit\<rparr> n = (resp, n1)"
    "fresp_OK resp" "fresp_Items resp = take (nat (sint limit)) (unread (c_now c) (M r))"
    "model (n_store n1) (if fresp_Items resp = [] then M
       else M(r := mb_mark (c_now c) (StoreSeq ` set (fresp_Items resp)) (M r)))"
proof -
  let ?rq = "\<lparr>freq_Version = 1, freq_RecipientID = r, freq_AfterSeq = seen, freq_Limit = limit\<rparr>"
  have r: "plain r" "r \<noteq> []" "c_ctx c = None" using c by (simp_all add: good_client_def)
  obtain items more where f: "i_FetchMessages S None (c_now c) (n_store n) r seen limit = Inr (items, more)"
    using fetch_live [OF m r(1) limit(1)] by fastforce
  then have items: "items = take (nat (sint limit)) (unread (c_now c) (M r))"
    using fetch_law [OF m r(1) limit(1) f] pending_all [OF model_ok [OF m] seen]
    by (simp add: mb_fetch_def unread_def Let_def)
  let ?resp = "\<lparr>fresp_OK = True, fresp_Items = items, fresp_HasMore = more, fresp_ErrorCode = [], fresp_ErrorMessage = []\<rparr>"
  let ?n0 = "count (addFetched (length items)) (count addFetchRequests n)"
  have h: "Fetch_Handle S show_err mx c r (Some ?rq) n = (?resp, ?n0)"
    using limit r f by (simp add: Fetch_Handle_def validateFetchRequest_def Let_def)
  obtain err st where mk: "i_MarkDelivered S (c_ctx c) (c_now c) (n_store n) r (map Some items) = (err, st)" by fastforce
  have err: "err = None" using mark_live [OF m r(1), of "c_now c" "map Some items"] mk r(3) by simp
  have seqs: "set (delivered_seqs (map Some items)) = StoreSeq ` set items" by (auto simp: delivered_seqs_def)
  have fm: "fetch_and_mark S show_err mx c c r ?rq n = (?resp, ?n0\<lparr>n_store := st\<rparr>)"
    using h mk by (simp add: fetch_and_mark_def Fetch_MarkDelivered_def)
  have "model st (if items = [] then M else M(r := mb_mark (c_now c) (StoreSeq ` set items) (M r)))"
    using mark_law [OF m r(1) mk] err seqs by (cases "items = []") simp_all
  then have M: "model (n_store (?n0\<lparr>n_store := st\<rparr>)) (if fresp_Items ?resp = [] then M
      else M(r := mb_mark (c_now c) (StoreSeq ` set (fresp_Items ?resp)) (M r)))" by (simp split del: if_split cong del: if_weak_cong)
  show thesis by (rule that [OF fm _ _ M]) (use items in simp_all)
qed

lemma ack_round:
  assumes m: "model (n_store n) M" and c: "good_client V c ack r"
    and a: "mb_msgs (M r) a = Some sm" "a \<le> mb_delivered (M r)"
  obtains resp n' where "Ack_Handle S V show_err c r (Some (ack a)) n = Some (resp, n')" "aresp_OK resp"
    "model (n_store n') (M(r := mb_ack_upto a (M r)))"
proof -
  have r: "plain r" "\<forall>j. c_poll c j = None" and rq: "areq_RecipientID (ack a) = r" "areq_AckSeq (ack a) = a"
      "validateAckRequest (Some (ack a)) = None" "VerifyAck V (Some (ack a)) = None"
    using c by (simp_all add: good_client_def)
  obtain u k st where i: "i_AckMessages S (c_poll c) (n_store n) r a = Some (u, k, None, st)"
    using ack_live [OF m r(1) a(2) r(2)] by blast
  have "mb_acked (M r) < a" by (rule mailbox_ok_unacked [OF model_ok [OF m] a(1)])
  then obtain w where w: "w \<le> a" "model st (M(r := mb_ack_upto w (M r)))" "acks (M r) a w"
    using ack_law [OF m r(1) i] by auto
  then have "w = a" using a(1) by (auto simp: acks_def)
  then show thesis
    using that w(2) i rq by (cases "0 < k") (simp_all add: Ack_Handle_def Let_def)
qed

text \<open>A client that polls often enough gets every message once, in order, and leaves none behind.\<close>

lemma drain_complete:
  assumes "model (n_store n) M" "good_client V c ack r" "0 < sint limit" "sint limit \<le> sint mx"
    "seen \<le> mb_acked (M r)" "gap_free (M r)" "length (unread (c_now c) (M r)) \<le> k"
  shows "\<exists>n' M'. drain S V show_err mx c ack r limit k seen n = Some (unread (c_now c) (M r), n') \<and>
    model (n_store n') M' \<and> unread (c_now c) (M' r) = [] \<and> gap_free (M' r) \<and> mb_last (M' r) = mb_last (M r) \<and>
    (\<forall>q. q \<noteq> r \<longrightarrow> M' q = M q)"
  using assms
proof (induction k arbitrary: seen n M)
  case 0
  then show ?case by auto
next
  case (Suc k)
  let ?ms = "unread (c_now c) (M r)" and ?L = "nat (sint limit)"
  note ok = model_ok [OF Suc.prems(1)]
  obtain resp n1 where f: "fetch_and_mark S show_err mx c c r
       \<lparr>freq_Version = 1, freq_RecipientID = r, freq_AfterSeq = seen, freq_Limit = limit\<rparr> n = (resp, n1)"
    "fresp_OK resp" "fresp_Items resp = take ?L ?ms"
    "model (n_store n1) (if fresp_Items resp = [] then M
       else M(r := mb_mark (c_now c) (StoreSeq ` set (fresp_Items resp)) (M r)))"
    by (rule fetch_round [OF Suc.prems(1-5)])
  show ?case
  proof (cases "?ms = []")
    case True
    then show ?thesis using f Suc.prems(6) by (intro exI [of _ n1] exI [of _ M]) simp
  next
    case False
    let ?items = "take ?L ?ms" and ?rest = "drop ?L ?ms"
    have ne: "?items \<noteq> []" using False Suc.prems(3) by simp
    let ?a = "StoreSeq (last ?items)" and ?mb = "mb_mark (c_now c) (StoreSeq ` set ?items) (M r)"
    have m1: "model (n_store n1) (M(r := ?mb))" using f(3,4) ne by simp
    have split: "?ms = ?items @ ?rest" by simp
    have "last ?items \<in> set ?ms" using ne by (meson in_set_takeD last_in_set)
    then have a: "mb_msgs (M r) ?a = Some (last ?items)" using set_unread [OF ok] by simp
    have reach: "?a \<le> mb_delivered ?mb" by (rule mark_reaches [OF ok Suc.prems(6) split ne])
    obtain aresp n2 where k: "Ack_Handle S V show_err c r (Some (ack ?a)) n1 = Some (aresp, n2)" "aresp_OK aresp"
        "model (n_store n2) ((M(r := ?mb))(r := mb_ack_upto ?a ((M(r := ?mb)) r)))"
      by (rule ack_round [OF m1 Suc.prems(2), of ?a "last ?items"]) (use a reach in \<open>simp_all add: mb_mark_def\<close>)
    let ?M2 = "M(r := mb_ack_upto ?a ?mb)"
    have m2: "model (n_store n2) ?M2" using k(3) by simp
    have rest: "unread (c_now c) (?M2 r) = ?rest"
      by (rule unread_ack [OF ok model_ok [OF m2] split ne]) (simp add: mb_ack_upto_def mb_mark_def)
    have gap: "gap_free (?M2 r)"
      unfolding gap_free_def
    proof (intro allI impI)
      fix s
      assume s: "mb_delivered (?M2 r) < s" "s \<le> mb_last (?M2 r)"
      have d: "mb_delivered ?mb < s" "s \<le> mb_last (M r)" using s by (simp_all add: mb_ack_upto_def mb_mark_def)
      have "mb_delivered (M r) < s" using d(1) mb_mark_frontier [OF ok] le_less_trans by blast
      then have "mb_msgs (M r) s \<noteq> None" using Suc.prems(6) d(2) by (simp add: gap_free_def)
      moreover have "?a < s" using reach d(1) by (rule le_less_trans)
      ultimately show "mb_msgs (?M2 r) s \<noteq> None" by (simp add: mb_ack_upto_def mb_mark_def)
    qed
    have "length (unread (c_now c) (?M2 r)) \<le> k"
      unfolding rest using Suc.prems(3,7) False by (cases ?ms) auto
    from Suc.IH [OF m2 Suc.prems(2-4) _ gap this, of ?a] obtain n3 M3 where d:
      "drain S V show_err mx c ack r limit k ?a n2 = Some (?rest, n3)" "model (n_store n3) M3"
      "unread (c_now c) (M3 r) = []" "gap_free (M3 r)" "mb_last (M3 r) = mb_last (?M2 r)" "\<forall>q. q \<noteq> r \<longrightarrow> M3 q = ?M2 q"
      unfolding rest by (auto simp: mb_ack_upto_def)
    have "drain S V show_err mx c ack r limit (Suc k) seen n = Some (?ms, n3)"
      using f(1-3) ne k(1,2) d(1) by simp
    moreover have "mb_last (M3 r) = mb_last (M r)" using d(5) by (simp add: mb_ack_upto_def mb_mark_def)
    ultimately show ?thesis using d(2-4,6) by auto
  qed
qed

end

end
