(* ===== verification/ServiceTheorems.thy ===== *)
theory ServiceTheorems
  imports Server Polling
begin

text \<open>
  What the handlers guarantee to a peer, over the pebble store and the libp2p verifier: who may
  do what, what a successful answer means, and how requests and responses correspond.
\<close>

section \<open>Facts\<close>

lemma pending_add:
  assumes ok: "mailbox_ok r (mb_add sm mb)" and last: "mb_last mb \<noteq> - 1" "StoreSeq sm = mb_last mb + 1"
    and old: "mailbox_ok r mb"
  shows "pending (mb_add sm mb) (mb_last mb + 1) = [sm]"
proof -
  have up: "mb_last mb < mb_last mb + 1" using word64_le_plus_one [OF last(1), of "mb_last mb + 1"] by simp
  have "{s \<in> dom (mb_msgs (mb_add sm mb)). mb_last mb + 1 \<le> s} = {mb_last mb + 1}"
  proof
    show "{s \<in> dom (mb_msgs (mb_add sm mb)). mb_last mb + 1 \<le> s} \<subseteq> {mb_last mb + 1}"
    proof
      fix s
      assume s: "s \<in> {s \<in> dom (mb_msgs (mb_add sm mb)). mb_last mb + 1 \<le> s}"
      show "s \<in> {mb_last mb + 1}"
      proof (rule ccontr)
        assume "s \<notin> {mb_last mb + 1}"
        then have "s \<in> dom (mb_msgs mb)" using s last(2) by (auto simp: mb_add_def)
        then have "s \<le> mb_last mb" using mailbox_ok_last [OF old] by blast
        moreover have "mb_last mb < s" using s up by (auto intro: less_le_trans)
        ultimately show False by simp
      qed
    qed
  qed (use last(2) in \<open>auto simp: mb_add_def\<close>)
  then show ?thesis using last(2) by (simp add: pending_def seqs_from_def mb_add_def)
qed

section \<open>Storing\<close>

text \<open>
  C22. The store handler, under faults, for a recipient without a slash that has a number left and an
  expiry time that does not overflow. A refusal leaves the mailboxes as they were. A success means that
  the sender signed the message and its lifetime is positive and within the limit and its size is.
  If it is not reported as a duplicate, no message with its id was waiting, and it is stored as sent
  (with the default lifetime filled in), under the next number of the recipient and with the answered
  expiry. If it is reported as a duplicate, nothing is stored: a message with the same id, which need
  not be the same message, waits under the answered number with the answered expiry.
\<close>

theorem store_handler_sound:
  assumes "pebble_db P view" "repr M (view (n_store n))"
    "Store_Handle (pebble_store P) (NewVerifier L t) txt cfg c remote (Some rq) n = Some (resp, n')"
    "sreq_Message rq = Some msg" "wf_Envelope msg" "plain (RecipientID msg)" "r = RecipientID msg"
    "mb_last (M r) \<noteq> - 1" "ttl = EffectiveTTL (Some msg) (ss_defaultTTLSec cfg)" "0 \<le> sint (c_now c + ttl)"
  shows "if \<not> sresp_OK resp then repr M (view (n_store n'))
    else signed_by L (SenderID msg) (CanonicalMessageEnvelope msg (ss_defaultTTLSec cfg)) (env_Signature msg) \<and>
      0 < sint ttl \<and> sint ttl \<le> sint (ss_maxTTLSec cfg) \<and>
      messageSize (with_ttl cfg msg) \<le> sint (ss_maxMessageSize cfg) \<and>
      (if sresp_Duplicate resp
       then repr M (view (n_store n')) \<and>
         (\<exists>sm. mb_msgs (M r) (sresp_StoreSeq resp) = Some sm \<and> msg_id sm = MsgID msg \<and> ExpireAt sm = sresp_ExpireAt resp)
       else find_id (M r) (MsgID msg) = None \<and> sresp_StoreSeq resp = mb_last (M r) + 1 \<and> sresp_ExpireAt resp = c_now c + ttl \<and>
         (\<exists>sm. StoreSeq sm = mb_last (M r) + 1 \<and> ExpireAt sm = c_now c + ttl \<and> sm_Message sm = Some (with_ttl cfg msg) \<and>
            repr (M(r := mb_add sm (M r))) (view (n_store n'))))"
proof -
  have st: "mailbox_storage (pebble_store P) (pebble_db.pmodel view)" by (rule pebble_db.is_storage [OF assms(1)])
  have pm: "pebble_db.pmodel view d X \<longleftrightarrow> repr X (view d)" for d X by (rule pebble_db.pmodel_def [OF assms(1)])
  have "if \<not> sresp_OK resp then pebble_db.pmodel view (n_store n') M
    else \<exists>q m. Some rq = Some q \<and> sreq_Message q = Some m \<and> store_admitted (NewVerifier L t) cfg (with_ttl cfg m) \<and>
      store_post (pebble_db.pmodel view) M (c_now c)
        \<lparr>StoreSeq = 0, ReceivedAt = 0, ExpireAt = 0, sm_Message = Some (with_ttl cfg m)\<rparr>
        (with_ttl cfg m) (Inr (sresp_StoreSeq resp, sresp_ExpireAt resp, sresp_Duplicate resp)) (n_store n')"
    by (rule mailbox_storage.Store_Handle_spec [OF st _ assms(3)]) (use assms pm in auto)
  then show ?thesis
    using assms(4,7,9) verified_signed [of L t cfg msg] next_message_def
    by (auto simp: pm store_admitted_def store_post_def with_ttl_effective next_message_def split: if_splits)
      (metis stamp_simps(1,3,4) with_ttl_effective StoredMessage.select_convs(4))+
qed

text \<open>A library in which every signature is good, and a node with an empty store.\<close>

definition ex_libp2p :: "(string, string) libp2p" where
  "ex_libp2p = \<lparr>peer_Decode = Inr, ExtractPublicKey = Inr, key_Verify = (\<lambda>_ _ _. Inr True)\<rparr>"

definition ex_cfg :: StoreService where
  "ex_cfg = \<lparr>ss_defaultTTLSec = 60, ss_maxTTLSec = 60, ss_maxMessageSize = 100000,
     ss_maxMessagesPerRecipient = 10, ss_maxBytesPerRecipient = 10000\<rparr>"

definition ex_call :: call_env where
  "ex_call = \<lparr>c_ctx = None, c_poll = (\<lambda>_. None), c_now = 100, c_remoteTime = 0, c_senderTime = 0\<rparr>"

definition ex_node :: "memdb \<Rightarrow> memdb node" where
  "ex_node d = \<lparr>n_store = d, n_remoteLimiter = New_Limiter 0, n_senderLimiter = New_Limiter 0, n_metrics = New_Metrics\<rparr>"

definition ex_request :: StoreRequest where
  "ex_request = \<lparr>sreq_Version = 1, sreq_Message = Some ex_env\<rparr>"

lemma ex_handled:
  "\<exists>n'. Store_Handle (pebble_store mem_pebble) (NewVerifier ex_libp2p 60) (\<lambda>_. []) ex_cfg ex_call ''alice'' (Some ex_request)
     (ex_node []) = Some (store_reply False 1 150, n')"
proof -
  obtain d' where d': "StoreMessageWithQuota mem_pebble None 100 [] (Some ex_msg) 10 10000 = Some (Inr (1, 150, False), d')"
    using ex_store by blast
  have v: "validateStoreRequest (Some ex_request) = None"
    by (simp add: validateStoreRequest_def ex_request_def ex_env_def)
  have w: "with_ttl ex_cfg ex_env = ex_env" by (simp add: with_ttl_def ex_env_def)
  have "base64_DecodeString ''AAAA'' \<noteq> None" by code_simp
  then have sig: "VerifyMessageEnvelope (NewVerifier ex_libp2p 60) (Some ex_env) = None"
    by (auto simp: NewVerifier_def Peer_VerifyMessageEnvelope_def verify_signed_def ex_libp2p_def ex_env_def split: option.splits)
  have sz: "messageSize ex_env \<le> 100000"
    unfolding messageSize_def ex_env_def by code_simp
  have "store_persist (pebble_store mem_pebble) (\<lambda>_. []) ex_cfg ex_call ex_env m =
      Some (store_reply False 1 150, count addStoreSuccess (m\<lparr>n_store := d'\<rparr>))" if "n_store m = []" for m
    using d' that by (simp add: store_persist_def pebble_store_def ex_cfg_def ex_call_def ex_msg_def Let_def)
  then show ?thesis
    using v w sig sz
    by (simp add: Store_Handle_def Let_def ex_request_def ex_cfg_def ex_node_def count_def Allow_def New_Limiter_def)
qed

theorem store_handler_sound_witness:
  "\<exists>n'. Store_Handle (pebble_store mem_pebble) (NewVerifier ex_libp2p 60) (\<lambda>_. []) ex_cfg ex_call ''alice''
       (Some ex_request) (ex_node []) = Some (store_reply False 1 150, n') \<and>
     signed_by ex_libp2p ''alice'' (CanonicalMessageEnvelope ex_env 60) (env_Signature ex_env)"
proof -
  obtain n' where h: "Store_Handle (pebble_store mem_pebble) (NewVerifier ex_libp2p 60) (\<lambda>_. []) ex_cfg ex_call ''alice''
      (Some ex_request) (ex_node []) = Some (store_reply False 1 150, n')"
    using ex_handled by blast
  have req: "sreq_Message ex_request = Some ex_env" by (simp add: ex_request_def)
  have rep: "repr ex_none (map_of (n_store (ex_node [])))" using repr_none by (simp add: ex_node_def)
  have ttl: "ss_defaultTTLSec ex_cfg = 60" "c_now ex_call = 100" "SenderID ex_env = ''alice''"
    by (simp_all add: ex_cfg_def ex_call_def ex_env_def)
  have eff: "50 = EffectiveTTL (Some ex_env) (ss_defaultTTLSec ex_cfg)" by simp
  have ok: "\<not> \<not> sresp_OK (store_reply False 1 150)" by (simp add: store_reply_def)
  have wf: "wf_Envelope ex_env" "plain (RecipientID ex_env)" "''bob'' = RecipientID ex_env" by simp_all
  have "mb_last (ex_none ''bob'') \<noteq> - 1" "0 \<le> sint (c_now ex_call + 50)"
    by (simp_all add: ex_none_def empty_mailbox_def ex_call_def)
  note sound = store_handler_sound [OF mem_db rep h req wf this(1) eff this(2), unfolded if_not_P [OF ok]]
  then have "signed_by ex_libp2p (SenderID ex_env) (CanonicalMessageEnvelope ex_env (ss_defaultTTLSec ex_cfg)) (env_Signature ex_env)"
    by (rule conjunct1)
  then show ?thesis using h ttl by metis
qed

section \<open>Fetching and acknowledging\<close>

text \<open>
  C23. Over a store that represents mailboxes (one in which nothing was stored for a recipient with
  a slash), whatever number the request gives: a fetch changes nothing in the store, succeeds only for
  the recipient itself, within the configured limit, and answers with the recipient's own unexpired
  messages after the given number (from the start if that is 2^64 - 1), the lowest first and in order,
  as many as the requested limit allows, and says whether there are more.
\<close>

theorem fetch_handler_sound:
  assumes "pebble_db P view" "repr M (view (n_store n))" "plain remote"
    "Fetch_Handle (pebble_store P) txt fetchLimitMax c remote (Some rq) n = (resp, n')"
    "F = fetchable (c_now c) (if freq_AfterSeq rq = - 1 then 0 else freq_AfterSeq rq) (M remote)"
  shows "n_store n' = n_store n \<and>
    (fresp_OK resp \<longrightarrow> freq_RecipientID rq = remote \<and> sint (freq_Limit rq) \<le> sint fetchLimitMax \<and>
       sorted_wrt (<) (map StoreSeq (fresp_Items resp)) \<and> set (fresp_Items resp) \<subseteq> F \<and>
       int (length (fresp_Items resp)) = min (sint (freq_Limit rq)) (int (card F)) \<and>
       (fresp_HasMore resp \<longleftrightarrow> sint (freq_Limit rq) < int (card F)) \<and>
       (\<forall>x\<in>F - set (fresp_Items resp). \<forall>y\<in>set (fresp_Items resp). StoreSeq y < StoreSeq x))"
proof (intro conjI [OF Fetch_Handle_store [OF assms(4)]] impI)
  assume ok: "fresp_OK resp"
  obtain q where q: "Some rq = Some q" "remote = freq_RecipientID q" "0 < sint (freq_Limit q)"
      "sint (freq_Limit q) \<le> sint fetchLimitMax"
      "i_FetchMessages (pebble_store P) (c_ctx c) (c_now c) (n_store n) (freq_RecipientID q) (freq_AfterSeq q) (freq_Limit q)
         = Inr (fresp_Items resp, fresp_HasMore resp)"
    by (rule Fetch_Handle_OK [OF assms(4) ok])
  have f: "FetchMessages P (c_ctx c) (c_now c) (n_store n) remote (freq_AfterSeq rq) (freq_Limit rq)
      = Inr (fresp_Items resp, fresp_HasMore resp)" and lim: "0 < sint (freq_Limit rq)"
    using q(1,2,3,5) by (simp_all add: pebble_store_def)
  note char = mb_fetch_char [OF repr_ok [OF assms(2)] lim pebble_db.fetch_refines [OF assms(1-3) lim f],
      unfolded fetch_from_def, folded assms(5)]
  show "freq_RecipientID rq = remote \<and> sint (freq_Limit rq) \<le> sint fetchLimitMax \<and>
       sorted_wrt (<) (map StoreSeq (fresp_Items resp)) \<and> set (fresp_Items resp) \<subseteq> F \<and>
       int (length (fresp_Items resp)) = min (sint (freq_Limit rq)) (int (card F)) \<and>
       (fresp_HasMore resp \<longleftrightarrow> sint (freq_Limit rq) < int (card F)) \<and>
       (\<forall>x\<in>F - set (fresp_Items resp). \<forall>y\<in>set (fresp_Items resp). StoreSeq y < StoreSeq x)"
    using char q(1,2,4) by simp
qed

definition ex_fetch :: FetchRequest where
  "ex_fetch = \<lparr>freq_Version = 1, freq_RecipientID = ''bob'', freq_AfterSeq = 0, freq_Limit = 10\<rparr>"

theorem fetch_handler_sound_witness:
  "\<exists>d resp n'. Fetch_Handle (pebble_store mem_pebble) (\<lambda>_. []) 500 ex_call ''bob'' (Some ex_fetch) (ex_node d) = (resp, n') \<and>
     fresp_OK resp \<and> set (fresp_Items resp) \<subseteq> fetchable 100 0 (ex_pending ''bob'') \<and> n_store n' = d"
proof -
  obtain d where d: "repr ex_pending (map_of d)" using repr_pending by blast
  obtain resp n' where h: "Fetch_Handle (pebble_store mem_pebble) (\<lambda>_. []) 500 ex_call ''bob'' (Some ex_fetch) (ex_node d) = (resp, n')"
    by fastforce
  have "FetchMessages mem_pebble None 100 d ''bob'' 0 10 = Inr ([ex_stored], False)"
    using mem.fetch_eq [OF d plain_bob, of 10 100 0]
    by (simp add: mb_fetch_def ex_pending_seqs Let_def live_def ex_stored_def)
  then have ok: "fresp_OK resp"
    using h by (auto simp: Fetch_Handle_def validateFetchRequest_def ex_fetch_def ex_call_def ex_node_def pebble_store_def Let_def)
  have rep: "repr ex_pending (map_of (n_store (ex_node d)))" using d by (simp add: ex_node_def)
  have "set (fresp_Items resp) \<subseteq> fetchable (c_now ex_call)
      (if freq_AfterSeq ex_fetch = - 1 then 0 else freq_AfterSeq ex_fetch) (ex_pending ''bob'')"
    using fetch_handler_sound [OF mem_db rep plain_bob h refl] ok by blast
  moreover have "n_store n' = n_store (ex_node d)"
    using fetch_handler_sound [OF mem_db rep plain_bob h refl] by blast
  ultimately show ?thesis using h ok by (simp add: ex_fetch_def ex_call_def ex_node_def) blast
qed

text \<open>
  C24. Under faults, only an acknowledgement that the recipient signed and sent itself changes
  a mailbox; it removes exactly the messages up to a number of the delivered window, and a
  success means that all messages up to the acknowledged number are gone.
\<close>

theorem ack_handler_sound:
  assumes "pebble_db P view" "repr M (view (n_store n))" "plain remote"
    "Ack_Handle (pebble_store P) (NewVerifier L t) txt c remote (Some rq) n = Some (resp, n')"
  shows "repr M (view (n_store n')) \<and> (aresp_OK resp \<longrightarrow> aresp_DeletedUntilSeq resp = mb_acked (M remote)) \<or>
    (\<exists>w. signed_by L remote (CanonicalAck rq) (areq_Signature rq) \<and> areq_RecipientID rq = remote \<and>
       mb_acked (M remote) \<le> w \<and> w \<le> areq_AckSeq rq \<and> areq_AckSeq rq \<le> mb_delivered (M remote) \<and>
       repr (M(remote := mb_ack_upto w (M remote))) (view (n_store n')) \<and>
       (aresp_OK resp \<longrightarrow> aresp_DeletedUntilSeq resp = w \<and>
          (\<forall>s\<in>dom (mb_msgs (M remote)). s \<le> areq_AckSeq rq \<longrightarrow> s \<le> w)))"
proof -
  have st: "mailbox_storage (pebble_store P) (pebble_db.pmodel view)" by (rule pebble_db.is_storage [OF assms(1)])
  have pm: "pebble_db.pmodel view d X \<longleftrightarrow> repr X (view d)" for d X by (rule pebble_db.pmodel_def [OF assms(1)])
  have sig: "VerifyAck (NewVerifier L t) (Some rq) = None \<longleftrightarrow> signed_by L (areq_RecipientID rq) (CanonicalAck rq) (areq_Signature rq)"
    by (simp add: NewVerifier_def Peer_VerifyAck_def verify_signed_accepts)
  show ?thesis
    using mailbox_storage.Ack_Handle_spec [OF st _ assms(4,3), of M] assms(2) sig unfolding pm acks_def by auto
qed

definition ex_ack_request :: AckRequest where
  "ex_ack_request =
     \<lparr>areq_Version = 1, areq_RecipientID = ''bob'', areq_DeviceID = ''bob'', areq_AckSeq = 1, areq_AckedAt = 130,
      areq_Signature = \<lparr>sig_Algorithm = ''ed25519'', sig_Value = ''AAAA''\<rparr>\<rparr>"

lemma ex_ack_verified: "VerifyAck (NewVerifier ex_libp2p 60) (Some (ex_ack_request\<lparr>areq_AckSeq := s\<rparr>)) = None"
proof -
  have "base64_DecodeString ''AAAA'' \<noteq> None" by code_simp
  then show ?thesis
    by (auto simp: NewVerifier_def Peer_VerifyAck_def verify_signed_def ex_libp2p_def ex_ack_request_def split: option.splits)
qed

theorem ack_handler_sound_witness:
  "\<exists>d M'. repr ex_delivered (map_of d) \<and>
     (case Ack_Handle (pebble_store mem_pebble) (NewVerifier ex_libp2p 60) (\<lambda>_. []) ex_call ''bob'' (Some ex_ack_request) (ex_node d) of
        None \<Rightarrow> False | Some (resp, n') \<Rightarrow> repr M' (map_of (n_store n')))"
proof -
  obtain d where d: "repr ex_delivered (map_of d)" using repr_delivered by blast
  obtain u c d' where a: "AckMessages mem_pebble defaultAckDeleteBatch (\<lambda>_. None) d ''bob'' 1 = Some (u, c, None, d')"
    by (rule mem.ack_ok [OF d plain_bob, of defaultAckDeleteBatch "\<lambda>_. None" 1])
      (auto simp: ex_delivered_def defaultAckDeleteBatch_def)
  have "VerifyAck (NewVerifier ex_libp2p 60) (Some ex_ack_request) = None"
    using ex_ack_verified [of 1] by (simp add: ex_ack_request_def)
  then have "\<exists>resp n'. Ack_Handle (pebble_store mem_pebble) (NewVerifier ex_libp2p 60) (\<lambda>_. []) ex_call ''bob''
      (Some ex_ack_request) (ex_node d) = Some (resp, n')"
    using a by (simp add: Ack_Handle_def validateAckRequest_def ex_ack_request_def ex_call_def ex_node_def pebble_store_def Let_def)
  then obtain resp n' where h: "Ack_Handle (pebble_store mem_pebble) (NewVerifier ex_libp2p 60) (\<lambda>_. []) ex_call ''bob''
      (Some ex_ack_request) (ex_node d) = Some (resp, n')" by blast
  have rep: "repr ex_delivered (map_of (n_store (ex_node d)))" using d by (simp add: ex_node_def)
  obtain M' where "repr M' (map_of (n_store n'))"
    using ack_handler_sound [OF mem_db rep plain_bob h] by blast
  then show ?thesis using d h by (intro exI [of _ d] exI [of _ M']) simp
qed

section \<open>Requests and responses\<close>

text \<open>
  C25. A stream that the server closes carries exactly one response frame, and the response
  repeats the id of the request that was read from the stream (no id if there was none to read).
\<close>

theorem rpc_one_response:
  assumes "HandleRPC S V txt quote cfg fetchLimitMax fl c c' stream n = Some (w, Closed, n')"
  shows "\<exists>frame rest resp. ReadFrame (str_in stream) (fl_RPCRequest fl) = (Inr frame, rest) \<and>
    wr_out w = wr_out (str_out stream)
      @ PutUint32 (of_nat (length (json_print (enc_RPCResponse resp)))) @ json_print (enc_RPCResponse resp) \<and>
    rresp_RequestID resp =
      (case unmarshal zero_RPCRequest dec_RPCRequest frame of Inl _ \<Rightarrow> [] | Inr q \<Rightarrow> rpc_RequestID q)"
proof -
  obtain frame rest where read: "ReadFrame (str_in stream) (fl_RPCRequest fl) = (Inr frame, rest)"
    using assms by (auto simp: HandleRPC_def split: option.splits prod.splits sum.splits)
  obtain resp m where d: "rpc_dispatch S V txt quote cfg fetchLimitMax c c' (str_remote stream) frame n = Some (resp, m)"
      and wr: "writeRPC fl stream resp = (w, Closed)"
    using assms read by (auto simp: HandleRPC_def split: option.splits prod.splits)
  have "wr_out w = wr_out (str_out stream)
      @ PutUint32 (of_nat (length (json_print (enc_RPCResponse resp)))) @ json_print (enc_RPCResponse resp)"
    using wr by (auto simp: writeRPC_def WriteJSON_def WriteFrame_def Write_def split: option.splits prod.splits if_splits list.splits)
  then show ?thesis using read rpc_dispatch_id [OF d] by blast
qed

definition ex_stream :: rpc_stream where
  "ex_stream = \<lparr>str_remote = ''bob'', str_readDeadline = None,
     str_in = \<lparr>rd_data = PutUint32 3 @ ''{x}'', rd_end = EOF\<rparr>, str_writeDeadline = None,
     str_out = \<lparr>wr_out = [], wr_errs = []\<rparr>\<rparr>"

theorem rpc_one_response_witness:
  "\<exists>w n' resp. HandleRPC (pebble_store mem_pebble) (NewVerifier ex_libp2p 60) (\<lambda>_. ''bad'') (\<lambda>x. x) ex_cfg 500
       \<lparr>fl_RPCRequest = 1000, fl_RPCResponse = 1000\<rparr> ex_call ex_call ex_stream (ex_node []) = Some (w, Closed, n') \<and>
     wr_out w = PutUint32 (of_nat (length (json_print (enc_RPCResponse resp)))) @ json_print (enc_RPCResponse resp) \<and>
     rresp_RequestID resp = []"
proof -
  let ?fl = "\<lparr>fl_RPCRequest = 1000, fl_RPCResponse = 1000\<rparr>"
  have rd: "ReadFrame (str_in ex_stream) (fl_RPCRequest ?fl) = (Inr ''{x}'', \<lparr>rd_data = [], rd_end = EOF\<rparr>)"
    using ReadFrame_frame [of "''{x}''" 1000 "[]" EOF] by (simp add: ex_stream_def)
  have "json_parse ''{x}'' = None" by code_simp
  then have un: "unmarshal zero_RPCRequest dec_RPCRequest ''{x}'' = Inl JsonError" by (simp add: unmarshal_def)
  let ?resp = "writeRPCError [] CodeRPCInvalidRequest ''bad''"
  have len: "length (json_print (enc_RPCResponse ?resp)) \<le> 200" "json_print (enc_RPCResponse ?resp) \<noteq> []"
    by code_simp+
  then have "(of_nat (length (json_print (enc_RPCResponse ?resp))) :: uint32) \<le> 1000"
    by (simp add: word_le_nat_alt unat_of_nat take_bit_nat_eq_self)
  then have "writeRPC ?fl ex_stream ?resp = (\<lparr>wr_out = PutUint32 (of_nat (length (json_print (enc_RPCResponse ?resp))))
      @ json_print (enc_RPCResponse ?resp), wr_errs = []\<rparr>, Closed)"
    using len WriteFrame_ok [of "\<lparr>wr_out = [], wr_errs = []\<rparr>" "json_print (enc_RPCResponse ?resp)" 1000]
    by (simp add: writeRPC_def WriteJSON_def ex_stream_def)
  then obtain w n' where h: "HandleRPC (pebble_store mem_pebble) (NewVerifier ex_libp2p 60) (\<lambda>_. ''bad'') (\<lambda>x. x) ex_cfg 500
      ?fl ex_call ex_call ex_stream (ex_node []) = Some (w, Closed, n')"
    using rd un by (simp add: HandleRPC_def rpc_dispatch_def ex_stream_def)
  have "wr_out (str_out ex_stream) = []" by (simp add: ex_stream_def)
  then show ?thesis using rpc_one_response [OF h] h rd un by auto
qed

section \<open>Delivery\<close>

lemma Store_Handle_new:
  assumes "pebble_db P view" "repr M (view (n_store n))"
    "Store_Handle (pebble_store P) (NewVerifier L t) show_err cfg c sender (Some rq) n = Some (resp, n')"
    "sreq_Message rq = Some msg" "wf_Envelope msg" "plain (RecipientID msg)" "r = RecipientID msg"
    "mb_last (M r) \<noteq> - 1" "0 \<le> sint (c_now c + EffectiveTTL (Some msg) (ss_defaultTTLSec cfg))"
    "sresp_OK resp" "\<not> sresp_Duplicate resp"
  obtains sm where "StoreSeq sm = mb_last (M r) + 1" "sm_Message sm = Some (with_ttl cfg msg)"
    "sresp_StoreSeq resp = StoreSeq sm" "sresp_ExpireAt resp = ExpireAt sm"
    "repr (M(r := mb_add sm (M r))) (view (n_store n'))"
proof -
  have st: "mailbox_storage (pebble_store P) (pebble_db.pmodel view)" by (rule pebble_db.is_storage [OF assms(1)])
  have pm: "pebble_db.pmodel view d X \<longleftrightarrow> repr X (view d)" for d X by (rule pebble_db.pmodel_def [OF assms(1)])
  let ?m0 = "\<lparr>StoreSeq = 0, ReceivedAt = 0, ExpireAt = 0, sm_Message = Some (with_ttl cfg msg)\<rparr>"
  let ?sm = "next_message (M r) (c_now c) ?m0 (with_ttl cfg msg)"
  have "if \<not> sresp_OK resp then pebble_db.pmodel view (n_store n') M
    else \<exists>q m. Some rq = Some q \<and> sreq_Message q = Some m \<and> store_admitted (NewVerifier L t) cfg (with_ttl cfg m) \<and>
      store_post (pebble_db.pmodel view) M (c_now c)
        \<lparr>StoreSeq = 0, ReceivedAt = 0, ExpireAt = 0, sm_Message = Some (with_ttl cfg m)\<rparr>
        (with_ttl cfg m) (Inr (sresp_StoreSeq resp, sresp_ExpireAt resp, sresp_Duplicate resp)) (n_store n')"
    by (rule mailbox_storage.Store_Handle_spec [OF st _ assms(3)]) (use assms pm in auto)
  then have new: "sresp_StoreSeq resp = mb_last (M r) + 1" "sresp_ExpireAt resp = ExpireAt ?sm"
      "repr (M(r := mb_add ?sm (M r))) (view (n_store n'))"
    using assms(4,7,10,11) by (auto simp: store_post_def pm)
  have "StoreSeq ?sm = mb_last (M r) + 1" "sm_Message ?sm = Some (with_ttl cfg msg)" by (simp_all add: next_message_def)
  then show thesis using that new by simp
qed

text \<open>Without faults the recipient's next fetch returns exactly the message that was stored.\<close>

lemma stored_message_is_fetched:
  assumes "pebble_ok P view" "repr M (view (n_store n))"
    "Store_Handle (pebble_store P) (NewVerifier L t) show_err cfg c sender (Some rq) n = Some (resp, n')"
    "sreq_Message rq = Some msg" "wf_Envelope msg" "plain (RecipientID msg)" "r = RecipientID msg"
    "mb_last (M r) \<noteq> - 1" "0 \<le> sint (c_now c + EffectiveTTL (Some msg) (ss_defaultTTLSec cfg))"
    "sresp_OK resp" "\<not> sresp_Duplicate resp"
    "freq_Version fq = 1" "freq_RecipientID fq = r" "r \<noteq> []" "freq_AfterSeq fq = mb_last (M r)"
    "0 < sint (freq_Limit fq)" "sint (freq_Limit fq) \<le> sint fetchLimitMax"
    "c_ctx c' = None" "sint (c_now c') < sint (sresp_ExpireAt resp)"
  shows "\<exists>sm n''. Fetch_Handle (pebble_store P) show_err fetchLimitMax c' r (Some fq) n' =
      (\<lparr>fresp_OK = True, fresp_Items = [sm], fresp_HasMore = False, fresp_ErrorCode = [], fresp_ErrorMessage = []\<rparr>, n'') \<and>
    sm_Message sm = Some (with_ttl cfg msg) \<and> StoreSeq sm = sresp_StoreSeq resp"
proof -
  have db: "pebble_db P view" using assms(1) by (simp add: pebble_ok_def)
  obtain sm where sm: "StoreSeq sm = mb_last (M r) + 1" "sm_Message sm = Some (with_ttl cfg msg)"
      "sresp_StoreSeq resp = StoreSeq sm" "sresp_ExpireAt resp = ExpireAt sm"
      "repr (M(r := mb_add sm (M r))) (view (n_store n'))"
    by (rule Store_Handle_new [OF db assms(2-11)])
  have "pending (mb_add sm (M r)) (mb_last (M r) + 1) = [sm]"
    using pending_add [OF _ assms(8) sm(1) repr_ok [OF assms(2)]] repr_ok [OF sm(5), of r] by simp
  then have "mb_fetch (c_now c') (mb_last (M r)) (freq_Limit fq) (mb_add sm (M r)) = ([sm], False)"
    using assms(16,19) sm(4) by (simp add: mb_fetch_def live_def Let_def)
  then have "FetchMessages P None (c_now c') (n_store n') r (mb_last (M r)) (freq_Limit fq) = Inr ([sm], False)"
    using pebble_ok.fetch_eq [OF assms(1) sm(5), of r "freq_Limit fq"] assms(6,7,16) by simp
  then show ?thesis
    using assms(12-18) sm(1-3) by (simp add: Fetch_Handle_def validateFetchRequest_def pebble_store_def Let_def)
qed

text \<open>
  C26. Delivery end to end, without faults: after a store was answered with success (and not as
  a duplicate), a recipient that polls, fetching after what it has acknowledged and acknowledging the
  last message it got, is never refused, gets everything that was waiting and then the stored
  message, each message once and in order, and leaves nothing in its mailbox that has not
  expired. The mailbox must have no gap beyond its delivered frontier.
\<close>

theorem stored_message_is_delivered:
  assumes "pebble_ok P view" "repr M (view (n_store n))"
    "Store_Handle (pebble_store P) (NewVerifier L t) show_err cfg c sender (Some rq) n = Some (resp, n')"
    "sreq_Message rq = Some msg" "wf_Envelope msg" "plain (RecipientID msg)" "r = RecipientID msg"
    "mb_last (M r) \<noteq> - 1" "0 \<le> sint (c_now c + EffectiveTTL (Some msg) (ss_defaultTTLSec cfg))"
    "sresp_OK resp" "\<not> sresp_Duplicate resp" "sint (c_now c') < sint (sresp_ExpireAt resp)"
    "good_client V c' ack r" "0 < sint limit" "sint limit \<le> sint fetchLimitMax" "seen \<le> mb_acked (M r)"
    "gap_free (M r)" "length (unread (c_now c') (M r)) < k"
  shows "\<exists>sm n'' M''. drain (pebble_store P) V show_err fetchLimitMax c' ack r limit k seen n' =
      Some (unread (c_now c') (M r) @ [sm], n'') \<and>
    sm_Message sm = Some (with_ttl cfg msg) \<and> StoreSeq sm = sresp_StoreSeq resp \<and>
    repr M'' (view (n_store n'')) \<and> unread (c_now c') (M'' r) = [] \<and> gap_free (M'' r) \<and> (\<forall>q. q \<noteq> r \<longrightarrow> M'' q = M q)"
proof -
  have db: "pebble_db P view" using assms(1) by (simp add: pebble_ok_def)
  have live: "live_storage (pebble_store P) (pebble_db.pmodel view)" by (rule pebble_ok.is_live [OF assms(1)])
  have pm: "pebble_db.pmodel view d X \<longleftrightarrow> repr X (view d)" for d X by (rule pebble_db.pmodel_def [OF db])
  obtain sm where sm: "StoreSeq sm = mb_last (M r) + 1" "sm_Message sm = Some (with_ttl cfg msg)"
      "sresp_StoreSeq resp = StoreSeq sm" "sresp_ExpireAt resp = ExpireAt sm"
      "repr (M(r := mb_add sm (M r))) (view (n_store n'))"
    by (rule Store_Handle_new [OF db assms(2-11)])
  let ?M = "M(r := mb_add sm (M r))"
  have un: "unread (c_now c') (?M r) = unread (c_now c') (M r) @ [sm]"
    using unread_add [OF repr_ok [OF assms(2)] _ assms(8) sm(1)] repr_ok [OF sm(5), of r] assms(12) sm(4)
    by (simp add: live_def)
  have start: "seen \<le> mb_acked (?M r)" "gap_free (?M r)"
    using assms(16) gap_free_add [OF assms(17) sm(1)] by (simp_all add: mb_add_def)
  have "pebble_db.pmodel view (n_store n') ?M" using sm(5) pm by blast
  moreover have "length (unread (c_now c') (?M r)) \<le> k" using assms(18) unfolding un by simp
  ultimately obtain n'' M'' where d: "drain (pebble_store P) V show_err fetchLimitMax c' ack r limit k seen n' =
        Some (unread (c_now c') (M r) @ [sm], n'')" "repr M'' (view (n_store n''))"
      "unread (c_now c') (M'' r) = []" "gap_free (M'' r)" "\<forall>q. q \<noteq> r \<longrightarrow> M'' q = ?M q"
    using live_storage.drain_complete [where M = ?M, OF live _ assms(13-15) start] unfolding un pm by blast
  then have "\<forall>q. q \<noteq> r \<longrightarrow> M'' q = M q" by simp
  with d(1-4) sm(2,3) show ?thesis by metis
qed

theorem stored_message_is_delivered_witness:
  "\<exists>n' sm n''. Store_Handle (pebble_store mem_pebble) (NewVerifier ex_libp2p 60) (\<lambda>_. []) ex_cfg ex_call ''alice''
       (Some ex_request) (ex_node []) = Some (store_reply False 1 150, n') \<and>
     drain (pebble_store mem_pebble) (NewVerifier ex_libp2p 60) (\<lambda>_. []) 500 ex_call
       (\<lambda>s. ex_ack_request\<lparr>areq_AckSeq := s\<rparr>) ''bob'' 10 1 0 n' = Some ([sm], n'') \<and>
     sm_Message sm = Some ex_env"
proof -
  obtain n' where h: "Store_Handle (pebble_store mem_pebble) (NewVerifier ex_libp2p 60) (\<lambda>_. []) ex_cfg ex_call ''alice''
      (Some ex_request) (ex_node []) = Some (store_reply False 1 150, n')"
    using ex_handled by blast
  have req: "sreq_Message ex_request = Some ex_env" by (simp add: ex_request_def)
  have rep: "repr ex_none (map_of (n_store (ex_node [])))" using repr_none by (simp add: ex_node_def)
  have w: "with_ttl ex_cfg ex_env = ex_env" by (simp add: with_ttl_def ex_env_def)
  have none: "unread (c_now ex_call) (ex_none ''bob'') = []"
    by (simp add: unread_def pending_def seqs_from_def ex_none_def empty_mailbox_def)
  then have few: "length (unread (c_now ex_call) (ex_none ''bob'')) < 1" by simp
  have gap: "gap_free (ex_none ''bob'')" by (auto simp: gap_free_def ex_none_def empty_mailbox_def)
  have client: "good_client (NewVerifier ex_libp2p 60) ex_call (\<lambda>s. ex_ack_request\<lparr>areq_AckSeq := s\<rparr>) ''bob''"
    using ex_ack_verified
    by (simp add: good_client_def ex_call_def validateAckRequest_def ex_ack_request_def plain_bob)
  have "\<exists>sm n'' M''. drain (pebble_store mem_pebble) (NewVerifier ex_libp2p 60) (\<lambda>_. []) 500 ex_call
       (\<lambda>s. ex_ack_request\<lparr>areq_AckSeq := s\<rparr>) ''bob'' 10 1 0 n' =
      Some (unread (c_now ex_call) (ex_none ''bob'') @ [sm], n'') \<and>
    sm_Message sm = Some (with_ttl ex_cfg ex_env) \<and> StoreSeq sm = sresp_StoreSeq (store_reply False 1 150) \<and>
    repr M'' (map_of (n_store n'')) \<and> unread (c_now ex_call) (M'' ''bob'') = [] \<and> gap_free (M'' ''bob'') \<and>
    (\<forall>q. q \<noteq> ''bob'' \<longrightarrow> M'' q = ex_none q)"
    by (rule stored_message_is_delivered [OF mem_ok rep h req _ _ _ _ _ _ _ _ client _ _ _ gap few])
      (simp_all add: empty_mailbox_def store_reply_def ex_call_def ex_none_def)
  then show ?thesis using h w none by auto
qed

end
