(* ===== verification/NodeTheorems.thy ===== *)
theory NodeTheorems
  imports Node ServiceTheorems
begin

text \<open>
  The offline node as a whole: in whatever order the handlers and the collector run, whatever the
  clock reads and however the database fails, a mailbox changes only as its senders and its owner have
  asked for, as long as no store request names a recipient with a slash (see Slash for those).
\<close>

section \<open>Authorisation\<close>

text \<open>
  C1. Assumed are a run of the node in which no received store request names a recipient with a slash,
  counters that cannot reach their last value (fewer than 2^64 - 1 numbers and frames together), and a
  clock that reads no negative time and whose latest reading plus the longest lifetime does not
  overflow. Then, under faults, for every interleaving of handlers and collector, and whether or not
  the clock goes back, the store keeps representing mailboxes; a message appears only for a store
  request that was received, that its sender signed and whose message is within the size limit, and
  under a new number; a message disappears only when it has expired or for an acknowledgement that the
  recipient itself signed and sent and that covers it, after it was delivered; and the delivered
  frontier of a mailbox moves only if the recipient itself has fetched.
\<close>

theorem node_authorised:
  assumes "pebble_db P view" "repr M (view (rn_db s))" "rn_refs s = []" "rn_fetched s = []"
    "node_run P (NewVerifier L t) show_err quote cfg fetchLimitMax s received s'"
    "\<forall>(remote, frame)\<in>set received. plain remote \<and>
       (\<forall>rq env. store_frame frame = Some rq \<longrightarrow> sreq_Message rq = Some env \<longrightarrow> plain (RecipientID env))"
    "\<forall>r. unat (mb_last (M r)) + length received < 2 ^ 64 - 1"
    "sint (rn_now s') + sint (ss_maxTTLSec cfg) < 2 ^ 63"
  shows "\<exists>M'. repr M' (view (rn_db s')) \<and>
    (\<forall>r n sm. mb_msgs (M' r) n = Some sm \<longrightarrow> mb_msgs (M r) n = Some sm \<or>
       mb_last (M r) < n \<and> may_add L cfg received r sm) \<and>
    (\<forall>r n sm. mb_msgs (M r) n = Some sm \<longrightarrow> mb_msgs (M' r) n = Some sm \<or> sint (ExpireAt sm) \<le> sint (rn_now s') \<or>
       may_drop L received r n \<and> n \<le> mb_delivered (M' r)) \<and>
    (\<forall>r. mb_delivered (M' r) \<noteq> mb_delivered (M r) \<longrightarrow> has_fetched received r)"
proof -
  have pm: "pebble_db.pmodel view d X \<longleftrightarrow> repr X (view d)" for d X by (rule pebble_db.pmodel_def [OF assms(1)])
  have inv: "pebble_db.node_inv view [] M s"
    using assms(2-4) by (simp add: pebble_db.node_inv_def [OF assms(1)] pm)
  obtain M' where "pebble_db.node_inv view received M' s'" "permitted L cfg received (rn_now s') M M'"
    using pebble_db.node_run_permitted [OF assms(1,5) inv assms(6-8)] by blast
  then show ?thesis
    by (intro exI [of _ M']) (simp add: pebble_db.node_inv_def [OF assms(1)] pm permitted_def)
qed

text \<open>A run: Alice leaves a message for Bob.\<close>

definition ex_body :: json where
  "ex_body = JObj [(''version'', jint 1), (''message'', enc_OfflineMessageEnvelope ex_env)]"

definition ex_frame :: bytes where
  "ex_frame = json_print (JObj [(''request_id'', JStr ''1''), (''method'', JStr MethodOfflineStore), (''body'', ex_body)])"

lemma ex_frame_request:
  "frame_request ex_frame = Some \<lparr>rpc_RequestID = ''1'', rpc_Method = MethodOfflineStore, rpc_Body = Some ex_body\<rparr>"
proof -
  let ?j = "JObj [(''request_id'', JStr ''1''), (''method'', JStr MethodOfflineStore), (''body'', ex_body)]"
  have "wf_Envelope ex_env" by simp
  then have "wf_json ?j" "json_depth ?j \<le> max_nesting"
    by (simp_all add: ex_body_def wf_enc_Envelope depth_enc_Envelope MethodOfflineStore_def ascii_utf8_valid is_ascii_def max_nesting_def)
  then have "json_parse ex_frame = Some ?j" unfolding ex_frame_def by (rule json_parse_print)
  moreover have "fold_key ''request_id'' = ''REQUEST_ID''" "fold_key ''method'' = ''METHOD''" "fold_key ''body'' = ''BODY''"
    by code_simp+
  ultimately show ?thesis
    by (simp add: frame_request_def unmarshal_def dec_RPCRequest_def field_RPCRequest_def zero_RPCRequest_def key_is_def json_simps)
qed

lemma ex_body_request: "unmarshal_raw zero_StoreRequest dec_StoreRequest (Some ex_body) = Inr ex_request"
  by (simp add: ex_body_def unmarshal_raw_def dec_StoreRequest_def field_StoreRequest_def zero_StoreRequest_def key_is_def
      ex_request_def json_simps)

definition ex_running :: "memdb running" where
  "ex_running = \<lparr>rn_db = [], rn_fetched = [], rn_refs = [], rn_now = 100\<rparr>"

lemma ex_run:
  "\<exists>s'. node_run mem_pebble (NewVerifier ex_libp2p 60) (\<lambda>_. []) (\<lambda>x. x) ex_cfg 500 ex_running [(''alice'', ex_frame)] s' \<and>
     rn_now s' = 100"
proof -
  obtain n' where h: "Store_Handle (pebble_store mem_pebble) (NewVerifier ex_libp2p 60) (\<lambda>_. []) ex_cfg ex_call ''alice''
      (Some ex_request) (ex_node []) = Some (store_reply False 1 150, n')"
    using ex_handled by blast
  have q: "unmarshal zero_RPCRequest dec_RPCRequest ex_frame =
      Inr \<lparr>rpc_RequestID = ''1'', rpc_Method = MethodOfflineStore, rpc_Body = Some ex_body\<rparr>"
    using ex_frame_request by (auto simp: frame_request_def split: sum.splits if_splits)
  have f: "fetch_frame ex_frame = None" by (simp add: fetch_frame_def frame_body_def ex_frame_request)
  have "rpc_dispatch (pebble_store mem_pebble) (NewVerifier ex_libp2p 60) (\<lambda>_. []) (\<lambda>x. x) ex_cfg 500 ex_call ex_call ''alice''
      ex_frame (ex_node []) = Some (writeRPCFromStore ''1'' (store_reply False 1 150), n')"
    by (simp add: rpc_dispatch_def q handleStoreRPC_def ex_body_request h)
  then have "node_step mem_pebble (NewVerifier ex_libp2p 60) (\<lambda>_. []) (\<lambda>x. x) ex_cfg 500 ex_running [(''alice'', ex_frame)]
      (ex_running\<lparr>rn_db := n_store n'\<rparr>)"
    by (rule node_step.Request [rotated 4]) (simp_all add: f ex_node_def ex_running_def ex_call_def)
  from node_run.Step [OF node_run.Start this] show ?thesis
    by (intro exI [of _ "ex_running\<lparr>rn_db := n_store n'\<rparr>"]) (simp add: ex_running_def)
qed

theorem node_authorised_witness:
  "\<exists>s' M'. node_run mem_pebble (NewVerifier ex_libp2p 60) (\<lambda>_. []) (\<lambda>x. x) ex_cfg 500 ex_running [(''alice'', ex_frame)] s' \<and>
     repr M' (map_of (rn_db s')) \<and>
     (\<forall>n sm. mb_msgs (M' ''bob'') n = Some sm \<longrightarrow> may_add ex_libp2p ex_cfg [(''alice'', ex_frame)] ''bob'' sm)"
proof -
  obtain s' where run: "node_run mem_pebble (NewVerifier ex_libp2p 60) (\<lambda>_. []) (\<lambda>x. x) ex_cfg 500 ex_running [(''alice'', ex_frame)] s'"
      and now: "rn_now s' = 100"
    using ex_run by blast
  have st: "store_frame ex_frame = Some ex_request"
    by (simp add: store_frame_def frame_body_def ex_frame_request ex_body_request)
  have frames: "\<forall>(remote, frame)\<in>set [(''alice'', ex_frame)]. plain remote \<and>
      (\<forall>rq env. store_frame frame = Some rq \<longrightarrow> sreq_Message rq = Some env \<longrightarrow> plain (RecipientID env))"
    by (simp add: st ex_request_def) (simp add: plain_def)
  have start: "repr ex_none (map_of (rn_db ex_running))" "rn_refs ex_running = []" "rn_fetched ex_running = []"
    using repr_none by (simp_all add: ex_running_def)
  have last: "\<forall>r. unat (mb_last (ex_none r)) + length [(''alice'', ex_frame)] < 2 ^ 64 - 1"
    by (simp add: ex_none_def empty_mailbox_def)
  have clock: "sint (rn_now s') + sint (ss_maxTTLSec ex_cfg) < 2 ^ 63" by (simp add: now ex_cfg_def)
  from node_authorised [OF mem_db start(1-3) run frames last clock]
  obtain M' where M': "repr M' (map_of (rn_db s'))" "\<forall>r n sm. mb_msgs (M' r) n = Some sm \<longrightarrow> mb_msgs (ex_none r) n = Some sm \<or>
      mb_last (ex_none r) < n \<and> may_add ex_libp2p ex_cfg [(''alice'', ex_frame)] r sm"
    by blast
  have "mb_msgs (ex_none ''bob'') n = None" for n by (simp add: ex_none_def empty_mailbox_def)
  with M' have "\<forall>n sm. mb_msgs (M' ''bob'') n = Some sm \<longrightarrow> may_add ex_libp2p ex_cfg [(''alice'', ex_frame)] ''bob'' sm"
    by fastforce
  with run M'(1) show ?thesis by blast
qed

end
