(* ===== verification/LoopEnds.thy ===== *)
theory LoopEnds
  imports GcWorker
begin

text \<open>
  The batch loop of \<open>AckMessages\<close> and the loop of the collector's \<open>runOnce\<close> end, whatever the store
  holds and whatever faults and cancellations occur: a round that goes on has committed the deletion of
  a key that it found in the store.
\<close>

section \<open>Acknowledging\<close>

lemma ack_scan_batch:
  assumes "ack_scan ctx r a cap i es acc = (err, broke, i', acc')"
  shows "\<exists>ks. aa_batch acc' = aa_batch acc @ map BDelete ks \<and> aa_inBatch acc \<le> aa_inBatch acc' \<and>
    (aa_inBatch acc < aa_inBatch acc' \<longrightarrow> (\<exists>k\<in>fst ` set es. k \<in> set ks))"
  using assms
proof (induction ctx r a cap i es acc rule: ack_scan.induct)
  case (1 ctx r a cap i acc)
  then show ?case by (intro exI [of _ "[]"]) simp
next
  case (2 ctx r a cap i k v es acc)
  note step = "2.prems" and IH = "2.IH"
  have stop: ?case if "acc' = acc"
    using that by (intro exI [of _ "[]"]) simp
  show ?case
  proof (cases "ctx i = None \<and> (\<exists>p s sm. parseMsgKey k = Inr (p, s) \<and> \<not> a < s \<and> unmarshal_StoredMessage v = Inr sm)")
    case False
    then show ?thesis
      using step by (intro stop) (auto split: option.splits sum.splits if_splits)
  next
    case True
    then obtain p s sm where ok: "ctx i = None" "parseMsgKey k = Inr (p, s)" "\<not> a < s" "unmarshal_StoredMessage v = Inr sm"
      by blast
    let ?acc = "ack_add r k s sm acc"
    obtain ks where ks: "ack_deletes r k s sm = map BDelete (k # ks)"
    proof
      show "ack_deletes r k s sm = map BDelete (k # (case sm_Message sm of None \<Rightarrow> [] | Some env \<Rightarrow> [dupKey r (MsgID env)])
          @ [expKey (ExpireAt sm) r s])"
        by (simp add: ack_deletes_def split: option.split)
    qed
    have add: "aa_batch ?acc = aa_batch acc @ map BDelete (k # ks)" "aa_inBatch ?acc = Suc (aa_inBatch acc)"
      using ks by (simp_all add: ack_add_def)
    show ?thesis
    proof (cases "cap \<le> aa_inBatch ?acc")
      case True
      then have "acc' = ?acc" using step ok by (simp add: Let_def)
      then show ?thesis using add by (intro exI [of _ "k # ks"]) simp
    next
      case more: False
      then have go: "ack_scan ctx r a cap (Suc i) es ?acc = (err, broke, i', acc')" using step ok by (simp add: Let_def)
      obtain ks' where ks': "aa_batch acc' = aa_batch ?acc @ map BDelete ks'" "aa_inBatch ?acc \<le> aa_inBatch acc'"
        using IH [OF ok(1,2) refl ok(3,4) refl more go] by blast
      show ?thesis by (rule exI [of _ "k # ks @ ks'"]) (use add ks' in simp)
    qed
  qed
qed

text \<open>The keys that the iterator of a round walks over.\<close>

definition range_keys :: "string \<Rightarrow> (bytes \<rightharpoonup> bytes) \<Rightarrow> bytes set" where
  "range_keys r m = {k \<in> dom m. msgPrefix r \<le> k \<and> k < prefixUpperBound (msgPrefix r)}"

lemma apply_deletes: "apply_batch (map BDelete ks) m k = (if k \<in> set ks then None else m k)"
  by (induction ks arbitrary: m) auto

lemma ackedKey_not_in_range: "ackedKey r \<notin> range_keys r m"
proof
  assume "ackedKey r \<in> range_keys r m"
  then have "prefix (msgPrefix r) (ackedKey r)"
    unfolding range_keys_def prefixUpperBound_def by (auto intro: prefix_range)
  then show False by (simp add: key_defs prefix_def)
qed

lemma range_keys_batch:
  "range_keys r (apply_batch (setFrontier (map BDelete ks) (ackedKey r) w) m) = range_keys r m - set ks"
  "range_keys r (apply_batch (map BDelete ks) m) = range_keys r m - set ks"
proof -
  show deletes: "range_keys r (apply_batch (map BDelete ks) m) = range_keys r m - set ks"
    by (auto simp: range_keys_def apply_deletes split: if_splits)
  have "range_keys r (m'(ackedKey r \<mapsto> v)) = range_keys r m'" for m' v
    using ackedKey_not_in_range [of r "m'(ackedKey r \<mapsto> v)"] by (auto simp: range_keys_def split: if_splits)
  then show "range_keys r (apply_batch (setFrontier (map BDelete ks) (ackedKey r) w) m) = range_keys r m - set ks"
    using deletes by (simp add: setFrontier_def)
qed

context pebble_db
begin

lemma Iter_keys:
  assumes "db_Iter P d lo hi = Inr (es, ie)"
  shows "fst ` set es \<subseteq> {k \<in> dom (view d). lo \<le> k \<and> k < hi}"
proof -
  have "prefix es (entries (view d) lo hi)" using Iter_done [of d lo hi es] Iter_stopped [of d lo hi es] assms by (cases ie) auto
  then have "fst ` set es \<subseteq> fst ` set (entries (view d) lo hi)" using set_mono_prefix by blast
  also have "\<dots> \<subseteq> {k \<in> dom (view d). lo \<le> k \<and> k < hi}"
    using finite_view [of d] by (auto simp: entries_def)
  finally show ?thesis .
qed

lemma ack_loop_ends: "ack_loop P ctx r a cap ackedUntil i d u c \<noteq> None"
proof (induction "card (range_keys r (view d))" arbitrary: i d u c rule: less_induct)
  case less
  let ?acc = "\<lparr>aa_batch = [], aa_until = u, aa_inBatch = 0, aa_count = c\<rparr>"
  show ?case
  proof (cases "db_Iter P d (msgPrefix r) (prefixUpperBound (msgPrefix r))")
    case (Inl e)
    then show ?thesis by (subst ack_loop.simps) simp
  next
    case (Inr it)
    obtain es ie where it: "it = (es, ie)" by fastforce
    obtain err broke i' acc where scan: "ack_scan ctx r a cap i es ?acc = (err, broke, i', acc)" by (metis prod_cases4)
    obtain ks where ks: "aa_batch acc = map BDelete ks" "0 < aa_inBatch acc \<Longrightarrow> \<exists>k\<in>fst ` set es. k \<in> set ks"
      using ack_scan_batch [OF scan] by auto
    let ?b = "if ackedUntil \<le> aa_until acc then setFrontier (aa_batch acc) (ackedKey r) (aa_until acc) else aa_batch acc"
    obtain ce d' where com: "db_Commit P d ?b = (ce, d')" by fastforce
    have go: "ack_loop P ctx r a cap ackedUntil i' d' (aa_until acc) (aa_count acc) \<noteq> None"
      if pos: "0 < aa_inBatch acc" and none: "ce = None"
    proof (rule less.hyps)
      have "view d' = apply_batch ?b (view d)" using Commit_done com none by simp
      then have keys: "range_keys r (view d') = range_keys r (view d) - set ks"
        using ks(1) range_keys_batch by simp
      obtain k where "k \<in> set ks" "k \<in> range_keys r (view d)"
        using ks(2) [OF pos] Iter_keys [OF Inr [unfolded it]] unfolding range_keys_def by blast
      then have "range_keys r (view d') \<subset> range_keys r (view d)" unfolding keys by blast
      then show "card (range_keys r (view d')) < card (range_keys r (view d))"
        using finite_view [of d] by (intro psubset_card_mono) (simp_all add: range_keys_def)
    qed
    show ?thesis
      by (subst ack_loop.simps)
        (use go com in \<open>auto simp: Inr it scan simp del: not_None_eq split: option.split prod.split\<close>)
  qed
qed

lemma AckMessages_ends: "AckMessages P cap ctx d r a \<noteq> None"
  using ack_loop_ends by (simp add: AckMessages_def del: not_None_eq split: option.split sum.split)

end

section \<open>Collecting\<close>

lemma gc_scan_keys:
  assumes "gc_scan ctx now limit i es refs = (err, broke, i', refs')"
  shows "ref_expKey ` set refs' \<subseteq> ref_expKey ` set refs \<union> fst ` set es"
  using assms
proof (induction ctx now limit i es refs rule: gc_scan.induct)
  case (2 ctx now limit i k v es refs)
  note step = "2.prems" and IH = "2.IH"
  show ?case
  proof (cases "ctx i = None \<and> (\<exists>e r s. parseExpKey k = Inr (e, r, s) \<and> \<not> sint now < sint e)")
    case False
    then have "refs' = refs" using step by (auto split: option.splits sum.splits if_splits)
    then show ?thesis by blast
  next
    case True
    then obtain e r s where ok: "ctx i = None" "parseExpKey k = Inr (e, r, s)" "\<not> sint now < sint e" by blast
    let ?refs = "refs @ [\<lparr>ref_expireAt = e, ref_recipientID = r, ref_storeSeq = s, ref_expKey = k\<rparr>]"
    show ?thesis
    proof (cases "sint limit \<le> int (length ?refs)")
      case True
      then have "refs' = ?refs" using step ok by (simp add: Let_def)
      then show ?thesis by auto
    next
      case more: False
      then have "gc_scan ctx now limit (Suc i) es ?refs = (err, broke, i', refs')" using step ok by (simp add: Let_def)
      from IH [OF ok(1,2) refl refl ok(3) refl more this] show ?thesis by auto
    qed
  qed
qed simp

lemma gc_delete_count: "gc_delete P ctx i refs k d = (n, None, d') \<Longrightarrow> n = k + length refs"
  by (induction P ctx i refs k d rule: gc_delete.induct) (auto split: option.splits prod.splits)

context pebble_db
begin

lemma gc_delete_ref_view:
  assumes "gc_delete_ref P d ref = (None, d')"
  obtains ks where "ref_expKey ref \<in> set ks" "view d' = apply_batch (map BDelete ks) (view d)"
proof -
  let ?key = "msgKey (ref_recipientID ref) (ref_storeSeq ref)"
  consider (gone) "db_Commit P d (map BDelete [ref_expKey ref]) = (None, d')"
    | (found) dup where "db_Commit P d (map BDelete (?key # dup @ [ref_expKey ref])) = (None, d')"
  proof (cases "db_Get P d ?key")
    case (Inl e)
    then show thesis using assms gone by (auto simp: gc_delete_ref_def split: if_splits)
  next
    case (Inr v)
    then obtain stored where un: "unmarshal_gcStored v = Inr stored"
      using assms by (auto simp: gc_delete_ref_def split: sum.splits)
    show thesis
      by (rule found [of "if gm_MsgID (gs_Message stored) \<noteq> [] then [dupKey (ref_recipientID ref) (gm_MsgID (gs_Message stored))] else []"])
        (use assms Inr un in \<open>simp add: gc_delete_ref_def split: if_splits\<close>)
  qed
  then show thesis using Commit_done that by cases (metis list.set_intros(1), metis in_set_conv_decomp list.set_intros(2))
qed

lemma gc_delete_ref_dom:
  assumes "gc_delete_ref P d ref = (err, d')"
  shows "dom (view d') \<subseteq> dom (view d)" "err = None \<Longrightarrow> ref_expKey ref \<notin> dom (view d')"
proof -
  have view: "dom (view d') \<subseteq> dom (view d) \<and> ref_expKey ref \<notin> dom (view d')" if "err = None"
    using assms that by (auto elim!: gc_delete_ref_view simp: apply_deletes split: if_splits)
  have "view d' = view d" if "err = Some e" for e
    using assms that Commit_failed by (auto simp: gc_delete_ref_def Let_def split: sum.splits if_splits)
  with view show "dom (view d') \<subseteq> dom (view d)" by (cases err) auto
  from view show "err = None \<Longrightarrow> ref_expKey ref \<notin> dom (view d')" by blast
qed

lemma gc_delete_dom:
  assumes "gc_delete P ctx i refs k d = (n, err, d')"
  shows "dom (view d') \<subseteq> dom (view d)"
  using assms
proof (induction refs arbitrary: i k d)
  case (Cons ref refs)
  obtain e d1 where one: "gc_delete_ref P d ref = (e, d1)" by fastforce
  have sub: "dom (view d1) \<subseteq> dom (view d)" by (rule gc_delete_ref_dom [OF one])
  show ?case
  proof (cases "ctx i = None \<and> e = None")
    case True
    then have "gc_delete P ctx (Suc i) refs (Suc k) d1 = (n, err, d')" using Cons.prems one by simp
    then show ?thesis using Cons.IH sub by blast
  next
    case False
    then have "d' = d \<or> d' = d1" using Cons.prems one by (auto split: option.splits)
    then show ?thesis using sub by blast
  qed
qed simp

lemma DeleteExpired_shrinks:
  assumes "DeleteExpired P ctx d now limit = (n, None, d')" "n \<noteq> 0"
  shows "dom (view d') \<subset> dom (view d)"
proof -
  have limit: "0 < sint limit" using assms by (auto simp: DeleteExpired_def split: if_splits)
  obtain es ie where it: "db_Iter P d ''exp/'' (expUpperBound now) = Inr (es, ie)"
    using assms limit by (auto simp: DeleteExpired_def split: sum.splits)
  obtain err broke i refs where scan: "gc_scan ctx now limit 0 es [] = (err, broke, i, refs)" by (metis prod_cases4)
  have del: "gc_delete P ctx i refs 0 d = (n, None, d')"
    using assms(1) limit it scan by (auto simp: DeleteExpired_def split: option.splits if_splits)
  then have "refs \<noteq> []" using gc_delete_count [OF del] assms(2) by auto
  then obtain ref refs' where refs: "refs = ref # refs'" by (cases refs) auto
  obtain d1 where one: "gc_delete_ref P d ref = (None, d1)" and rest: "gc_delete P ctx (Suc i) refs' (Suc 0) d1 = (n, None, d')"
    using del refs by (auto split: option.splits prod.splits)
  have "ref_expKey ref \<in> dom (view d)"
    using gc_scan_keys [OF scan] refs Iter_keys [OF it] by auto
  then show ?thesis
    using gc_delete_ref_dom [OF one] gc_delete_dom [OF rest] by blast
qed

lemma gc_loop_ends: "gc_loop (pebble_store P) ctx clock batch k d n \<noteq> None"
proof (induction "card (dom (view d))" arbitrary: k d n rule: less_induct)
  case less
  obtain dl e d1 where del: "DeleteExpired P (ctx k) d (clock k) batch = (dl, e, d1)" by (metis prod_cases3)
  have i: "i_DeleteExpired (pebble_store P) (ctx k) d (clock k) batch = (dl, e, d1)"
    using del by (simp add: pebble_store_def)
  have "gc_loop (pebble_store P) ctx clock batch (Suc k) d1 (n + dl) \<noteq> None" if "e = None" "dl \<noteq> 0"
    using DeleteExpired_shrinks [of "ctx k" d "clock k" batch dl d1] del that
    by (intro less.hyps psubset_card_mono finite_view) simp
  then show ?case by (subst gc_loop.simps) (auto simp: i simp del: not_None_eq split: option.split)
qed

lemma runOnce_ends: "runOnce (pebble_store P) ctx clock batch d metrics \<noteq> None"
  using gc_loop_ends [of ctx clock batch 0 d 0] by (auto simp: runOnce_def split: option.splits)

end

end
