(* ===== verification/RetentionTheorems.thy ===== *)
theory RetentionTheorems
  imports StorageTheorems LoopEnds
begin

text \<open>
  When messages go: acknowledgement by the recipient, and the collection of expired messages.
\<close>

section \<open>Acknowledging\<close>

text \<open>
  C8. Acknowledging up to \<open>a\<close> under faults and cancellation. Within the window between
  the acknowledged and the delivered frontier, the mailbox ends acknowledged up to some number
  of the window, with exactly the messages up to it gone, whatever error is reported; without an
  error every message up to \<open>a\<close> is gone, and the answer is the new frontier and the number
  of deleted messages. Outside the window nothing changes, and it is an error beyond the
  delivered frontier.
\<close>

theorem ack_correct:
  assumes "pebble_db P view" "repr M (view d)" "plain r" "0 < cap"
    "AckMessages P cap ctx d r a = Some (u, c, err, d')"
  shows "if mb_acked (M r) < a \<and> a \<le> mb_delivered (M r)
    then \<exists>w. mb_acked (M r) \<le> w \<and> w \<le> a \<and> repr (M(r := mb_ack_upto w (M r))) (view d') \<and>
      (err = None \<longrightarrow> u = w \<and> (\<forall>s\<in>dom (mb_msgs (M r)). s \<le> a \<longrightarrow> s \<le> w) \<and>
         c = card {s \<in> dom (mb_msgs (M r)). s \<le> a})
    else d' = d \<and> (err = None \<longrightarrow> a \<le> mb_acked (M r) \<and> u = mb_acked (M r) \<and> c = 0)"
  using pebble_db.AckMessages_refines [OF assms] unfolding ack_post_def add_0 .

theorem ack_correct_witness:
  "\<exists>d d' u c err. repr ex_delivered (map_of d) \<and> AckMessages mem_pebble 1000 (\<lambda>_. None) d ''bob'' 1 = Some (u, c, err, d') \<and>
     (\<exists>w. w \<le> 1 \<and> repr (ex_delivered(''bob'' := mb_ack_upto w (ex_delivered ''bob''))) (map_of d'))"
proof -
  obtain d where d: "repr ex_delivered (map_of d)" using repr_delivered by blast
  have f: "mb_acked (ex_delivered ''bob'') < 1 \<and> 1 \<le> mb_delivered (ex_delivered ''bob'')"
    by (simp add: ex_delivered_def)
  obtain u c d' where a: "AckMessages mem_pebble 1000 (\<lambda>_. None) d ''bob'' 1 = Some (u, c, None, d')"
    by (rule mem.ack_ok [OF d plain_bob, of 1000 "\<lambda>_. None" 1]) (use f in auto)
  have "if mb_acked (ex_delivered ''bob'') < 1 \<and> 1 \<le> mb_delivered (ex_delivered ''bob'')
    then \<exists>w. mb_acked (ex_delivered ''bob'') \<le> w \<and> w \<le> 1 \<and>
      repr (ex_delivered(''bob'' := mb_ack_upto w (ex_delivered ''bob''))) (map_of d') \<and>
      ((None :: goerr option) = None \<longrightarrow> u = w \<and> (\<forall>s\<in>dom (mb_msgs (ex_delivered ''bob'')). s \<le> 1 \<longrightarrow> s \<le> w) \<and>
         c = card {s \<in> dom (mb_msgs (ex_delivered ''bob'')). s \<le> 1})
    else d' = d \<and> ((None :: goerr option) = None \<longrightarrow> 1 \<le> mb_acked (ex_delivered ''bob'') \<and>
      u = mb_acked (ex_delivered ''bob'') \<and> c = 0)"
    by (rule ack_correct [OF mem_db d plain_bob _ a]) simp
  then show ?thesis using f d a by (metis (no_types, lifting))
qed

text \<open>
  Without faults and with a context that stays alive: all messages up to the number are gone, all
  others are still there, and the answer counts the deleted ones.
\<close>

lemma ack_complete:
  assumes "pebble_ok P view" "repr M (view d)" "plain r" "0 < cap" "\<forall>j. ctx j = None"
    "mb_acked (M r) < a" "a \<le> mb_delivered (M r)"
  shows "\<exists>w d'. AckMessages P cap ctx d r a = Some (w, card {s \<in> dom (mb_msgs (M r)). s \<le> a}, None, d') \<and>
    w \<le> a \<and> repr (M(r := (M r)\<lparr>mb_msgs := (mb_msgs (M r)) |` {s. a < s}, mb_acked := w\<rparr>)) (view d')"
proof -
  obtain w d' where ack: "AckMessages P cap ctx d r a = Some (w, card {s \<in> dom (mb_msgs (M r)). s \<le> a}, None, d')"
    and rep: "repr (M(r := mb_ack_upto w (M r))) (view d')" and w: "w \<le> a"
    and all: "\<forall>s\<in>dom (mb_msgs (M r)). s \<le> a \<longrightarrow> s \<le> w"
    by (rule pebble_ok.ack_ok [OF assms])
  have "(mb_msgs (M r)) |` {s. w < s} = (mb_msgs (M r)) |` {s. a < s}"
    using all w by (intro restrict_map_cong) (auto simp: not_le [symmetric] intro: order_trans)
  then have "mb_ack_upto w (M r) = (M r)\<lparr>mb_msgs := (mb_msgs (M r)) |` {s. a < s}, mb_acked := w\<rparr>"
    by (simp add: mb_ack_upto_def)
  then show ?thesis using ack rep w by auto
qed

text \<open>
  C9. \<open>AckMessages\<close> always returns: whatever the store holds and for whatever recipient and number,
  with whatever faults of the database and whenever the context ends, for every batch size. If
  moreover there are no faults, the context stays alive and the number lies in the window between the
  acknowledged and the delivered frontier of a mailbox, then it returns without an error, all messages
  of the mailbox up to the number are gone, all others are still there, and the answer counts the
  deleted ones.
\<close>

theorem ack_returns:
  assumes "pebble_db P view"
  shows "(\<exists>w c err d'. AckMessages P cap ctx d r a = Some (w, c, err, d')) \<and>
    (pebble_ok P view \<and> (\<forall>j. ctx j = None) \<and> 0 < cap \<and> repr M (view d) \<and> plain r \<and>
       mb_acked (M r) < a \<and> a \<le> mb_delivered (M r) \<longrightarrow>
     (\<exists>w d'. AckMessages P cap ctx d r a = Some (w, card {s \<in> dom (mb_msgs (M r)). s \<le> a}, None, d') \<and>
        w \<le> a \<and> repr (M(r := (M r)\<lparr>mb_msgs := (mb_msgs (M r)) |` {s. a < s}, mb_acked := w\<rparr>)) (view d')))"
proof (intro conjI impI)
  show "\<exists>w c err d'. AckMessages P cap ctx d r a = Some (w, c, err, d')"
    using pebble_db.AckMessages_ends [OF assms, of cap ctx d r a] by auto
qed (rule ack_complete, blast+)

theorem ack_returns_witness:
  "\<exists>d w d'. AckMessages mem_pebble 1 (\<lambda>_. None) d ''bob'' 1 = Some (w, 1, None, d') \<and> w \<le> 1 \<and>
     repr (ex_delivered(''bob'' := (ex_delivered ''bob'')\<lparr>mb_msgs := Map.empty, mb_acked := w\<rparr>)) (map_of d')"
proof -
  obtain d where d: "repr ex_delivered (map_of d)" using repr_delivered by blast
  have m: "mb_msgs (ex_delivered ''bob'') = [1 \<mapsto> ex_stored]" by (simp add: ex_delivered_def)
  have e: "{s \<in> dom [1 \<mapsto> ex_stored]. s \<le> (1 :: uint64)} = {1}" "[1 \<mapsto> ex_stored] |` {s. (1 :: uint64) < s} = Map.empty"
    by (auto simp: restrict_map_def)
  have "pebble_ok mem_pebble map_of \<and> (\<forall>j::nat. (\<lambda>_. None :: goerr option) j = None) \<and> 0 < (1 :: nat) \<and> repr ex_delivered (map_of d) \<and>
      plain ''bob'' \<and> mb_acked (ex_delivered ''bob'') < 1 \<and> 1 \<le> mb_delivered (ex_delivered ''bob'')"
    using mem_ok d plain_bob by (simp add: ex_delivered_def)
  then have "\<exists>w d'. AckMessages mem_pebble 1 (\<lambda>_. None) d ''bob'' 1
        = Some (w, card {s \<in> dom (mb_msgs (ex_delivered ''bob'')). s \<le> 1}, None, d') \<and> w \<le> 1 \<and>
      repr (ex_delivered(''bob'' := (ex_delivered ''bob'')\<lparr>mb_msgs := (mb_msgs (ex_delivered ''bob'')) |` {s. 1 < s},
        mb_acked := w\<rparr>)) (map_of d')"
    by (rule ack_returns [OF mem_db, THEN conjunct2, THEN mp])
  then show ?thesis unfolding m e by auto
qed

text \<open>
  C10. The two other answers of an acknowledgement: a number already acknowledged is answered
  with the frontier, again and again; a number beyond the delivered frontier is refused. Both
  leave the store as it is.
\<close>

theorem ack_outside_window:
  assumes "pebble_ok P view" "repr M (view d)" "plain r" "ctx 0 = None"
    "a \<le> mb_acked (M r) \<or> mb_delivered (M r) < a"
  shows "AckMessages P cap ctx d r a =
    (if a \<le> mb_acked (M r) then Some (mb_acked (M r), 0, None, d)
     else Some (mb_acked (M r), 0, Some (AppError CodeInvalidPayload ''ack_seq exceeds delivered frontier''), d))"
proof (cases "a \<le> mb_acked (M r)")
  case True
  then show ?thesis using pebble_ok.ack_again [of P view M d r ctx a cap] assms(1-4) by simp
next
  case False
  then show ?thesis using pebble_ok.ack_beyond [of P view M d r ctx a cap] assms by simp
qed

theorem ack_outside_window_witness:
  "\<exists>d. repr ex_pending (map_of d) \<and> AckMessages mem_pebble 1000 (\<lambda>_. None) d ''bob'' 1 =
     Some (0, 0, Some (AppError CodeInvalidPayload ''ack_seq exceeds delivered frontier''), d)"
proof -
  obtain d where d: "repr ex_pending (map_of d)" using repr_pending by blast
  have f: "mb_acked (ex_pending ''bob'') = 0" "mb_delivered (ex_pending ''bob'') = 0" by (simp_all add: ex_pending_def)
  then show ?thesis
    using ack_outside_window [OF mem_ok d plain_bob, of "\<lambda>_. None" 1 1000] d by auto
qed

section \<open>Collecting\<close>

text \<open>
  C11. Whatever faults and cancellations it meets, a collection deletes only messages that are
  expired at the time it was given, and moves no counter.
\<close>

theorem gc_only_expired:
  assumes "pebble_db P view" "repr M (view d)" "DeleteExpired P ctx d now limit = (n, err, d')"
  shows "\<exists>M'. repr M' (view d') \<and> only_expired {now} M M'"
proof -
  have m: "pebble_db.pmodel view d M" using assms(2) by (simp add: pebble_db.pmodel_def [OF assms(1)])
  obtain refs where "\<forall>ref\<in>set refs. ref_live M now ref" "pebble_db.pmodel view d' (gc_remove_all refs M)"
    using pebble_db.pebble_gc_law [OF assms(1) m assms(3)] by blast
  then show ?thesis
    using only_expired_gc [of refs M now "{now}"] pebble_db.pmodel_def [OF assms(1)] by blast
qed

theorem gc_only_expired_witness:
  "\<exists>d n err d' M'. repr ex_pending (map_of d) \<and> DeleteExpired mem_pebble (\<lambda>_. None) d 200 10 = (n, err, d') \<and>
     repr M' (map_of d') \<and> only_expired {200} ex_pending M'"
proof -
  obtain d where d: "repr ex_pending (map_of d)" using repr_pending by blast
  obtain n err d' where g: "DeleteExpired mem_pebble (\<lambda>_. None) d 200 10 = (n, err, d')" by (metis prod_cases3)
  show ?thesis using gc_only_expired [OF mem_db d g] d g by blast
qed

text \<open>
  Without faults a collection with a positive limit succeeds and deletes at most
  \<open>limit\<close> messages, as many as it reports; if it reports fewer, no expired message is left.
\<close>

lemma gc_complete:
  assumes "pebble_ok P view" "repr M (view d)" "0 < sint limit" "\<forall>j. ctx j = None"
    "0 \<le> sint now" "sint now < 2 ^ 63 - 1"
  shows "\<exists>n d' M'. DeleteExpired P ctx d now limit = (n, None, d') \<and> repr M' (view d') \<and>
    only_expired {now} M M' \<and> int n \<le> sint limit \<and> card (pend M) = card (pend M') + n \<and>
    (int n < sint limit \<longrightarrow> drained now M')"
proof -
  obtain refs d' where gc: "DeleteExpired P ctx d now limit = (length refs, None, d')"
      and sel: "gc_selects M now limit refs" and rep: "repr (gc_remove_all refs M) (view d')"
    by (rule pebble_ok.DeleteExpired_ok [OF assms(1-4)])
  have "pebble_db P view" using assms(1) by (simp add: pebble_ok_def)
  then have "finite (dom (view d))" by (rule pebble_db.finite_view)
  then have fin: "finite (pend M)" using repr_finite [OF assms(2)] by (simp add: pend_def)
  have "only_expired {now} M (gc_remove_all refs M)"
    using sel by (intro only_expired_gc) (auto simp: gc_selects_def)
  moreover have "int (length refs) < sint limit \<longrightarrow> drained now (gc_remove_all refs M)"
    using drained_gc [OF sel assms(5,6)] by blast
  moreover have "int (length refs) \<le> sint limit" using sel by (simp add: gc_selects_def)
  ultimately show ?thesis using gc rep card_pend_gc [OF sel fin] by (intro exI conjI) auto
qed

text \<open>Without faults a run of the collector over mailboxes leaves nothing that was expired.\<close>

lemma runOnce_complete:
  assumes "pebble_ok P view" "repr M (view d)" "0 < sint batch" "\<forall>k j. ctx k j = None"
    "\<forall>k. 0 \<le> sint (clock k) \<and> sint (clock k) < 2 ^ 63 - 1"
  shows "\<exists>d' M' k. runOnce (pebble_store P) ctx clock batch d metrics =
      Some (d', metrics\<lparr>GCDeletedTotal := GCDeletedTotal metrics + of_nat (card (pend M) - card (pend M'))\<rparr>) \<and>
    repr M' (view d') \<and> only_expired (range clock) M M' \<and> drained (clock k) M'"
proof -
  have db: "pebble_db P view" using assms(1) by (simp add: pebble_ok_def)
  have live: "live_storage (pebble_store P) (pebble_db.pmodel view)" by (rule pebble_ok.is_live [OF assms(1)])
  have m: "pebble_db.pmodel view d M" using assms(2) by (simp add: pebble_db.pmodel_def [OF db])
  obtain k' d' M' where loop: "gc_loop (pebble_store P) ctx clock batch 0 d 0
        = Some (None, Suc k', 0 + (card (pend M) - card (pend M')), d')"
      and M': "pebble_db.pmodel view d' M'" "only_expired (range clock) M M'" "drained (clock k') M'"
    using live_storage.gc_loop_total [OF live m assms(4,3,5), of 0 0] by blast
  have "runOnce (pebble_store P) ctx clock batch d metrics =
      Some (d', metrics\<lparr>GCDeletedTotal := GCDeletedTotal metrics + of_nat (card (pend M) - card (pend M'))\<rparr>)"
    using loop by (simp add: runOnce_def)
  then show ?thesis using M' pebble_db.pmodel_def [OF db] by blast
qed

text \<open>
  C12. A run of the background collector always ends, whatever the store holds, whatever faults and
  cancellations it meets and whatever the clock reads. If there are no faults, the context stays alive,
  the batch size is positive, the clock reads times that are neither negative nor the largest one, and
  the store represents mailboxes (so nothing was stored for a recipient with a slash, see C14), then
  the run deleted only messages expired at one of its clock readings, counted them in the metrics, and
  left none that was expired at one of the readings.
\<close>

theorem runOnce_drains:
  assumes "pebble_db P view"
  shows "(\<exists>d' metrics'. runOnce (pebble_store P) ctx clock batch d metrics = Some (d', metrics')) \<and>
    (pebble_ok P view \<and> (\<forall>k j. ctx k j = None) \<and> 0 < sint batch \<and>
       (\<forall>k. 0 \<le> sint (clock k) \<and> sint (clock k) < 2 ^ 63 - 1) \<and> repr M (view d) \<longrightarrow>
     (\<exists>d' M' k. runOnce (pebble_store P) ctx clock batch d metrics =
        Some (d', metrics\<lparr>GCDeletedTotal := GCDeletedTotal metrics + of_nat (card (pend M) - card (pend M'))\<rparr>) \<and>
      repr M' (view d') \<and> only_expired (range clock) M M' \<and> drained (clock k) M'))"
proof (intro conjI impI)
  show "\<exists>d' metrics'. runOnce (pebble_store P) ctx clock batch d metrics = Some (d', metrics')"
    using pebble_db.runOnce_ends [OF assms, of ctx clock batch d metrics] by auto
qed (rule runOnce_complete, blast+)

theorem runOnce_drains_witness:
  "\<exists>d d' M' k. repr ex_pending (map_of d) \<and>
     runOnce (pebble_store mem_pebble) (\<lambda>_ _. None) (\<lambda>k. 200) 1 d New_Metrics =
       Some (d', New_Metrics\<lparr>GCDeletedTotal := of_nat (card (pend ex_pending) - card (pend M'))\<rparr>) \<and>
     repr M' (map_of d') \<and> drained ((\<lambda>k::nat. 200) k) M'"
proof -
  obtain d where d: "repr ex_pending (map_of d)" using repr_pending by blast
  have live: "pebble_ok mem_pebble map_of \<and> (\<forall>k j. (\<lambda>(_::nat) (_::nat). None :: goerr option) k j = None) \<and> 0 < sint (1 :: int64) \<and>
      (\<forall>k. 0 \<le> sint ((\<lambda>_::nat. 200 :: int64) k) \<and> sint ((\<lambda>_::nat. 200 :: int64) k) < 2 ^ 63 - 1) \<and> repr ex_pending (map_of d)"
    using mem_ok d by simp
  show ?thesis
    using runOnce_drains [OF mem_db, THEN conjunct2, THEN mp, OF live, of New_Metrics] d by (auto simp: New_Metrics_def)
qed

section \<open>Two ways in which a mailbox gets stuck\<close>

text \<open>
  C13. The delivered frontier cannot cross a gap: if the message after the frontier is gone
  (the collector deleted it before it was delivered), no delivery moves the frontier any more,
  so no later message of this recipient can ever be acknowledged.
\<close>

theorem gap_blocks_delivery:
  assumes "pebble_ok P view" "repr M (view d)" "plain r" "items \<noteq> []" "mb_delivered (M r) < mb_last (M r)"
    "mb_msgs (M r) (mb_delivered (M r) + 1) = None" "mb_delivered (M r) < a"
  shows "\<exists>d'. MarkDelivered P None now d r items = (None, d') \<and> repr M (view d') \<and>
    AckMessages P cap (\<lambda>_. None) d' r a =
      Some (mb_acked (M r), 0, Some (AppError CodeInvalidPayload ''ack_seq exceeds delivered frontier''), d')"
proof -
  let ?f = "mb_delivered (M r)" and ?D = "set (delivered_seqs items)"
  have ok: "mailbox_ok r (M r)" using assms(2) by blast
  have f: "?f \<noteq> - 1" using assms(5) by auto
  have gt: "\<forall>sm\<in>set (pending (M r) (?f + 1)). ?f < StoreSeq sm"
    using word64_le_plus_one [OF f] by (auto simp: set_pending [OF ok])
  have "advance now ?D (pending (M r) (?f + 1)) ?f = ?f"
  proof (rule ccontr)
    assume ne: "advance now ?D (pending (M r) (?f + 1)) ?f \<noteq> ?f"
    have "?f \<le> advance now ?D (pending (M r) (?f + 1)) ?f" by (rule advance_ge [OF sorted_pending [OF ok] gt])
    with ne have "?f < advance now ?D (pending (M r) (?f + 1)) ?f" by (simp add: order_less_le)
    then have "?f < ?f + 1" "?f + 1 \<le> advance now ?D (pending (M r) (?f + 1)) ?f"
      using word64_le_plus_one [OF f] by blast+
    then obtain sm where "sm \<in> set (pending (M r) (?f + 1))" "StoreSeq sm = ?f + 1"
      using advance_covers [OF sorted_pending [OF ok] gt] by blast
    then show False using assms(6) by (simp add: set_pending [OF ok])
  qed
  then have same: "M(r := mb_mark now ?D (M r)) = M" by (simp add: mb_mark_def)
  obtain d' where d': "MarkDelivered P None now d r items = (None, d')" "repr M (view d')"
    using pebble_ok.mark_ok [OF assms(1-4), of now] unfolding same by blast
  then show ?thesis using pebble_ok.ack_beyond [OF assms(1) d'(2) assms(3) _ assms(7), of "\<lambda>_. None" cap] by simp
qed

theorem gap_blocks_delivery_witness:
  "\<exists>d d' e. MarkDelivered mem_pebble None 100 d ''bob'' [Some ex_stored] = (None, d') \<and>
     AckMessages mem_pebble 1000 (\<lambda>_. None) d' ''bob'' 1 = Some (0, 0, Some e, d')"
proof -
  obtain d where d: "repr ex_pending (map_of d)" using repr_pending by blast
  let ?ref = "ref_of 150 ''bob'' 1" and ?M = "gc_remove (ref_of 150 ''bob'' 1) ex_pending"
  have sm: "mb_msgs (ex_pending ''bob'') s = Some x \<Longrightarrow> ExpireAt x = 150" for s x
    by (auto simp: ex_pending_def ex_stored_def split: if_splits)
  have "ref_safe ex_pending ?ref"
    unfolding ref_safe_def using sm by (intro exI [of _ 150] exI [of _ "''bob''"] exI [of _ 1]) auto
  note safe = this
  obtain err d1 where del: "gc_delete_ref mem_pebble d ?ref = (err, d1)" by fastforce
  have "err = None" using mem.gc_ref_ok [OF d safe] del by simp
  then have d1: "repr ?M (map_of d1)" using mem.gc_ref_refines [OF d safe del] by simp
  have b: "mb_delivered (?M ''bob'') = 0" "mb_last (?M ''bob'') = 1" "mb_acked (?M ''bob'') = 0"
      "mb_msgs (?M ''bob'') 1 = None"
    by (simp_all add: gc_remove_def ref_of_def ex_pending_def)
  have "\<exists>d'. MarkDelivered mem_pebble None 100 d1 ''bob'' [Some ex_stored] = (None, d') \<and> repr ?M (map_of d') \<and>
    AckMessages mem_pebble 1000 (\<lambda>_. None) d' ''bob'' 1 =
      Some (mb_acked (?M ''bob''), 0, Some (AppError CodeInvalidPayload ''ack_seq exceeds delivered frontier''), d')"
    by (rule gap_blocks_delivery [OF mem_ok d1 plain_bob]) (simp_all add: b)
  then show ?thesis unfolding b by blast
qed

text \<open>
  C14. A recipient id that contains a slash stops the collector: when the first expired entry
  belongs to such a recipient, every collection fails on parsing its key, whatever else is
  expired, and deletes nothing.
\<close>

theorem slash_blocks_gc:
  assumes "pebble_ok P view" "entries (view d) ''exp/'' (expUpperBound now) = (expKey e r s, v) # es"
    "\<not> plain r" "0 \<le> sint e" "0 < sint limit" "ctx 0 = None"
  shows "DeleteExpired P ctx d now limit = (0, Some (FmtError (''invalid exp key: '' @ expKey e r s)), d)"
  using pebble_ok.Iter_eq [OF assms(1), of d "''exp/''" "expUpperBound now"] parseExpKey_slash [OF assms(3,4)] assms(2,5,6)
  by (simp add: DeleteExpired_def)

theorem slash_blocks_gc_witness:
  "DeleteExpired mem_pebble (\<lambda>_. None) [(expKey 150 ''bob/x'' 1, [])] 200 10 =
     (0, Some (FmtError (''invalid exp key: '' @ expKey 150 ''bob/x'' 1)), [(expKey 150 ''bob/x'' 1, [])])"
proof -
  let ?d = "[(expKey 150 ''bob/x'' 1, [])] :: memdb"
  have "prefix ''exp/'' (expKey 150 ''bob/x'' 1)" by (simp add: expKey_def)
  then have "''exp/'' \<le> expKey 150 ''bob/x'' 1" by (rule prefix_le)
  moreover have "expKey 150 ''bob/x'' 1 < expUpperBound 200"
    using expKey_less_bound [of 150 201 "''bob/x''" 1] by (simp add: expUpperBound_def)
  ultimately have "''exp/'' \<le> expKey 150 ''bob/x'' 1 \<and> expKey 150 ''bob/x'' 1 < expUpperBound 200" ..
  then have "{k \<in> dom (map_of ?d). ''exp/'' \<le> k \<and> k < expUpperBound 200} = {expKey 150 ''bob/x'' 1}" by auto
  then have "entries (map_of ?d) ''exp/'' (expUpperBound 200) = [(expKey 150 ''bob/x'' 1, [])]"
    by (simp add: entries_def)
  then show ?thesis by (rule slash_blocks_gc [OF mem_ok]) (simp_all add: plain_def)
qed

end
