(* ===== verification/Shard.thy ===== *)
theory Shard
  imports Prelude
begin

text \<open>
  \<open>internal/shard/shard.go\<close>: the locks that serialise the operations of a recipient. A
  key is hashed (FNV-1a, 32 bits) to one of a fixed number of mutexes. The threads that take
  and release them are a step relation; the invariant of its reachable states gives mutual
  exclusion for every key.
\<close>

unbundle bit_operations_syntax

section \<open>Choosing the lock\<close>

definition fnv32a :: "string \<Rightarrow> uint32" where
  "fnv32a key = foldl (\<lambda>h c. (h XOR of_nat (of_char c)) * 16777619) 2166136261 key"

text \<open>None is the panic of a division by zero: \<open>uint32(size)\<close> may be zero.\<close>

definition indexOf :: "string \<Rightarrow> nat \<Rightarrow> nat option" where
  "indexOf key sz =
     (if (of_nat sz :: uint32) = 0 then None else Some (unat (fnv32a key mod of_nat sz)))"

text \<open>The state of a manager is the state of its mutexes: locked or not.\<close>

record Manager =
  locks :: "bool list"

definition New_Manager :: "int \<Rightarrow> Manager" where
  "New_Manager sz = \<lparr>locks = replicate (nat (if sz \<le> 0 then 256 else sz)) False\<rparr>"

text \<open>
  \<open>Lock\<close>: the mutex that the caller has to take, or nothing to do when there are no
  mutexes. The closure it returns unlocks that mutex.
\<close>

datatype lock_action = NoLock | Mutex nat | Panic

definition lock_for :: "Manager \<Rightarrow> string \<Rightarrow> lock_action" where
  "lock_for m key =
     (if length (locks m) = 0 then NoLock
      else case indexOf key (length (locks m)) of None \<Rightarrow> Panic | Some idx \<Rightarrow> Mutex idx)"

lemma indexOf_bound:
  assumes "0 < sz" "sz < 2 ^ 32"
  obtains i where "indexOf key sz = Some i" "i < sz"
proof -
  have u: "unat (of_nat sz :: uint32) = sz" using assms(2) by (simp add: unat_of_nat take_bit_nat_eq_self)
  then have nz: "(of_nat sz :: uint32) \<noteq> 0" using assms(1) by auto
  then have "fnv32a key mod of_nat sz < of_nat sz" by (simp add: word_mod_less_divisor word_neq_0_conv)
  then have "unat (fnv32a key mod of_nat sz) < sz" using u by (metis word_less_nat_alt)
  with nz show thesis by (intro that) (auto simp: indexOf_def)
qed

lemma lock_for_New:
  assumes "sz < 2 ^ 32"
  obtains i where "lock_for (New_Manager sz) key = Mutex i" "i < length (locks (New_Manager sz))"
proof -
  have "0 < length (locks (New_Manager sz))" "length (locks (New_Manager sz)) < 2 ^ 32"
    using assms by (auto simp: New_Manager_def)
  then obtain i where "indexOf key (length (locks (New_Manager sz))) = Some i" "i < length (locks (New_Manager sz))"
    using indexOf_bound by blast
  then show thesis using \<open>0 < length _\<close> by (intro that) (auto simp: lock_for_def)
qed

section \<open>Threads\<close>

text \<open>
  A thread is outside, or between a \<open>Lock\<close> and the call of its closure for some key. A
  mutex is taken when it is unlocked; a caller that finds it locked waits, so it takes no step.
\<close>

record lock_system =
  manager :: Manager
  section_of :: "nat \<Rightarrow> string option"

inductive lock_step :: "lock_system \<Rightarrow> lock_system \<Rightarrow> bool" where
  Acquire: "section_of s t = None \<Longrightarrow> lock_for (manager s) key = Mutex i \<Longrightarrow> \<not> locks (manager s) ! i \<Longrightarrow>
    lock_step s (s\<lparr>manager := (manager s)\<lparr>locks := (locks (manager s))[i := True]\<rparr>,
                   section_of := (section_of s)(t \<mapsto> key)\<rparr>)"
| Release: "section_of s t = Some key \<Longrightarrow> lock_for (manager s) key = Mutex i \<Longrightarrow>
    lock_step s (s\<lparr>manager := (manager s)\<lparr>locks := (locks (manager s))[i := False]\<rparr>,
                   section_of := (section_of s)(t := None)\<rparr>)"

inductive reachable :: "int \<Rightarrow> lock_system \<Rightarrow> bool" for sz where
  Start: "reachable sz \<lparr>manager = New_Manager sz, section_of = Map.empty\<rparr>"
| Step: "reachable sz s \<Longrightarrow> lock_step s s' \<Longrightarrow> reachable sz s'"

text \<open>
  A mutex is locked exactly while a thread is in a section of a key it guards, and then only
  one thread is.
\<close>

definition lock_inv :: "lock_system \<Rightarrow> bool" where
  "lock_inv s \<longleftrightarrow>
     0 < length (locks (manager s)) \<and> length (locks (manager s)) < 2 ^ 32 \<and>
     (\<forall>t key i. section_of s t = Some key \<longrightarrow> lock_for (manager s) key = Mutex i \<longrightarrow> locks (manager s) ! i) \<and>
     (\<forall>t t' key key' i. section_of s t = Some key \<longrightarrow> section_of s t' = Some key' \<longrightarrow>
        lock_for (manager s) key = Mutex i \<longrightarrow> lock_for (manager s) key' = Mutex i \<longrightarrow> t = t')"

lemma lock_for_cong: "length (locks m) = length (locks m') \<Longrightarrow> lock_for m key = lock_for m' key"
  by (simp add: lock_for_def)

lemma lock_for_bound:
  assumes "lock_for m key = Mutex i" "length (locks m) < 2 ^ 32"
  shows "i < length (locks m)"
proof -
  have "0 < length (locks m)" using assms(1) by (auto simp: lock_for_def split: if_splits)
  then obtain j where "indexOf key (length (locks m)) = Some j" "j < length (locks m)"
    using indexOf_bound assms(2) by blast
  with assms(1) show ?thesis by (auto simp: lock_for_def split: if_splits)
qed

lemma lock_inv_step:
  assumes "lock_inv s" "lock_step s s'"
  shows "lock_inv s'"
  using assms(2)
proof (cases rule: lock_step.cases)
  case (Acquire t key i)
  let ?m = "(manager s)\<lparr>locks := (locks (manager s))[i := True]\<rparr>"
  have same: "lock_for ?m k = lock_for (manager s) k" for k by (rule lock_for_cong) simp
  have i: "i < length (locks (manager s))"
    using lock_for_bound Acquire(3) assms(1) by (auto simp: lock_inv_def)
  have held: "locks (manager s) ! j" if "section_of s u = Some k" "lock_for (manager s) k = Mutex j" for u k j
    using assms(1) that by (auto simp: lock_inv_def)
  have out: "\<not> (section_of s u = Some k \<and> lock_for (manager s) k = Mutex i)" for u k
    using held Acquire(4) by blast
  have "length (locks (manager s)) < 2 ^ 32" using assms(1) by (simp add: lock_inv_def)
  then have lt: "j < length (locks (manager s))" if "lock_for (manager s) k = Mutex j" for k j
    using lock_for_bound that by blast
  show ?thesis
    using assms(1) Acquire(3) i out lt unfolding Acquire(1) lock_inv_def same
    by (auto simp: nth_list_update same split: if_splits)
next
  case (Release t key i)
  let ?m = "(manager s)\<lparr>locks := (locks (manager s))[i := False]\<rparr>"
  have same: "lock_for ?m k = lock_for (manager s) k" for k by (rule lock_for_cong) simp
  have only: "u = t" if "section_of s u = Some k" "lock_for (manager s) k = Mutex i" for u k
    using assms(1) Release(2,3) that unfolding lock_inv_def by blast
  show ?thesis
    using assms(1) unfolding Release(1) lock_inv_def same
    by (auto simp: same split: if_splits) (metis nth_list_update_neq only)
qed

lemma reachable_inv:
  assumes "sz < 2 ^ 32" "reachable sz s"
  shows "lock_inv s"
  using assms(2)
proof induction
  case Start
  then show ?case using assms(1) by (auto simp: lock_inv_def New_Manager_def)
next
  case (Step s s')
  then show ?case using lock_inv_step by blast
qed

section \<open>Progress\<close>

text \<open>No mutex stays locked: a locked one has a thread in a section of a key it guards.\<close>

definition lock_held :: "lock_system \<Rightarrow> bool" where
  "lock_held s \<longleftrightarrow>
     (\<forall>i<length (locks (manager s)). locks (manager s) ! i \<longrightarrow>
        (\<exists>t key. section_of s t = Some key \<and> lock_for (manager s) key = Mutex i))"

lemma lock_held_step:
  assumes inv: "lock_inv s" and held: "lock_held s" and step: "lock_step s s'"
  shows "lock_held s'"
  using step
proof (cases rule: lock_step.cases)
  case (Acquire t key i)
  let ?m = "(manager s)\<lparr>locks := (locks (manager s))[i := True]\<rparr>"
  have same: "lock_for ?m k = lock_for (manager s) k" for k by (rule lock_for_cong) simp
  have "\<exists>u k. ((section_of s)(t \<mapsto> key)) u = Some k \<and> lock_for (manager s) k = Mutex j"
    if j: "j < length (locks (manager s))" "(locks (manager s))[i := True] ! j" for j
  proof (cases "j = i")
    case True
    then show ?thesis using Acquire(3) by auto
  next
    case False
    then obtain u k where "section_of s u = Some k" "lock_for (manager s) k = Mutex j"
      using held j by (auto simp: lock_held_def)
    moreover from this have "u \<noteq> t" using Acquire(2) by auto
    ultimately show ?thesis by (intro exI [of _ u] exI [of _ k]) simp
  qed
  then show ?thesis unfolding Acquire(1) lock_held_def by (simp add: same)
next
  case (Release t key i)
  let ?m = "(manager s)\<lparr>locks := (locks (manager s))[i := False]\<rparr>"
  have same: "lock_for ?m k = lock_for (manager s) k" for k by (rule lock_for_cong) simp
  have "\<exists>u k. ((section_of s)(t := None)) u = Some k \<and> lock_for (manager s) k = Mutex j"
    if j: "j < length (locks (manager s))" "(locks (manager s))[i := False] ! j" for j
  proof -
    have ne: "j \<noteq> i" using j by auto
    then obtain u k where u: "section_of s u = Some k" "lock_for (manager s) k = Mutex j"
      using held j by (auto simp: lock_held_def)
    then have "u \<noteq> t" using Release(2,3) ne by auto
    with u show ?thesis by (intro exI [of _ u] exI [of _ k]) simp
  qed
  then show ?thesis unfolding Release(1) lock_held_def by (simp add: same)
qed

lemma reachable_held:
  assumes "sz < 2 ^ 32" "reachable sz s"
  shows "lock_held s"
  using assms(2)
proof induction
  case Start
  then show ?case by (auto simp: lock_held_def New_Manager_def)
next
  case (Step s s')
  then show ?case using lock_held_step reachable_inv [OF assms(1)] by blast
qed

lemma lock_for_reachable:
  assumes "sz < 2 ^ 32" "reachable sz s"
  obtains i where "lock_for (manager s) key = Mutex i" "i < length (locks (manager s))"
proof -
  have "0 < length (locks (manager s))" "length (locks (manager s)) < 2 ^ 32"
    using reachable_inv [OF assms] by (auto simp: lock_inv_def)
  then obtain i where "indexOf key (length (locks (manager s))) = Some i" "i < length (locks (manager s))"
    using indexOf_bound by blast
  then show thesis using \<open>0 < length _\<close> by (intro that) (auto simp: lock_for_def)
qed

text \<open>A thread outside may take its lock at once, unless a thread is in a section of the same mutex.\<close>

lemma lock_enabled:
  assumes "sz < 2 ^ 32" "reachable sz s" "section_of s t = None"
  shows "(\<exists>s'. lock_step s s' \<and> section_of s' t = Some key) \<longleftrightarrow>
    (\<forall>t' key'. section_of s t' = Some key' \<longrightarrow> lock_for (manager s) key' \<noteq> lock_for (manager s) key)"
proof -
  obtain i where i: "lock_for (manager s) key = Mutex i" "i < length (locks (manager s))"
    using lock_for_reachable [OF assms(1,2)] by blast
  have inv: "lock_inv s" and held: "lock_held s"
    using reachable_inv [OF assms(1,2)] reachable_held [OF assms(1,2)] by simp_all
  have free: "\<not> locks (manager s) ! i \<longleftrightarrow>
      (\<forall>t' key'. section_of s t' = Some key' \<longrightarrow> lock_for (manager s) key' \<noteq> Mutex i)"
  proof -
    have "\<exists>t key. section_of s t = Some key \<and> lock_for (manager s) key = Mutex i" if "locks (manager s) ! i"
      using held i(2) that unfolding lock_held_def by blast
    moreover have "locks (manager s) ! i" if "section_of s u = Some k" "lock_for (manager s) k = Mutex i" for u k
      using inv that unfolding lock_inv_def by blast
    ultimately show ?thesis by blast
  qed
  show ?thesis
  proof
    assume "\<exists>s'. lock_step s s' \<and> section_of s' t = Some key"
    then obtain s' where s': "lock_step s s'" "section_of s' t = Some key" by blast
    from s'(1) have "\<not> locks (manager s) ! i"
    proof (cases rule: lock_step.cases)
      case (Acquire u k j)
      then have "u = t \<and> k = key" using s'(2) assms(3) by (auto split: if_splits)
      then show ?thesis using Acquire i(1) by auto
    next
      case (Release u k j)
      then show ?thesis using s'(2) assms(3) by (auto split: if_splits)
    qed
    then show "\<forall>t' key'. section_of s t' = Some key' \<longrightarrow> lock_for (manager s) key' \<noteq> lock_for (manager s) key"
      using free i(1) by simp
  next
    assume "\<forall>t' key'. section_of s t' = Some key' \<longrightarrow> lock_for (manager s) key' \<noteq> lock_for (manager s) key"
    then have "\<not> locks (manager s) ! i" using free i(1) by simp
    from lock_step.Acquire [OF assms(3) i(1) this] show "\<exists>s'. lock_step s s' \<and> section_of s' t = Some key"
      by (intro exI conjI) (assumption, simp)
  qed
qed

end
