(* ===== verification/ProtocolTheorems.thy ===== *)
theory ProtocolTheorems
  imports Keys Codec Shard Example Decoded
begin

text \<open>
  What the encodings guarantee: storage keys, JSON, the bytes that signatures cover, frames;
  and the two shared mechanisms, sharded locks and rate limits.
\<close>

section \<open>Storage keys\<close>

text \<open>
  C15. For recipients without a slash no two things share a key: the keys of messages, duplicate
  markers, counters, expiry entries and frontiers are all different from each other; and parsing
  a message key or an expiry key gives back what it was made from.
\<close>

theorem storage_keys_exact:
  assumes "wf_lkey k" "wf_lkey k'" "plain r" "0 \<le> sint e"
  shows "(enc_key k = enc_key k' \<longleftrightarrow> k = k') \<and> parseMsgKey (msgKey r s) = Inr (r, s) \<and>
    parseExpKey (expKey e r s) = Inr (e, r, s) \<and> parseUint64 (FormatUint s) = Inr s"
  using assms enc_key_inj by (auto simp: parseMsgKey_msgKey parseExpKey_expKey parseUint64_def)

theorem storage_keys_exact_witness:
  "wf_lkey (KExp 7 ''bob'' 1) \<and> wf_lkey (KMsg ''bob'' 1) \<and> enc_key (KExp 7 ''bob'' 1) \<noteq> enc_key (KMsg ''bob'' 1) \<and>
   parseExpKey (expKey 150 ''bob'' 12) = Inr (150, ''bob'', 12)"
  using storage_keys_exact [of "KExp 7 ''bob'' 1" "KMsg ''bob'' 1" "''bob''" 150 12] by auto

text \<open>
  The range that fetching scans holds exactly the recipient's messages from a number on, in the
  order of their numbers, and nothing of any other recipient or kind.
\<close>

lemma fetch_range_exact:
  assumes "plain r" "wf_lkey k"
  shows "(msgKey r a \<le> enc_key k \<and> enc_key k < prefixUpperBound (msgPrefix r) \<longleftrightarrow> (\<exists>s\<ge>a. k = KMsg r s)) \<and>
    (msgKey r s < msgKey r t \<longleftrightarrow> s < t)"
  using msg_scan_range [OF assms(2,1), of a] msgKey_less_iff [of r s t] by auto

section \<open>JSON\<close>

lemma frame_read_bounded:
  assumes "ReadFrame r maxSize = (Inr p, r')"
  shows "p \<noteq> [] \<and> length p \<le> unat maxSize \<and> length (rd_data r') + length p + 4 = length (rd_data r)"
proof -
  have split: "rd_data r = take 4 (rd_data r) @ p @ rd_data r'" using ReadFrame_bound(3) [OF assms] .
  have "4 \<le> length (rd_data r)" using assms by (auto simp: ReadFrame_def ReadFull_def split: if_splits)
  then have four: "length (take 4 (rd_data r)) = 4" by simp
  have "length (rd_data r) = length (take 4 (rd_data r) @ p @ rd_data r')" by (rule arg_cong [OF split])
  also have "\<dots> = 4 + length p + length (rd_data r')" using four by (simp only: length_append)
  finally have "length (rd_data r) = 4 + length p + length (rd_data r')" .
  then show ?thesis using ReadFrame_bound(1,2) [OF assms] by simp
qed

text \<open>
  C16. A JSON value sent with \<open>WriteJSON\<close> is received with \<open>ReadJSON\<close> as itself, whatever type it
  is decoded into, and what follows on the stream stays unread: numbers in canonical form, valid
  UTF-8 texts, nesting within the parser's limit, size within the frame limit. And any frame
  that is read, whoever wrote it, has a payload that is not empty and not longer than the limit,
  so a peer cannot make the node allocate more.
\<close>

theorem json_wire_roundtrip:
  assumes "wr_errs w = []" "wf_json j" "json_depth j \<le> max_nesting"
    "length (json_print j) < 2 ^ 32" "of_nat (length (json_print j)) \<le> maxSize"
  shows "(\<exists>frame. WriteJSON w j maxSize = (None, w\<lparr>wr_out := wr_out w @ frame\<rparr>) \<and>
      ReadJSON zero d \<lparr>rd_data = frame @ rest, rd_end = e\<rparr> maxSize =
        ((case d zero j of None \<Rightarrow> Inl JsonError | Some x \<Rightarrow> Inr x), \<lparr>rd_data = rest, rd_end = e\<rparr>)) \<and>
    (\<forall>r p r'. ReadFrame r maxSize = (Inr p, r') \<longrightarrow>
       p \<noteq> [] \<and> length p \<le> unat maxSize \<and> length (rd_data r') + length p + 4 = length (rd_data r))"
proof
  have parse: "json_parse (json_print j) = Some j" by (rule json_parse_print [OF assms(2,3)])
  moreover have "json_parse [] = None" by code_simp
  ultimately have ne: "json_print j \<noteq> []" by force
  show "\<exists>frame. WriteJSON w j maxSize = (None, w\<lparr>wr_out := wr_out w @ frame\<rparr>) \<and>
      ReadJSON zero d \<lparr>rd_data = frame @ rest, rd_end = e\<rparr> maxSize =
        ((case d zero j of None \<Rightarrow> Inl JsonError | Some x \<Rightarrow> Inr x), \<lparr>rd_data = rest, rd_end = e\<rparr>)"
    using WriteFrame_ok [OF assms(1) ne assms(4,5)] ReadFrame_frame [OF ne assms(4,5)] parse
    by (intro exI [of _ "PutUint32 (of_nat (length (json_print j))) @ json_print j"])
      (simp add: WriteJSON_def ReadJSON_def unmarshal_def)
qed (use frame_read_bounded in blast)

theorem json_wire_roundtrip_witness:
  "\<exists>frame. ReadJSON [] dec_str \<lparr>rd_data = frame @ ''x'', rd_end = EOF\<rparr> 16 = (Inr ''a<b'', \<lparr>rd_data = ''x'', rd_end = EOF\<rparr>)"
proof -
  have j: "wf_json (JStr ''a<b'')"
    by (simp add: ascii_utf8_valid is_ascii_def)
  have len: "length (json_quote ''a<b'') = 10" by code_simp
  have "\<exists>frame. WriteJSON \<lparr>wr_out = [], wr_errs = []\<rparr> (JStr ''a<b'') 16
        = (None, \<lparr>wr_out = [], wr_errs = []\<rparr>\<lparr>wr_out := wr_out \<lparr>wr_out = [], wr_errs = []\<rparr> @ frame\<rparr>) \<and>
      ReadJSON [] dec_str \<lparr>rd_data = frame @ ''x'', rd_end = EOF\<rparr> 16 =
        ((case dec_str [] (JStr ''a<b'') of None \<Rightarrow> Inl JsonError | Some x \<Rightarrow> Inr x), \<lparr>rd_data = ''x'', rd_end = EOF\<rparr>)"
    by (rule json_wire_roundtrip [OF _ j, THEN conjunct1]) (simp_all add: len max_nesting_def)
  then show ?thesis by (auto simp: dec_str_def)
qed




section \<open>Signatures\<close>

definition ex_ack :: AckRequest where
  "ex_ack =
     \<lparr>areq_Version = 1, areq_RecipientID = ''bob'', areq_DeviceID = ''bob'', areq_AckSeq = 1, areq_AckedAt = 130,
      areq_Signature = \<lparr>sig_Algorithm = ''ed25519'', sig_Value = ''AAAA''\<rparr>\<rparr>"

text \<open>
  C18. Signatures cover everything but themselves: two messages with the same canonical bytes
  agree in version, ids, conversation, creation time, lifetime and cipher, two acknowledgements
  with the same bytes in all fields, and no acknowledgement has the bytes of a message.
\<close>

theorem canonical_bytes_cover:
  assumes "wf_Envelope m" "wf_Envelope m'" "wf_AckRequest r" "wf_AckRequest r'"
  shows "(CanonicalMessageEnvelope m t = CanonicalMessageEnvelope m' t' \<longrightarrow>
      env_Version m = env_Version m' \<and> MsgID m = MsgID m' \<and> SenderID m = SenderID m' \<and>
      RecipientID m = RecipientID m' \<and> ConversationID m = ConversationID m' \<and> CreatedAt m = CreatedAt m' \<and>
      EffectiveTTL (Some m) t = EffectiveTTL (Some m') t' \<and> Cipher m = Cipher m') \<and>
    (CanonicalAck r = CanonicalAck r' \<longrightarrow>
      areq_Version r = areq_Version r' \<and> areq_RecipientID r = areq_RecipientID r' \<and>
      areq_DeviceID r = areq_DeviceID r' \<and> areq_AckSeq r = areq_AckSeq r' \<and> areq_AckedAt r = areq_AckedAt r') \<and>
    CanonicalAck r \<noteq> CanonicalMessageEnvelope m t"
proof (intro conjI impI)
  assume "CanonicalMessageEnvelope m t = CanonicalMessageEnvelope m' t'"
  from canonical_envelope_inj [OF assms(1,2) this]
  show "env_Version m = env_Version m'" "MsgID m = MsgID m'" "SenderID m = SenderID m'"
    "RecipientID m = RecipientID m'" "ConversationID m = ConversationID m'" "CreatedAt m = CreatedAt m'"
    "EffectiveTTL (Some m) t = EffectiveTTL (Some m') t'" "Cipher m = Cipher m'"
    by (auto simp: canonical_envelope_def intro: CipherPayload.equality)
next
  assume "CanonicalAck r = CanonicalAck r'"
  from canonical_ack_inj [OF assms(3,4) this]
  show "areq_Version r = areq_Version r'" "areq_RecipientID r = areq_RecipientID r'"
    "areq_DeviceID r = areq_DeviceID r'" "areq_AckSeq r = areq_AckSeq r'" "areq_AckedAt r = areq_AckedAt r'"
    by (auto simp: canonical_ack_def)
next
  show "CanonicalAck r \<noteq> CanonicalMessageEnvelope m t" using canonical_separate [OF assms(1,3)] by metis
qed

theorem canonical_bytes_cover_witness:
  "CanonicalMessageEnvelope ex_env 9 \<noteq> CanonicalMessageEnvelope (ex_env\<lparr>RecipientID := ''alice''\<rparr>) 9 \<and>
   CanonicalAck ex_ack \<noteq> CanonicalMessageEnvelope ex_env 9"
proof -
  have w: "wf_Envelope (ex_env\<lparr>RecipientID := ''alice''\<rparr>)" "wf_AckRequest ex_ack"
    using ex_env_ok(1) by (simp_all add: wf_Envelope_def wf_AckRequest_def ex_ack_def)
  have "RecipientID ex_env \<noteq> ''alice''" using ex_env_ok by (simp add: ex_env_def)
  then show ?thesis using canonical_bytes_cover [OF ex_env_ok(1) w(1,2,2), of 9 9] by auto
qed

section \<open>Frames\<close>

text \<open>A frame that was written is read back, with whatever follows it left unread.\<close>

lemma frame_roundtrip:
  assumes "wr_errs w = []" "payload \<noteq> []" "length payload < 2 ^ 32" "of_nat (length payload) \<le> maxSize"
  shows "\<exists>frame. WriteFrame w payload maxSize = (None, w\<lparr>wr_out := wr_out w @ frame\<rparr>) \<and>
    ReadFrame \<lparr>rd_data = frame @ rest, rd_end = e\<rparr> maxSize = (Inr payload, \<lparr>rd_data = rest, rd_end = e\<rparr>)"
  using WriteFrame_ok [OF assms] ReadFrame_frame [OF assms(2-4)]
  by (intro exI [of _ "PutUint32 (of_nat (length payload)) @ payload"]) simp

text \<open>
  The size check of a written frame looks at the length modulo \<open>2 ^ 32\<close>: a payload of
  \<open>2 ^ 32 + 1\<close> bytes passes the smallest limit, under a header that announces one byte.
\<close>

lemma frame_length_truncated:
  assumes "length payload = 2 ^ 32 + 1" "wr_errs w = []"
  shows "WriteFrame w payload 1 = (None, w\<lparr>wr_out := wr_out w @ PutUint32 1 @ payload\<rparr>)"
proof -
  have ne: "payload \<noteq> []" using assms(1) by auto
  have "(of_nat (2 ^ 32 + 1) :: uint32) = 1"
    by (simp only: of_nat_add of_nat_1 of_nat_power of_nat_numeral) simp
  then have "(of_nat (length payload) :: uint32) = 1" unfolding assms(1) .
  then show ?thesis using assms(2) ne by (simp add: WriteFrame_def Write_def)
qed

section \<open>Locks and limits\<close>

text \<open>
  C20. With fewer than 2^32 mutexes, in every reachable state of threads that lock and unlock keys:
  locking a key never panics and never is skipped, it finds a mutex; no two threads are in a section of
  the same key, or of two keys that share a mutex; and a thread that is outside can enter the section of
  a key at once if and only if no thread is in a section of a key with the same mutex, so that no mutex
  stays locked behind a thread that has left.
\<close>

theorem lock_mutual_exclusion:
  assumes "sz < 2 ^ 32" "reachable sz s"
  shows "(\<forall>key. \<exists>i<length (locks (manager s)). lock_for (manager s) key = Mutex i) \<and>
    (\<forall>t t' key key'. section_of s t = Some key \<and> section_of s t' = Some key' \<and>
       lock_for (manager s) key = lock_for (manager s) key' \<longrightarrow> t = t') \<and>
    (\<forall>t key. section_of s t = None \<longrightarrow>
       ((\<exists>s'. lock_step s s' \<and> section_of s' t = Some key) \<longleftrightarrow>
        (\<forall>t' key'. section_of s t' = Some key' \<longrightarrow> lock_for (manager s) key' \<noteq> lock_for (manager s) key)))"
proof (intro conjI allI impI)
  fix key
  show "\<exists>i<length (locks (manager s)). lock_for (manager s) key = Mutex i"
    using lock_for_reachable [OF assms] by blast
next
  fix t t' key key'
  assume sec: "section_of s t = Some key \<and> section_of s t' = Some key' \<and>
    lock_for (manager s) key = lock_for (manager s) key'"
  obtain i where "lock_for (manager s) key = Mutex i" using lock_for_reachable [OF assms] by blast
  then show "t = t'" using sec reachable_inv [OF assms] unfolding lock_inv_def by metis
qed (rule lock_enabled [OF assms])

theorem lock_mutual_exclusion_witness:
  "\<exists>s. reachable 4 s \<and> section_of s 1 = Some ''bob'' \<and> (\<forall>t. section_of s t = Some ''bob'' \<longrightarrow> t = 1) \<and>
     \<not> (\<exists>s'. lock_step s s' \<and> section_of s' 2 = Some ''bob'')"
proof -
  let ?s = "\<lparr>manager = New_Manager 4, section_of = Map.empty\<rparr>"
  obtain i where i: "lock_for (New_Manager 4) ''bob'' = Mutex i" "i < length (locks (New_Manager 4))"
    using lock_for_New [of 4 "''bob''"] by auto
  let ?t = "?s\<lparr>manager := (manager ?s)\<lparr>locks := (locks (manager ?s))[i := True]\<rparr>,
                section_of := (section_of ?s)(1 \<mapsto> ''bob'')\<rparr>"
  have "lock_step ?s ?t"
    using i by (intro lock_step.Acquire) (simp_all add: New_Manager_def)
  then have r: "reachable 4 ?t" using reachable.Start reachable.Step by blast
  have sz: "(4 :: int) < 2 ^ 32" by simp
  have b: "section_of ?t 1 = Some ''bob''" "section_of ?t 2 = None" by simp_all
  note excl = lock_mutual_exclusion [OF sz r, THEN conjunct2, THEN conjunct1, rule_format]
    and enter = lock_mutual_exclusion [OF sz r, THEN conjunct2, THEN conjunct2, rule_format]
  have "t = 1" if "section_of ?t t = Some ''bob''" for t using excl that b(1) by blast
  moreover have "\<not> (\<exists>s'. lock_step ?t s' \<and> section_of s' 2 = Some ''bob'')"
    unfolding enter [OF b(2)] using b(1) by blast
  ultimately show ?thesis using r b(1) by blast
qed

text \<open>
  C21. The limiter is exact, for any limit, any senders and any clock. A limit that is not positive
  allows everything. Otherwise a request is allowed if and only if fewer than the limit of the
  sender's requests count against it: those that came just before it in the same minute window, back
  to the sender's last request in another window. While the clock does not go back these are all the
  earlier requests of the sender in that window, allowed or not; other senders never count.
\<close>

theorem rate_limit_exact:
  assumes "Allow_clocked_all (New_clocked clock limit) senders = (oks, l)"
  shows "length oks = length senders \<and>
    (\<forall>i<length senders. oks ! i \<longleftrightarrow> sint limit \<le> 0 \<or>
       int (recent (senders ! i) (Truncate (clock i) minute) (zip (take i senders) (map clock [0..<i]))) < sint limit) \<and>
    ((\<forall>j k. j \<le> k \<longrightarrow> clock j \<le> clock k) \<longrightarrow>
     (\<forall>i<length senders. oks ! i \<longleftrightarrow> sint limit \<le> 0 \<or>
       int (card {j. j < i \<and> senders ! j = senders ! i \<and> Truncate (clock j) minute = Truncate (clock i) minute})
         < sint limit))"
proof -
  have "length oks = length senders" using Allow_clocked_all_length [of "New_clocked clock limit" senders] assms by simp
  then show ?thesis using Allow_clocked_spec [OF assms] recent_monotone [of clock _ senders] by simp
qed

theorem rate_limit_exact_witness:
  "\<exists>oks l. Allow_clocked_all (New_clocked (\<lambda>i. if i = 3 then 70 * 10 ^ 9 else 10) 1) [''a'', ''b'', ''a'', ''a'', ''a''] = (oks, l) \<and>
     oks ! 0 \<and> oks ! 1 \<and> \<not> oks ! 2 \<and> oks ! 3 \<and> oks ! 4"
proof -
  let ?clock = "\<lambda>i::nat. if i = 3 then 70 * 10 ^ 9 else 10 :: time"
  let ?ss = "[''a'', ''b'', ''a'', ''a'', ''a'']"
  obtain oks l where run: "Allow_clocked_all (New_clocked ?clock 1) ?ss = (oks, l)" by fastforce
  have "\<forall>i<length ?ss. oks ! i \<longleftrightarrow> sint (1 :: int64) \<le> 0 \<or>
      int (recent (?ss ! i) (Truncate (?clock i) minute) (zip (take i ?ss) (map ?clock [0..<i]))) < sint (1 :: int64)"
    using rate_limit_exact [OF run] by blast
  note at = this [rule_format]
  have w: "Truncate 10 minute = 0" "Truncate (70 * 10 ^ 9) minute = 60 * 10 ^ 9" by (simp_all add: Truncate_def minute_def)
  have "oks ! 0" "oks ! 1" "\<not> oks ! 2" "oks ! 3" "oks ! 4"
    using at [of 0] at [of 1] at [of 2] at [of 3] at [of 4]
    by (simp_all add: w upt_rec recent_def take_Cons' del: power_numeral)
  then show ?thesis using run by blast
qed

end
