(* ===== verification/ChannelRequests.thy ===== *)
theory ChannelRequests
  imports ChannelService
begin

text \<open>
  Pushes and requests as a whole: what a push has checked when it succeeds, that a push that
  fails changes nothing, and how channels develop over a sequence of requests.
\<close>

section \<open>What a push has checked\<close>

lemma verify_messages_Inr:
  "verify_messages L txt p xs = Some (Inr ms) \<Longrightarrow>
   xs = map Some ms \<and> (\<forall>m\<in>set ms. cm_ChannelID m = pr_ChannelID p \<and> VerifyMessage L txt (pr_OwnerPeerID p) (Some m) = None)"
  by (induction L "txt" p xs arbitrary: ms rule: verify_messages.induct) (auto split: if_splits option.splits sum.splits)

lemma check_old_None:
  "check_old old h = None \<longleftrightarrow>
   (\<forall>r. old = Some r \<longrightarrow> sint (cr_LastSeq r) \<le> sint (hd_LastSeq h) \<and> hd_OwnerPeerID h = cr_OwnerPeerID r)"
  by (auto simp: check_old_def not_less split: option.splits)

lemma check_head_None:
  "check_head h ms = None \<longleftrightarrow>
   (\<forall>m\<in>set ms. sint (cm_Seq m) \<le> sint (hd_LastSeq h) \<and> sint (cm_MessageID m) \<le> sint (hd_LastMessageID h))"
  unfolding check_head_def not_less [symmetric] by auto

definition push_checked ::
  "('pid, 'key) libp2p \<Rightarrow> 'u uuid \<Rightarrow> (goerr \<Rightarrow> string) \<Rightarrow> string \<Rightarrow> ChannelProfile \<Rightarrow> ChannelHead \<Rightarrow> ChannelMessage list \<Rightarrow>
   channelRow option \<Rightarrow> bool" where
  "push_checked L U txt remote p h ms old \<longleftrightarrow>
     ValidateChannelID U (pr_ChannelID p) = None \<and> hd_ChannelID h = pr_ChannelID p \<and> remote = pr_OwnerPeerID p \<and>
     peer_signed L (pr_OwnerPeerID p) (json_print (canonical_profile p)) (pr_Signature p) \<and>
     peer_signed L (hd_OwnerPeerID h) (json_print (canonical_head h)) (hd_Signature h) \<and>
     (\<forall>m\<in>set ms. cm_ChannelID m = pr_ChannelID p \<and> VerifyMessage L txt (pr_OwnerPeerID p) (Some m) = None \<and>
        sint (cm_Seq m) \<le> sint (hd_LastSeq h) \<and> sint (cm_MessageID m) \<le> sint (hd_LastMessageID h)) \<and>
     (\<forall>r. old = Some r \<longrightarrow> sint (cr_LastSeq r) \<le> sint (hd_LastSeq h) \<and> hd_OwnerPeerID h = cr_OwnerPeerID r)"

lemma push_check_tabs:
  assumes "push_check L U txt remote p h messages c = Some (r, c')"
  shows "cn_tabs c' = cn_tabs c"
  using assms unfolding push_check_def
  by (auto split: option.splits sum.splits if_splits prod.splits dest: getChannel_tabs)

lemma push_check_Inr:
  assumes "push_check L U txt remote p h messages c = Some (Inr (old, ms), c')"
  shows "messages = map Some ms \<and> old = sql_channel (pr_ChannelID p) (cn_tabs c) \<and>
    push_checked L U txt remote p h ms (sql_channel (pr_ChannelID p) (cn_tabs c))"
proof -
  have v: "ValidateChannelID U (pr_ChannelID p) = None" "hd_ChannelID h = pr_ChannelID p" "remote = pr_OwnerPeerID p"
      "VerifyProfile L txt (Some p) = None" "VerifyHead L txt (Some h) = None"
    using assms unfolding push_check_def by (auto split: option.splits if_splits)
  then obtain c1 where m: "verify_messages L txt p messages = Some (Inr ms)"
      and g: "getChannelByChannelID (pr_ChannelID p) c = (Inr old, c1)" and ch: "check_old old h = None" "check_head h ms = None"
    using assms unfolding push_check_def by (auto split: option.splits sum.splits prod.splits)
  have "old = sql_channel (pr_ChannelID p) (cn_tabs c)" using g by (auto simp: getters dest: query_Inr)
  then show ?thesis
    using v verify_messages_Inr [OF m] ch
    by (auto simp: push_checked_def VerifyProfile_accepts VerifyHead_accepts check_old_None check_head_None)
qed

lemma push_tx_error:
  "push_tx newid old p h ms chs c = Some (Some e, c') \<Longrightarrow> cn_tabs c' = cn_tabs c"
  by (auto simp: push_tx_def split: prod.splits option.splits dest!: next_fault_tabs)

lemma push_tx_None:
  assumes "push_tx newid old p h ms chs c = Some (None, c')"
  shows "\<exists>c0 c1. cn_tabs c0 = cn_tabs c \<and> push_body newid old p h ms chs c0 = Some (None, c1) \<and> cn_tabs c' = cn_tabs c1"
  using assms by (auto simp: push_tx_def split: prod.splits option.splits dest!: next_fault_tabs)

lemma Store_Push_error:
  "Store_Push L U txt newid remote p h messages chs c = Some (Some e, c') \<Longrightarrow> cn_tabs c' = cn_tabs c"
  by (auto simp: Store_Push_def split: option.splits prod.splits sum.splits dest!: push_check_tabs push_tx_error)

lemma Store_Push_None:
  assumes "Store_Push L U txt newid remote p h messages chs c = Some (None, c')"
  obtains ms c0 c1 where "messages = map Some ms" "push_checked L U txt remote p h ms (sql_channel (pr_ChannelID p) (cn_tabs c))"
    "cn_tabs c0 = cn_tabs c" "push_body newid (sql_channel (pr_ChannelID p) (cn_tabs c)) p h ms chs c0 = Some (None, c1)"
    "cn_tabs c' = cn_tabs c1"
proof -
  obtain old ms c2 where k: "push_check L U txt remote p h messages c = Some (Inr (old, ms), c2)"
      and x: "push_tx newid old p h ms chs c2 = Some (None, c')"
    using assms by (auto simp: Store_Push_def split: option.splits prod.splits sum.splits)
  obtain c0 c1 where "cn_tabs c0 = cn_tabs c2" "push_body newid old p h ms chs c0 = Some (None, c1)" "cn_tabs c' = cn_tabs c1"
    using push_tx_None [OF x] by blast
  then show thesis using that push_check_Inr [OF k] push_check_tabs [OF k] by simp
qed

section \<open>How channels develop\<close>

text \<open>
  Channels, messages and changes stay, and the versions of messages never fall, however pushes
  overlap; the last number of a channel does not fall either as long as they do not.
\<close>

definition remains :: "channel \<Rightarrow> channel \<Rightarrow> bool" where
  "remains ch ch' \<longleftrightarrow>
     cr_ID (chan_row ch') = cr_ID (chan_row ch) \<and> cr_CreatedAt (chan_row ch') = cr_CreatedAt (chan_row ch) \<and>
     dom (chan_changes ch) \<subseteq> dom (chan_changes ch') \<and>
     (\<forall>k r. chan_messages ch k = Some r \<longrightarrow>
        (\<exists>r'. chan_messages ch' k = Some r' \<and> sint (mr_Version r) \<le> sint (mr_Version r')))"

definition develops :: "channel \<Rightarrow> channel \<Rightarrow> bool" where
  "develops ch ch' \<longleftrightarrow> remains ch ch' \<and> sint (cr_LastSeq (chan_row ch)) \<le> sint (cr_LastSeq (chan_row ch'))"

definition all_channels :: "(channel \<Rightarrow> channel \<Rightarrow> bool) \<Rightarrow> tables \<Rightarrow> tables \<Rightarrow> bool" where
  "all_channels R t t' \<longleftrightarrow> (\<forall>cid ch. channel_of cid t = Some ch \<longrightarrow> (\<exists>ch'. channel_of cid t' = Some ch' \<and> R ch ch'))"

abbreviation grows :: "tables \<Rightarrow> tables \<Rightarrow> bool" where
  "grows \<equiv> all_channels develops"

lemma remains_refl: "remains ch ch"
  by (simp add: remains_def)

lemma remains_trans:
  assumes "remains a b" "remains b c"
  shows "remains a c"
proof -
  have "\<exists>r'. chan_messages c k = Some r' \<and> sint (mr_Version r) \<le> sint (mr_Version r')" if k: "chan_messages a k = Some r" for k r
  proof -
    obtain r1 where r1: "chan_messages b k = Some r1" "sint (mr_Version r) \<le> sint (mr_Version r1)"
      using assms(1) k unfolding remains_def by blast
    obtain r2 where "chan_messages c k = Some r2" "sint (mr_Version r1) \<le> sint (mr_Version r2)"
      using assms(2) r1(1) unfolding remains_def by blast
    with r1 show ?thesis using order_trans by blast
  qed
  moreover have "dom (chan_changes a) \<subseteq> dom (chan_changes c)" using assms unfolding remains_def by (meson order_trans)
  ultimately show ?thesis using assms unfolding remains_def by auto
qed

lemma develops_refl: "develops ch ch"
  by (simp add: develops_def remains_refl)

lemma develops_trans: "develops a b \<Longrightarrow> develops b c \<Longrightarrow> develops a c"
  unfolding develops_def using remains_trans by fastforce

lemma all_channels_refl: "(\<And>ch. R ch ch) \<Longrightarrow> all_channels R t t"
  by (simp add: all_channels_def)

lemma all_channels_trans:
  "(\<And>a b c. R a b \<Longrightarrow> R b c \<Longrightarrow> R a c) \<Longrightarrow> all_channels R t t' \<Longrightarrow> all_channels R t' t'' \<Longrightarrow> all_channels R t t''"
  unfolding all_channels_def by blast

lemma grows_refl: "grows t t"
  by (rule all_channels_refl) (rule develops_refl)

lemma grows_trans: "grows t t' \<Longrightarrow> grows t' t'' \<Longrightarrow> grows t t''"
  by (rule all_channels_trans [of develops]) (rule develops_trans)

lemma push_messages_versions:
  assumes "push_messages i ms c = (None, c')" "sql_message d k (cn_tabs c) = Some r"
  shows "\<exists>r'. sql_message d k (cn_tabs c') = Some r' \<and> sint (mr_Version r) \<le> sint (mr_Version r')"
  using assms
proof (induction ms arbitrary: c r)
  case (Cons m ms)
  obtain c1 where m: "push_message i m c = (None, c1)" and ms: "push_messages i ms c1 = (None, c')"
    using Cons.prems(1) by (auto dest: seq_do_None)
  note put = push_message_None [OF m]
  obtain r1 where "sql_message d k (cn_tabs c1) = Some r1" "sint (mr_Version r) \<le> sint (mr_Version r1)"
    using put(1,3) Cons.prems(2)
    by (cases "d = i \<and> k = cm_MessageID m") (auto simp: sql_message_put check_prev_def message_row_def split: if_splits)
  then show ?case using Cons.IH [OF ms] order_trans by blast
qed simp

lemma dom_put_change: "dom C \<subseteq> dom (put_change upd new C)"
  by (auto simp: put_change_def)

lemma dom_fold_put_change:
  "dom C \<subseteq> dom (fold (\<lambda>x. put_change upd (f x)) xs C)"
proof (induction xs arbitrary: C)
  case (Cons x xs)
  show ?case using order_trans [OF dom_put_change [of C upd "f x"] Cons [of "put_change upd (f x) C"]] by simp
qed simp

lemma dom_push_onto: "dom (chan_changes ch) \<subseteq> dom (chan_changes (push_onto seen i p h ms xs (Some ch)))"
proof -
  let ?C1 = "fold (\<lambda>m. put_change set_message_change (message_change m)) ms (chan_changes ch)"
  let ?C2 = "if profile_only seen p ms xs then put_change set_profile_change (profile_change p h) ?C1 else ?C1"
  have "dom (chan_changes ch) \<subseteq> dom ?C1" by (rule dom_fold_put_change)
  also have "dom ?C1 \<subseteq> dom ?C2" using dom_put_change by auto
  also have "dom ?C2 \<subseteq> dom (fold (\<lambda>x. put_change set_extra_change (extra_change x)) xs ?C2)" by (rule dom_fold_put_change)
  finally show ?thesis by (simp add: push_onto_def Let_def)
qed

context autoincrement
begin

lemma push_body_versions:
  assumes t: "schema_ok (cn_tabs c)" and b: "push_body newid seen p h ms chs c = Some (None, c')"
    and ch: "channel_of (pr_ChannelID p) (cn_tabs c) = Some ch" "channel_of (pr_ChannelID p) (cn_tabs c') = Some ch'"
    and k: "chan_messages ch k = Some mr"
  shows "\<exists>mr'. chan_messages ch' k = Some mr' \<and> sint (mr_Version mr) \<le> sint (mr_Version mr')"
proof -
  let ?cid = "pr_ChannelID p" and ?t = "cn_tabs c"
  obtain t1 r xs c2 c3 where u: "sql_upsert_channel newid p h ?t = Inr t1" and r: "sql_channel ?cid t1 = Some r"
      and xs: "chs = map Some xs" and c2: "cn_tabs c2 = t1" and pm: "push_messages (cr_ID r) ms c2 = (None, c3)"
      and t': "cn_tabs c' = pushed_tables (cr_ID r) seen p h ms xs t1"
    by (rule push_body_None [OF b])
  obtain i where fr: "t_messages t1 = t_messages ?t"
      and up: "\<forall>cid. sql_channel cid t1 = (if cid = ?cid then Some (pushed_row i (sql_channel cid ?t) p h) else sql_channel cid ?t)"
    by (rule upsert_channel [OF t u])
  obtain r0 where r0: "sql_channel ?cid ?t = Some r0" "chan_messages ch = (\<lambda>k. sql_message (cr_ID r0) k ?t)"
    using ch(1) by (auto simp: channel_of_def)
  have rid: "cr_ID r = cr_ID r0" using r up [rule_format, of ?cid] r0(1) by (auto simp: pushed_row_def)
  have "sql_message (cr_ID r) k (cn_tabs c2) = Some mr" using k r0(2) rid c2 sql_frame(2) [OF fr] by simp
  then obtain mr' where mr': "sql_message (cr_ID r) k (cn_tabs c3) = Some mr'" "sint (mr_Version mr) \<le> sint (mr_Version mr')"
    using push_messages_versions [OF pm] by blast
  have "sql_channel ?cid (cn_tabs c') = Some r" using r sql_frame(1) [of "cn_tabs c'" t1] t' by simp
  then have "chan_messages ch' = (\<lambda>k. sql_message (cr_ID r) k (cn_tabs c'))" using ch(2) by (auto simp: channel_of_def)
  also have "\<dots> = (\<lambda>k. sql_message (cr_ID r) k (cn_tabs c3))"
    unfolding t' pushed_messages push_messages_None [OF pm] sql_message_fold c2 by (rule refl)
  finally show ?thesis using mr' by simp
qed

lemma push_body_remains:
  assumes t: "schema_ok (cn_tabs c)" and b: "push_body newid seen p h ms chs c = Some (None, c')"
    and ch: "channel_of cid (cn_tabs c) = Some ch"
  shows "\<exists>ch'. channel_of cid (cn_tabs c') = Some ch' \<and> remains ch ch' \<and>
    cr_LastSeq (chan_row ch') = (if cid = pr_ChannelID p then hd_LastSeq h else cr_LastSeq (chan_row ch))"
proof (cases "cid = pr_ChannelID p")
  case False
  then have "channel_of cid (cn_tabs c') = Some ch" using push_body_effect [OF t b] ch by simp
  with False show ?thesis by (auto simp: remains_refl)
next
  case True
  obtain i xs where new: "channel_of cid (cn_tabs c') = Some (push_onto seen i p h ms xs (Some ch))"
    using push_body_effect [OF t b] ch True by auto
  let ?ch' = "push_onto seen i p h ms xs (Some ch)"
  have "chan_row ?ch' = updated_channel (chan_row ch) p h" by (simp add: push_onto_def Let_def pushed_row_def)
  moreover have "cr_CreatedAt (updated_channel (chan_row ch) p h) = cr_CreatedAt (chan_row ch)" by (simp add: updated_channel_def)
  moreover note push_body_versions [OF t b ch [unfolded True] new [unfolded True]]
  ultimately have "remains ch ?ch'" unfolding remains_def using dom_push_onto by simp
  with new True \<open>chan_row ?ch' = _\<close> show ?thesis by simp
qed

lemma Store_Push_ok:
  assumes t: "tables_ok (cn_tabs c)" and s: "Store_Push L U txt newid remote p h messages chs c = Some (err, c')"
  shows "tables_ok (cn_tabs c') \<and> grows (cn_tabs c) (cn_tabs c')"
proof (cases err)
  case (Some e)
  then have "cn_tabs c' = cn_tabs c" using s by (auto intro: Store_Push_error)
  with t show ?thesis by (simp add: grows_refl)
next
  case None
  let ?cid = "pr_ChannelID p"
  obtain ms c0 c1 where k: "push_checked L U txt remote p h ms (sql_channel ?cid (cn_tabs c))"
      and c0: "cn_tabs c0 = cn_tabs c" and b: "push_body newid (sql_channel ?cid (cn_tabs c)) p h ms chs c0 = Some (None, c1)"
      and c': "cn_tabs c' = cn_tabs c1"
    by (rule Store_Push_None [OF s [unfolded None]])
  have old: "check_old (sql_channel ?cid (cn_tabs c0)) h = None" and le: "\<forall>m\<in>set ms. sint (cm_Seq m) \<le> sint (hd_LastSeq h)"
    using k by (auto simp: push_checked_def check_old_None c0)
  note sch = tables_ok_schema [OF t [folded c0]]
  have "\<exists>ch'. channel_of cid (cn_tabs c1) = Some ch' \<and> develops ch ch'" if ch: "channel_of cid (cn_tabs c0) = Some ch" for cid ch
  proof -
    have "cid = ?cid \<Longrightarrow> sql_channel ?cid (cn_tabs c0) = Some (chan_row ch)" using ch chan_row_of by (metis option.simps(9))
    then have "cid = ?cid \<Longrightarrow> sint (cr_LastSeq (chan_row ch)) \<le> sint (hd_LastSeq h)" using old by (simp add: check_old_None)
    then show ?thesis using push_body_remains [OF sch b ch] unfolding develops_def by (metis order_refl)
  qed
  then have "grows (cn_tabs c0) (cn_tabs c1)" by (simp add: all_channels_def)
  moreover have "tables_ok (cn_tabs c1)"
    using push_body_effect [OF sch b] push_body_within [OF t [folded c0] b old le] by (simp add: tables_ok_def)
  ultimately show ?thesis using c0 c' by simp
qed

lemma Store_Push_effect:
  assumes t: "schema_ok (cn_tabs c)" and s: "Store_Push L U txt newid remote p h messages chs c = Some (None, c')"
  shows "\<exists>i ms xs. messages = map Some ms \<and> chs = map Some xs \<and>
    channel_of (pr_ChannelID p) (cn_tabs c') = Some (push_channel i p h ms xs (channel_of (pr_ChannelID p) (cn_tabs c))) \<and>
    (\<forall>other. other \<noteq> pr_ChannelID p \<longrightarrow> channel_of other (cn_tabs c') = channel_of other (cn_tabs c))"
proof -
  obtain ms c0 c1 where m: "messages = map Some ms"
      and c0: "cn_tabs c0 = cn_tabs c" and b: "push_body newid (sql_channel (pr_ChannelID p) (cn_tabs c)) p h ms chs c0 = Some (None, c1)"
      and c': "cn_tabs c' = cn_tabs c1"
    by (rule Store_Push_None [OF s])
  show ?thesis using push_body_effect [OF t [folded c0] b] m c0 c' by (auto simp: push_channel_def chan_row_of)
qed

lemma dispatch_ok:
  assumes "tables_ok (cn_tabs c)" "channel_dispatch L U txt quote newid remote frame c = Some (resp, c')"
  shows "tables_ok (cn_tabs c') \<and> grows (cn_tabs c) (cn_tabs c')"
  using dispatch_tables [OF assms(2)] Store_Push_ok [OF assms(1)] assms(1) grows_refl by metis

end

end
