(* ===== verification/ChannelExample.thy ===== *)
theory ChannelExample
  imports ChannelRequests
begin

text \<open>
  A concrete channel, for the examples that accompany the theorems: a library that accepts
  every identity and signature, and a channel with one message.
\<close>

definition ex_keys :: "(string, string) libp2p" where
  "ex_keys = \<lparr>peer_Decode = Inr, ExtractPublicKey = Inr, key_Verify = (\<lambda>_ _ _. Inr True)\<rparr>"

definition ex_uuid :: "string uuid" where
  "ex_uuid = \<lparr>uuid_Parse = Inr, uuid_Version = (\<lambda>_. 7)\<rparr>"

definition ex_profile :: "string \<Rightarrow> ChannelProfile" where
  "ex_profile owner =
     \<lparr>pr_ChannelID = ''c'', pr_OwnerPeerID = owner, pr_OwnerVersion = 1, pr_Name = ''news'', pr_Avatar = None,
      pr_Bio = [], pr_MessageRetentionMinutes = 0, pr_ProfileVersion = 1, pr_CreatedAt = 10, pr_UpdatedAt = 10,
      pr_Signature = ''AAAA''\<rparr>"

definition ex_head :: ChannelHead where
  "ex_head =
     \<lparr>hd_ChannelID = ''c'', hd_OwnerPeerID = ''alice'', hd_OwnerVersion = 1, hd_LastMessageID = 1,
      hd_ProfileVersion = 1, hd_LastSeq = 1, hd_UpdatedAt = 10, hd_Signature = ''AAAA''\<rparr>"

definition ex_post :: ChannelMessage where
  "ex_post =
     \<lparr>cm_ChannelID = ''c'', cm_MessageID = 1, cm_Version = 1, cm_Seq = 1, cm_OwnerVersion = 1,
      cm_CreatorPeerID = ''alice'', cm_AuthorPeerID = ''alice'', cm_CreatedAt = 10, cm_UpdatedAt = 10,
      cm_IsDeleted = False, cm_MessageType = ''text'',
      cm_Content = \<lparr>cc_Text = ''hi'', cc_Images = None, cc_Files = None\<rparr>, cm_Signature = ''AAAA''\<rparr>"

definition ex_start :: conn where
  "ex_start = \<lparr>cn_tabs = empty_tables, cn_faults = []\<rparr>"

definition ex_row :: channelRow where
  "ex_row = inserted_channel 1 (ex_profile ''alice'') ex_head"

definition ex_tables :: tables where
  "ex_tables =
     \<lparr>t_channels = [ex_row], t_messages = [(1, message_row ex_post)], t_changes = [(1, message_change ex_post)]\<rparr>"

definition ex_conn :: conn where
  "ex_conn = \<lparr>cn_tabs = ex_tables, cn_faults = []\<rparr>"

lemma ex_signature: "peer_signed ex_keys owner payload ''AAAA''"
proof -
  have "base64_DecodeString ''AAAA'' = Some [CHR 0x00, CHR 0x00, CHR 0x00]" by code_simp
  then show ?thesis by (simp add: peer_signed_def ex_keys_def)
qed

lemma ex_profile_ok [simp]: "VerifyProfile ex_keys txt (Some (ex_profile owner)) = None"
  using ex_signature by (simp add: VerifyProfile_accepts ex_profile_def)

lemma ex_head_ok [simp]: "VerifyHead ex_keys txt (Some ex_head) = None"
  using ex_signature by (simp add: VerifyHead_accepts ex_head_def)

lemma ex_post_wf: "wf_ChannelMessage ex_post" "small_content (cm_Content ex_post)"
  by (simp_all add: wf_ChannelMessage_def wf_ChannelContent_def small_content_def ex_post_def elems_def
      ascii_utf8_valid is_ascii_def)

lemma ex_post_ok [simp]: "VerifyMessage ex_keys txt ''alice'' (Some ex_post) = None"
  using ex_signature CanonicalMessage_small [OF ex_post_wf] by (simp add: VerifyMessage_accepts) (simp add: ex_post_def)

lemma ex_uuid_ok [simp]: "ValidateChannelID ex_uuid i = None"
  by (simp add: ValidateChannelID_def ex_uuid_def)

lemma ex_fields [simp]:
  "pr_ChannelID (ex_profile owner) = ''c''" "pr_OwnerPeerID (ex_profile owner) = owner" "pr_ProfileVersion (ex_profile owner) = 1"
  "hd_ChannelID ex_head = ''c''" "hd_OwnerPeerID ex_head = ''alice''" "hd_LastSeq ex_head = 1" "hd_LastMessageID ex_head = 1"
  "cm_ChannelID ex_post = ''c''" "cm_Seq ex_post = 1" "cm_MessageID ex_post = 1"
  by (simp_all add: ex_profile_def ex_head_def ex_post_def)

text \<open>A library that reports no failures.\<close>

lemma query_ok: "cn_faults c = [] \<Longrightarrow> query f c = (Inr (f (cn_tabs c)), c)"
  by (simp add: query_def next_fault_def)

lemma exec_ok: "cn_faults c = [] \<Longrightarrow> f (cn_tabs c) = Inr t \<Longrightarrow> exec f c = (None, c\<lparr>cn_tabs := t\<rparr>)"
  by (simp add: exec_def next_fault_def)

lemma next_fault_ok: "cn_faults c = [] \<Longrightarrow> next_fault c = (None, c)"
  by (simp add: next_fault_def)

lemma ex_push:
  "Store_Push ex_keys ex_uuid txt first_free_id ''alice'' (ex_profile ''alice'') ex_head [Some ex_post] [] ex_start
   = Some (None, ex_conn)"
proof -
  have "first_free_id empty_tables = Some 1" by (simp add: first_free_id_def empty_tables_def upt_rec)
  then show ?thesis
    by (simp add: Store_Push_def push_check_def push_tx_def push_body_def upsertChannel_def sql_upsert_channel_def
        getChannelByChannelID_def sql_channel_def query_def exec_def next_fault_def ex_start_def empty_tables_def
        check_old_def check_head_def upsert_def push_message_def getMessage_def sql_message_def check_prev_def seq_do_def
        sql_delete_message_def sql_insert_message_def sql_message_change_def sql_upsert_change_def push_profile_def
        ex_conn_def ex_tables_def ex_row_def)
qed

lemma ex_tables_ok: "tables_ok ex_tables"
  by (simp add: tables_ok_def schema_ok_def within_head_def channels_ok_def messages_ok_def changes_ok_def ex_tables_def ex_row_def message_row_def)

end
