(* ===== verification/ChannelOverlap.thy ===== *)
theory ChannelOverlap
  imports ChannelExample
begin

text \<open>
  Pushes of several peers at the same time (\<open>publicchannel/store.go\<close>, \<open>Push\<close>). The database
  has a single connection, so a transaction runs alone; but a push reads the row of the channel
  before its transaction, and other pushes may commit between. A push is therefore two steps,
  the check and the transaction, and reading requests come in anywhere.
\<close>

record checked_push =
  pp_seen :: "channelRow option"
  pp_Profile :: ChannelProfile
  pp_Head :: ChannelHead
  pp_messages :: "ChannelMessage list"
  pp_changes :: "ChannelChange option list"

record overlapping =
  ov_conn :: conn
  ov_checked :: "checked_push list"

abbreviation ov_tabs :: "overlapping \<Rightarrow> tables" where
  "ov_tabs s \<equiv> cn_tabs (ov_conn s)"

inductive overlap_step ::
  "('pid, 'key) libp2p \<Rightarrow> 'u uuid \<Rightarrow> (goerr \<Rightarrow> string) \<Rightarrow> (string \<Rightarrow> string) \<Rightarrow> (tables \<Rightarrow> int64 option) \<Rightarrow>
   overlapping \<Rightarrow> overlapping \<Rightarrow> bool"
  for L U show_err quote newid where
  Check: "push_check L U show_err remote p h messages (ov_conn s) = Some (Inr (old, ms), c) \<Longrightarrow>
    overlap_step L U show_err quote newid s
      (s\<lparr>ov_conn := c, ov_checked := \<lparr>pp_seen = old, pp_Profile = p, pp_Head = h, pp_messages = ms, pp_changes = changes\<rparr> # ov_checked s\<rparr>)"
| Refuse: "push_check L U show_err remote p h messages (ov_conn s) = Some (Inl e, c) \<Longrightarrow>
    overlap_step L U show_err quote newid s (s\<lparr>ov_conn := c\<rparr>)"
| Transact: "pp \<in> set (ov_checked s) \<Longrightarrow>
    push_tx newid (pp_seen pp) (pp_Profile pp) (pp_Head pp) (pp_messages pp) (pp_changes pp) (ov_conn s) = Some (err, c) \<Longrightarrow>
    overlap_step L U show_err quote newid s (s\<lparr>ov_conn := c, ov_checked := remove1 pp (ov_checked s)\<rparr>)"
| Read: "channel_dispatch L U show_err quote newid remote frame (ov_conn s) = Some (resp, c) \<Longrightarrow>
    cn_tabs c = cn_tabs (ov_conn s) \<Longrightarrow> overlap_step L U show_err quote newid s (s\<lparr>ov_conn := c\<rparr>)"

definition overlap_steps ::
  "('pid, 'key) libp2p \<Rightarrow> 'u uuid \<Rightarrow> (goerr \<Rightarrow> string) \<Rightarrow> (string \<Rightarrow> string) \<Rightarrow> (tables \<Rightarrow> int64 option) \<Rightarrow>
   overlapping \<Rightarrow> overlapping \<Rightarrow> bool" where
  "overlap_steps L U show_err quote newid = (overlap_step L U show_err quote newid)\<^sup>*\<^sup>*"

text \<open>What a push that waits for its transaction has passed: the signatures and its own head.\<close>

definition push_signed :: "('pid, 'key) libp2p \<Rightarrow> checked_push \<Rightarrow> bool" where
  "push_signed L pp \<longleftrightarrow>
     (let p = pp_Profile pp; h = pp_Head pp in
      hd_ChannelID h = pr_ChannelID p \<and>
      peer_signed L (pr_OwnerPeerID p) (json_print (canonical_profile p)) (pr_Signature p) \<and>
      peer_signed L (hd_OwnerPeerID h) (json_print (canonical_head h)) (hd_Signature h) \<and>
      (\<forall>m\<in>set (pp_messages pp). cm_ChannelID m = pr_ChannelID p \<and> sint (cm_Seq m) \<le> sint (hd_LastSeq h)))"

context autoincrement
begin

lemma push_tx_remains:
  assumes t: "schema_ok (cn_tabs c)" and x: "push_tx newid seen p h ms chs c = Some (err, c')"
  shows "schema_ok (cn_tabs c') \<and> all_channels remains (cn_tabs c) (cn_tabs c')"
proof (cases err)
  case (Some e)
  then have "cn_tabs c' = cn_tabs c" using x push_tx_error by blast
  with t show ?thesis by (simp add: all_channels_refl remains_refl)
next
  case None
  obtain c0 c1 where c: "cn_tabs c0 = cn_tabs c" "push_body newid seen p h ms chs c0 = Some (None, c1)" "cn_tabs c' = cn_tabs c1"
    using push_tx_None x None by blast
  have "all_channels remains (cn_tabs c0) (cn_tabs c1)"
    using push_body_remains [OF t [folded c(1)] c(2)] unfolding all_channels_def by blast
  then show ?thesis using push_body_effect [OF t [folded c(1)] c(2)] c(1,3) by simp
qed

lemma overlap_step_ok:
  assumes "overlap_step L U show_err quote newid s s'" "schema_ok (ov_tabs s)" "\<forall>pp\<in>set (ov_checked s). push_signed L pp"
  shows "schema_ok (ov_tabs s') \<and> all_channels remains (ov_tabs s) (ov_tabs s') \<and> (\<forall>pp\<in>set (ov_checked s'). push_signed L pp)"
  using assms(1)
proof cases
  case (Check remote p h messages old ms c changes)
  note tabs = push_check_tabs [OF Check(2)]
  have "push_signed L \<lparr>pp_seen = old, pp_Profile = p, pp_Head = h, pp_messages = ms, pp_changes = changes\<rparr>"
    using push_check_Inr [OF Check(2)] by (simp add: push_signed_def push_checked_def)
  then show ?thesis using Check(1) tabs assms(2,3) by (simp add: all_channels_refl remains_refl)
next
  case (Refuse remote p h messages e c)
  then show ?thesis using push_check_tabs [OF Refuse(2)] assms(2,3) by (simp add: all_channels_refl remains_refl)
next
  case (Transact pp err c)
  have "set (remove1 pp (ov_checked s)) \<subseteq> set (ov_checked s)" by (rule set_remove1_subset)
  then show ?thesis using push_tx_remains [OF assms(2) Transact(3)] Transact(1) assms(3) by auto
next
  case (Read remote frame resp c)
  then show ?thesis using assms(2,3) by (simp add: all_channels_refl remains_refl)
qed

lemma overlap_steps_ok:
  assumes "overlap_steps L U show_err quote newid s s'" "schema_ok (ov_tabs s)" "\<forall>pp\<in>set (ov_checked s). push_signed L pp"
  shows "schema_ok (ov_tabs s') \<and> all_channels remains (ov_tabs s) (ov_tabs s') \<and> (\<forall>pp\<in>set (ov_checked s'). push_signed L pp)"
  using assms(1) unfolding overlap_steps_def
proof (induction rule: rtranclp_induct)
  case base
  then show ?case using assms(2,3) by (simp add: all_channels_refl remains_refl)
next
  case (step t u)
  note one = overlap_step_ok [OF step.hyps(2)]
  have "all_channels remains (ov_tabs s) (ov_tabs u)"
    by (rule all_channels_trans [of remains, OF remains_trans]) (use step.IH one in blast)+
  then show ?case using step.IH one by blast
qed

end

text \<open>
  Without failures a push that brings no messages and no changes commits, whatever it has seen,
  and the channel's last number is then the one of its head.
\<close>

lemma bare_push_commits:
  assumes f: "cn_faults c = []" and i: "newid (cn_tabs c) = Some i"
  obtains c' r where "push_tx newid seen p h [] [] c = Some (None, c')" "cn_faults c' = []"
    "sql_channel (pr_ChannelID p) (cn_tabs c') = Some r"
    "r = pushed_row i (sql_channel (pr_ChannelID p) (cn_tabs c)) p h"
proof -
  let ?row = "upsert (\<lambda>r. cr_ChannelID r = pr_ChannelID p) (\<lambda>r. updated_channel r p h) (inserted_channel i p h) (t_channels (cn_tabs c))"
  let ?t1 = "(cn_tabs c)\<lparr>t_channels := ?row\<rparr>" and ?r = "pushed_row i (sql_channel (pr_ChannelID p) (cn_tabs c)) p h"
  let ?c1 = "c\<lparr>cn_tabs := ?t1\<rparr>"
  have up: "sql_upsert_channel newid p h (cn_tabs c) = Inr ?t1" using i by (simp add: sql_upsert_channel_def)
  have f1: "cn_faults ?c1 = []" using f by simp
  have r1: "sql_channel (pr_ChannelID p) ?t1 = Some ?r" using sql_channel_upsert [of ?t1 p h i "cn_tabs c" "pr_ChannelID p"] by simp
  have ex: "exec (\<lambda>t. Inr (sql_profile_change (cr_ID ?r) p h t)) ?c1 = (None, ?c1\<lparr>cn_tabs := sql_profile_change (cr_ID ?r) p h ?t1\<rparr>)"
    by (rule exec_ok [OF f1]) simp
  obtain c2 where p: "push_profile (cr_ID ?r) seen p h [] [] ?c1 = (None, c2)" "t_channels (cn_tabs c2) = t_channels ?t1" "cn_faults c2 = []"
    using ex f1 by (cases "sint (case seen of None \<Rightarrow> 0 | Some r \<Rightarrow> cr_ProfileVersion r) < sint (pr_ProfileVersion p)")
      (simp_all add: push_profile_def Let_def)
  have "push_body newid seen p h [] [] c = Some (None, c2)"
    using exec_ok [where f = "sql_upsert_channel newid p h", OF f up] f1 r1 p(1)
    by (simp add: push_body_def upsertChannel_def getChannelByChannelID_def query_ok seq_do_def)
  then have "push_tx newid seen p h [] [] c = Some (None, c2)"
    using next_fault_ok [OF f] next_fault_ok [OF p(3)] by (simp add: push_tx_def)
  moreover have "sql_channel (pr_ChannelID p) (cn_tabs c2) = Some ?r" using r1 sql_frame(1) [OF p(2)] by simp
  ultimately show thesis using that p(3) by blast
qed

end
