(* ===== verification/ChannelTheorems.thy ===== *)
theory ChannelTheorems
  imports ChannelOverlap
begin

text \<open>
  What the store of public channels guarantees: who may change a channel, what a push does, how
  channels develop under any requests, and what readers get; and two requests that show what is
  not guaranteed.
\<close>

section \<open>Pushing\<close>

text \<open>
  C27. A push succeeds only if its sender signed the channel's profile as its owner, the head is
  signed by the owner that it names, which is the owner that the store knows, every message is
  signed by the profile's owner and within the head, and the last number does not fall; a push
  that fails, for whatever reason, leaves all tables as they were.
\<close>

theorem push_sound:
  assumes "Store_Push L U txt newid remote p h messages changes c = Some (err, c')"
  shows "if err \<noteq> None then cn_tabs c' = cn_tabs c
    else ValidateChannelID U (pr_ChannelID p) = None \<and> hd_ChannelID h = pr_ChannelID p \<and> pr_OwnerPeerID p = remote \<and>
      peer_signed L remote (json_print (canonical_profile p)) (pr_Signature p) \<and>
      peer_signed L (hd_OwnerPeerID h) (json_print (canonical_head h)) (hd_Signature h) \<and>
      (\<exists>ms. messages = map Some ms \<and>
        (\<forall>m\<in>set ms. cm_ChannelID m = pr_ChannelID p \<and> cm_AuthorPeerID m = remote \<and>
           (\<exists>payload. CanonicalMessage (Some m) = Inr payload \<and> peer_signed L remote payload (cm_Signature m)) \<and>
           sint (cm_Seq m) \<le> sint (hd_LastSeq h) \<and> sint (cm_MessageID m) \<le> sint (hd_LastMessageID h))) \<and>
      (\<forall>r. sql_channel (pr_ChannelID p) (cn_tabs c) = Some r \<longrightarrow>
         sint (cr_LastSeq r) \<le> sint (hd_LastSeq h) \<and> hd_OwnerPeerID h = cr_OwnerPeerID r)"
proof (cases err)
  case (Some e)
  then show ?thesis using assms Store_Push_error by auto
next
  case None
  obtain ms c0 c1 where m: "messages = map Some ms"
      and k: "push_checked L U txt remote p h ms (sql_channel (pr_ChannelID p) (cn_tabs c))"
      and r: "cn_tabs c0 = cn_tabs c" "push_body newid (sql_channel (pr_ChannelID p) (cn_tabs c)) p h ms changes c0 = Some (None, c1)"
        "cn_tabs c' = cn_tabs c1"
    by (rule Store_Push_None [OF assms [unfolded None]])
  show ?thesis using k m None unfolding push_checked_def VerifyMessage_accepts by auto
qed

theorem push_sound_witness:
  "Store_Push ex_keys ex_uuid (\<lambda>_. []) first_free_id ''alice'' (ex_profile ''alice'') ex_head [Some ex_post] [] ex_start
     = Some (None, ex_conn) \<and>
   peer_signed ex_keys ''alice'' (json_print (canonical_head ex_head)) (hd_Signature ex_head)"
  using push_sound [OF ex_push [of "\<lambda>_. []"]] ex_push [of "\<lambda>_. []"] by simp

text \<open>
  C28. A push that succeeds updates exactly one channel: its row from the profile and the head,
  its messages by the messages of the push, and its changes by one entry per message, per
  explicit change, or for a new version of the profile alone; every other channel is untouched.
\<close>

theorem push_refines:
  assumes "autoincrement newid" "schema_ok (cn_tabs c)"
    "Store_Push L U txt newid remote p h messages changes c = Some (None, c')"
  shows "(\<exists>i ms xs. messages = map Some ms \<and> changes = map Some xs \<and>
       channel_of (pr_ChannelID p) (cn_tabs c') = Some (push_channel i p h ms xs (channel_of (pr_ChannelID p) (cn_tabs c)))) \<and>
    (\<forall>other. other \<noteq> pr_ChannelID p \<longrightarrow> channel_of other (cn_tabs c') = channel_of other (cn_tabs c))"
  using autoincrement.Store_Push_effect [OF assms] by blast

theorem push_refines_witness:
  "\<exists>i. channel_of ''c'' ex_tables = Some (push_channel i (ex_profile ''alice'') ex_head [ex_post] [] None)"
proof -
  have "channel_of ''c'' (cn_tabs ex_start) = None" by (simp add: channel_of_def sql_channel_def ex_start_def empty_tables_def)
  then show ?thesis
    using push_refines [OF first_free.autoincrement_axioms _ ex_push [of "\<lambda>_. []"]] tables_ok_schema [OF tables_ok_empty]
    by (auto simp: ex_start_def ex_conn_def)
qed

section \<open>Requests\<close>

text \<open>Requests of any peers, one after the other; None if a handler panics.\<close>

fun serve ::
  "('pid, 'key) libp2p \<Rightarrow> 'u uuid \<Rightarrow> (goerr \<Rightarrow> string) \<Rightarrow> (string \<Rightarrow> string) \<Rightarrow> (tables \<Rightarrow> int64 option) \<Rightarrow>
   (string \<times> bytes) list \<Rightarrow> conn \<Rightarrow> conn option" where
  "serve L U txt quote newid [] c = Some c"
| "serve L U txt quote newid ((remote, frame) # reqs) c =
     (case channel_dispatch L U txt quote newid remote frame c of
        None \<Rightarrow> None
      | Some (resp, c') \<Rightarrow> serve L U txt quote newid reqs c')"

text \<open>
  C29. Under any sequence of requests of any peers, with any failures of the database, the
  tables keep their constraints, no message is numbered beyond its channel's head, no channel,
  message or change disappears, and neither a channel's last number nor a message's version ever
  falls.
\<close>

theorem channels_develop:
  assumes "autoincrement newid" "tables_ok (cn_tabs c)" "serve L U txt quote newid reqs c = Some c'"
  shows "tables_ok (cn_tabs c') \<and> grows (cn_tabs c) (cn_tabs c')"
  using assms(2,3)
proof (induction reqs arbitrary: c)
  case Nil
  then show ?case by (simp add: grows_refl)
next
  case (Cons req reqs)
  obtain remote frame where req: "req = (remote, frame)" by force
  obtain resp c1 where d: "channel_dispatch L U txt quote newid remote frame c = Some (resp, c1)"
      and rest: "serve L U txt quote newid reqs c1 = Some c'"
    using Cons.prems(2) req by (auto split: option.splits prod.splits)
  note one = autoincrement.dispatch_ok [OF assms(1) Cons.prems(1) d]
  show ?case using Cons.IH [OF _ rest] one grows_trans by blast
qed

theorem channels_develop_witness:
  "\<exists>c'. serve ex_keys ex_uuid (\<lambda>_. []) (\<lambda>x. x) first_free_id [(''bob'', ''{x}'')] ex_conn = Some c' \<and> tables_ok (cn_tabs c')"
proof -
  have "json_parse ''{x}'' = None" by code_simp
  then have s: "serve ex_keys ex_uuid (\<lambda>_. []) (\<lambda>x. x) first_free_id [(''bob'', ''{x}'')] ex_conn = Some ex_conn"
    by (simp add: channel_dispatch_def unmarshal_def)
  have "tables_ok (cn_tabs ex_conn)" using ex_tables_ok by (simp add: ex_conn_def)
  then show ?thesis using channels_develop [OF first_free.autoincrement_axioms _ s] s by blast
qed

section \<open>Overlapping pushes\<close>

text \<open>
  C31. Pushes that overlap, in any interleaving of their checks and transactions with each other
  and with reading requests, and with any failures of the database, keep the constraints of the
  schema; no channel, message or change disappears, and no message's version falls. What waits
  for its transaction is signed.
\<close>

theorem overlapping_pushes:
  assumes "autoincrement newid" "schema_ok (ov_tabs s)" "ov_checked s = []" "overlap_steps L U show_err quote newid s s'"
  shows "schema_ok (ov_tabs s') \<and> all_channels remains (ov_tabs s) (ov_tabs s') \<and> (\<forall>pp\<in>set (ov_checked s'). push_signed L pp)"
  using autoincrement.overlap_steps_ok [OF assms(1,4,2)] assms(3) by simp

definition ex_head_at :: "int64 \<Rightarrow> ChannelHead" where
  "ex_head_at n = ex_head\<lparr>hd_LastSeq := n\<rparr>"

lemma ex_check:
  "1 \<le> sint n \<Longrightarrow> push_check ex_keys ex_uuid (\<lambda>_. []) ''alice'' (ex_profile ''alice'') (ex_head_at n) [] ex_conn =
     Some (Inr (Some ex_row, []), ex_conn)"
proof -
  assume n: "1 \<le> sint n"
  have "VerifyHead ex_keys (\<lambda>_. []) (Some (ex_head_at n)) = None"
    using ex_signature by (simp add: VerifyHead_accepts ex_head_at_def) (simp add: ex_head_def)
  moreover have "sql_channel ''c'' ex_tables = Some ex_row" by (simp add: sql_channel_def ex_tables_def ex_row_def)
  ultimately show ?thesis
    using n by (simp add: push_check_def getChannelByChannelID_def query_ok check_old_def check_head_def ex_head_at_def ex_conn_def)
      (simp add: ex_row_def)
qed

theorem overlapping_pushes_witness:
  "\<exists>s'. overlap_steps ex_keys ex_uuid (\<lambda>_. []) (\<lambda>x. x) first_free_id \<lparr>ov_conn = ex_conn, ov_checked = []\<rparr> s' \<and>
     ov_checked s' \<noteq> [] \<and> schema_ok (ov_tabs s') \<and> (\<forall>pp\<in>set (ov_checked s'). push_signed ex_keys pp)"
proof -
  let ?s = "\<lparr>ov_conn = ex_conn, ov_checked = []\<rparr>"
  obtain s' where s': "overlap_step ex_keys ex_uuid (\<lambda>_. []) (\<lambda>x. x) first_free_id ?s s'" "ov_checked s' \<noteq> []"
    using overlap_step.Check [of ex_keys ex_uuid "\<lambda>_. []" "''alice''" "ex_profile ''alice''" "ex_head_at 1" "[]" ?s
        "Some ex_row" "[]" ex_conn "\<lambda>x. x" first_free_id "[]"] ex_check [of 1] by auto
  then have run: "overlap_steps ex_keys ex_uuid (\<lambda>_. []) (\<lambda>x. x) first_free_id ?s s'"
    unfolding overlap_steps_def by blast
  have ok: "schema_ok (ov_tabs ?s)" using ex_tables_ok by (simp add: ex_conn_def tables_ok_def)
  show ?thesis using overlapping_pushes [OF first_free.autoincrement_axioms ok _ run] run s'(2) by auto
qed

text \<open>
  C32. But the last number of a channel can fall, although every push checks that it does not:
  two pushes of the owner that were both checked before either committed are both accepted, and
  the one with the smaller head, if it commits last, sets the channel back. One after the other,
  it would have been refused.
\<close>

theorem push_race_regresses:
  assumes "cn_faults c = []" "push_check L U show_err owner p h messages c = Some (Inr (old, ms), c)"
    "push_check L U show_err owner' p' h' [] c = Some (Inr (old', []), c)"
    "pr_ChannelID p' = pr_ChannelID p" "sint (hd_LastSeq h') < sint (hd_LastSeq h)"
    "push_tx newid old p h ms changes c = Some (None, c1)" "cn_faults c1 = []"
    "sql_channel (pr_ChannelID p) (cn_tabs c1) = Some r1" "cr_LastSeq r1 = hd_LastSeq h" "newid (cn_tabs c1) = Some i"
  shows "\<exists>c2 r2. overlap_steps L U show_err quote newid \<lparr>ov_conn = c, ov_checked = []\<rparr> \<lparr>ov_conn = c2, ov_checked = []\<rparr> \<and>
    sql_channel (pr_ChannelID p) (cn_tabs c2) = Some r2 \<and> sint (cr_LastSeq r2) < sint (cr_LastSeq r1) \<and>
    Store_Push L U show_err newid owner' p' h' [] [] c1 =
      Some (Some (AppError CodePublicChannelStale ''head.last_seq regressed''), c1)"
proof -
  let ?a = "\<lparr>pp_seen = old, pp_Profile = p, pp_Head = h, pp_messages = ms, pp_changes = changes\<rparr>"
  let ?b = "\<lparr>pp_seen = old', pp_Profile = p', pp_Head = h', pp_messages = [], pp_changes = []\<rparr>"
  let ?R = "overlap_step L U show_err quote newid"
  obtain c2 r2 where b: "push_tx newid old' p' h' [] [] c1 = Some (None, c2)" "sql_channel (pr_ChannelID p') (cn_tabs c2) = Some r2"
      "r2 = pushed_row i (sql_channel (pr_ChannelID p') (cn_tabs c1)) p' h'"
    by (rule bare_push_commits [where newid = newid, OF assms(7,10)])
  have "?R \<lparr>ov_conn = c, ov_checked = []\<rparr> \<lparr>ov_conn = c, ov_checked = [?a]\<rparr>"
    using overlap_step.Check [of L U show_err owner p h messages "\<lparr>ov_conn = c, ov_checked = []\<rparr>"] assms(2) by simp
  moreover have "?R \<lparr>ov_conn = c, ov_checked = [?a]\<rparr> \<lparr>ov_conn = c, ov_checked = [?b, ?a]\<rparr>"
    using overlap_step.Check [of L U show_err owner' p' h' "[]" "\<lparr>ov_conn = c, ov_checked = [?a]\<rparr>"] assms(3) by simp
  moreover have "h \<noteq> h'" "h' \<noteq> h" using assms(5) by auto
  then have "?R \<lparr>ov_conn = c, ov_checked = [?b, ?a]\<rparr> \<lparr>ov_conn = c1, ov_checked = [?b]\<rparr>"
    using overlap_step.Transact [of ?a "\<lparr>ov_conn = c, ov_checked = [?b, ?a]\<rparr>" newid None c1] assms(6) by simp
  moreover have "?R \<lparr>ov_conn = c1, ov_checked = [?b]\<rparr> \<lparr>ov_conn = c2, ov_checked = []\<rparr>"
    using overlap_step.Transact [of ?b "\<lparr>ov_conn = c1, ov_checked = [?b]\<rparr>" newid None c2] b(1) by simp
  ultimately have run: "overlap_steps L U show_err quote newid \<lparr>ov_conn = c, ov_checked = []\<rparr> \<lparr>ov_conn = c2, ov_checked = []\<rparr>"
    unfolding overlap_steps_def by (meson rtranclp.rtrancl_refl rtranclp.rtrancl_into_rtrancl)
  have last: "sint (cr_LastSeq r2) < sint (cr_LastSeq r1)"
    using b(3) assms(4,5,8,9) by (simp add: pushed_row_def)
  have "check_old (Some r1) h' = Some (AppError CodePublicChannelStale ''head.last_seq regressed'')"
    using assms(5,9) by (simp add: check_old_def)
  then have "push_check L U show_err owner' p' h' [] c1 =
      Some (Inl (AppError CodePublicChannelStale ''head.last_seq regressed''), c1)"
    using assms(3,4,7,8) by (simp add: push_check_def getChannelByChannelID_def query_ok split: option.splits if_splits)
  then show ?thesis using run b(2) last assms(4) by (auto simp: Store_Push_def)
qed

theorem push_race_regresses_witness:
  "\<exists>c2 r2. overlap_steps ex_keys ex_uuid (\<lambda>_. []) (\<lambda>x. x) first_free_id
       \<lparr>ov_conn = ex_conn, ov_checked = []\<rparr> \<lparr>ov_conn = c2, ov_checked = []\<rparr> \<and>
     sql_channel ''c'' (cn_tabs c2) = Some r2 \<and> sint (cr_LastSeq r2) < 3"
proof -
  have id: "first_free_id (cn_tabs ex_conn) = Some 2"
    by (simp add: first_free_id_def ex_conn_def ex_tables_def ex_row_def upt_rec)
  have old: "sql_channel ''c'' (cn_tabs ex_conn) = Some ex_row" by (simp add: sql_channel_def ex_conn_def ex_tables_def ex_row_def)
  let ?row = "updated_channel ex_row (ex_profile ''alice'') (ex_head_at 3)"
  let ?c1 = "\<lparr>cn_tabs = ex_tables\<lparr>t_channels := [?row]\<rparr>, cn_faults = []\<rparr>"
  have a: "push_tx first_free_id (Some ex_row) (ex_profile ''alice'') (ex_head_at 3) [] [] ex_conn = Some (None, ?c1)"
    using id by (simp add: push_tx_def push_body_def upsertChannel_def sql_upsert_channel_def getChannelByChannelID_def
        sql_channel_def query_def exec_def next_fault_def ex_conn_def ex_tables_def ex_row_def upsert_def seq_do_def
        push_profile_def)
      (simp add: inserted_channel_def)
  have new: "first_free_id (cn_tabs ?c1) = Some 2"
    by (simp add: first_free_id_def ex_tables_def ex_row_def upt_rec)
  have r1: "sql_channel ''c'' (cn_tabs ?c1) = Some ?row" by (simp add: sql_channel_def ex_tables_def ex_row_def)
  have "\<exists>c2 r2. overlap_steps ex_keys ex_uuid (\<lambda>_. []) (\<lambda>x. x) first_free_id
      \<lparr>ov_conn = ex_conn, ov_checked = []\<rparr> \<lparr>ov_conn = c2, ov_checked = []\<rparr> \<and>
    sql_channel (pr_ChannelID (ex_profile ''alice'')) (cn_tabs c2) = Some r2 \<and> sint (cr_LastSeq r2) < sint (cr_LastSeq ?row) \<and>
    Store_Push ex_keys ex_uuid (\<lambda>_. []) first_free_id ''alice'' (ex_profile ''alice'') (ex_head_at 2) [] [] ?c1 =
      Some (Some (AppError CodePublicChannelStale ''head.last_seq regressed''), ?c1)"
    by (rule push_race_regresses [OF _ ex_check [of 3] ex_check [of 2] _ _ a _ _ _ new])
      (use r1 in \<open>simp_all add: ex_head_at_def ex_conn_def\<close>)
  then show ?thesis by (auto simp: ex_head_at_def)
qed

section \<open>What a push does not check\<close>

text \<open>
  C30. The owner of a channel is not protected: a peer that signs a profile of the channel with
  its own key, and sends it with the head that the owner signed and the store hands out, becomes
  the owner.
\<close>

theorem channel_takeover:
  assumes "cn_faults c = []" "newid (cn_tabs c) = Some i" "sql_channel cid (cn_tabs c) = Some r"
    "ValidateChannelID U cid = None" "pr_ChannelID p = cid" "pr_OwnerPeerID p = attacker" "VerifyProfile L txt (Some p) = None"
    "hd_ChannelID h = cid" "hd_OwnerPeerID h = cr_OwnerPeerID r" "hd_LastSeq h = cr_LastSeq r" "VerifyHead L txt (Some h) = None"
  shows "\<exists>c' r'. Store_Push L U txt newid attacker p h [] [] c = Some (None, c') \<and>
    sql_channel cid (cn_tabs c') = Some r' \<and> cr_OwnerPeerID r' = attacker"
proof -
  have k: "push_check L U txt attacker p h [] c = Some (Inr (Some r, []), c)"
    using assms by (simp add: push_check_def getChannelByChannelID_def query_ok check_old_def check_head_def)
  obtain c' r' where "push_tx newid (Some r) p h [] [] c = Some (None, c')" "sql_channel (pr_ChannelID p) (cn_tabs c') = Some r'"
      "r' = pushed_row i (sql_channel (pr_ChannelID p) (cn_tabs c)) p h"
    by (rule bare_push_commits [where newid = newid, OF assms(1,2)])
  then show ?thesis using k assms(3,5,6) by (simp add: Store_Push_def pushed_row_def)
qed

theorem channel_takeover_witness:
  "cr_OwnerPeerID ex_row = ''alice'' \<and>
   (\<exists>c' r'. Store_Push ex_keys ex_uuid (\<lambda>_. []) first_free_id ''mallory'' (ex_profile ''mallory'') ex_head [] [] ex_conn = Some (None, c') \<and>
      sql_channel ''c'' (cn_tabs c') = Some r' \<and> cr_OwnerPeerID r' = ''mallory'')"
proof
  show "cr_OwnerPeerID ex_row = ''alice''" by (simp add: ex_row_def)
  have "first_free_id (cn_tabs ex_conn) = Some 2"
    by (simp add: first_free_id_def ex_conn_def ex_tables_def ex_row_def upt_rec)
  moreover have "sql_channel ''c'' (cn_tabs ex_conn) = Some ex_row"
    by (simp add: sql_channel_def ex_conn_def ex_tables_def ex_row_def)
  ultimately show "\<exists>c' r'. Store_Push ex_keys ex_uuid (\<lambda>_. []) first_free_id ''mallory'' (ex_profile ''mallory'') ex_head [] [] ex_conn = Some (None, c') \<and>
      sql_channel ''c'' (cn_tabs c') = Some r' \<and> cr_OwnerPeerID r' = ''mallory''"
    by (intro channel_takeover [where i = 2 and r = ex_row]) (simp_all add: ex_row_def ex_conn_def)
qed

text \<open>
  A push whose list of messages holds a null, as JSON allows, makes the handler dereference
  a nil pointer once the profile and the head are verified, whatever the tables hold.
\<close>

lemma push_null_panics:
  assumes "ValidateChannelID U (pr_ChannelID p) = None" "hd_ChannelID h = pr_ChannelID p"
    "VerifyProfile L txt (Some p) = None" "VerifyHead L txt (Some h) = None"
    "dec_slice None (dec_ptr zero_ChannelMessage dec_ChannelMessage) None (JArr (JNull # js)) = Some messages"
  shows "Service_Push L U txt newid (pr_OwnerPeerID p)
    (Some \<lparr>pq_Profile = Some p, pq_Head = Some h, pq_Messages = messages, pq_Changes = changes\<rparr>) c = None"
proof -
  obtain ms where "messages = Some (None # ms)" using assms(5) by (auto simp: dec_slice_def dec_ptr_def)
  then show ?thesis using assms(1-4) by (simp add: Service_Push_def Store_Push_def push_check_def elems_def)
qed

section \<open>What signatures cover\<close>

text \<open>
  C33. The bytes that are signed determine what they stand for, and nothing else: profiles have the same
  bytes if and only if they agree in all but the retention time and the signature; heads, in all but
  the signature; messages, in all but the signature and the content, and their contents in the texts,
  in the images and files but for their sizes, and in the sizes as 64-bit floats. For contents with
  all sizes below 2^53 this means that the contents are the same, up to an empty list being no list.
  (Beyond that two sizes may have the same bytes, see canonical_size_collision.)
\<close>

theorem channel_signatures_cover:
  assumes "\<forall>p\<in>{p1, p2}. wf_ChannelProfile p" "\<forall>h\<in>{h1, h2}. wf_ChannelHead h" "\<forall>m\<in>{m1, m2}. wf_ChannelMessage m"
  shows "(CanonicalProfile (Some p1) = CanonicalProfile (Some p2) \<longleftrightarrow>
      p1\<lparr>pr_MessageRetentionMinutes := 0, pr_Signature := []\<rparr> = p2\<lparr>pr_MessageRetentionMinutes := 0, pr_Signature := []\<rparr>) \<and>
    (CanonicalHead (Some h1) = CanonicalHead (Some h2) \<longleftrightarrow> h1\<lparr>hd_Signature := []\<rparr> = h2\<lparr>hd_Signature := []\<rparr>) \<and>
    (CanonicalMessage (Some m1) = CanonicalMessage (Some m2) \<longleftrightarrow>
      m1\<lparr>cm_Content := cm_Content m2, cm_Signature := cm_Signature m2\<rparr> = m2 \<and>
      content_floats (cm_Content m1) = content_floats (cm_Content m2)) \<and>
    (small_content (cm_Content m1) \<and> small_content (cm_Content m2) \<longrightarrow>
      (content_floats (cm_Content m1) = content_floats (cm_Content m2) \<longleftrightarrow>
       canonical_copy (cm_Content m1) = canonical_copy (cm_Content m2)))"
proof (intro conjI impI)
  have "json_print (canonical_profile p1) = json_print (canonical_profile p2) \<longleftrightarrow> canonical_profile p1 = canonical_profile p2"
    using assms(1) by (auto dest: json_print_inj simp: canonical_profile_ok)
  then show "CanonicalProfile (Some p1) = CanonicalProfile (Some p2) \<longleftrightarrow>
      p1\<lparr>pr_MessageRetentionMinutes := 0, pr_Signature := []\<rparr> = p2\<lparr>pr_MessageRetentionMinutes := 0, pr_Signature := []\<rparr>"
    by (cases p1; cases p2) (auto simp: CanonicalProfile_def canonical_profile_def dest: canonicalImage_inj)
  have "json_print (canonical_head h1) = json_print (canonical_head h2) \<longleftrightarrow> canonical_head h1 = canonical_head h2"
    using assms(2) by (auto dest: json_print_inj simp: canonical_head_ok)
  then show "CanonicalHead (Some h1) = CanonicalHead (Some h2) \<longleftrightarrow> h1\<lparr>hd_Signature := []\<rparr> = h2\<lparr>hd_Signature := []\<rparr>"
    by (cases h1; cases h2) (auto simp: CanonicalHead_def canonical_head_def)
  let ?j = "\<lambda>m. canonical_message m (f64_json (canonical_content (cm_Content m)))"
  have "json_print (?j m1) = json_print (?j m2) \<longleftrightarrow> ?j m1 = ?j m2"
    using assms(3) canonical_message_floats by (auto dest: json_print_inj)
  then have "CanonicalMessage (Some m1) = CanonicalMessage (Some m2) \<longleftrightarrow> ?j m1 = ?j m2"
    using assms(3) by (simp add: CanonicalMessage_wf)
  also have "\<dots> \<longleftrightarrow> m1\<lparr>cm_Content := cm_Content m2, cm_Signature := cm_Signature m2\<rparr> = m2 \<and>
      f64_json (canonical_content (cm_Content m1)) = f64_json (canonical_content (cm_Content m2))"
    by (cases m1; cases m2) (auto simp: canonical_message_def)
  finally show "CanonicalMessage (Some m1) = CanonicalMessage (Some m2) \<longleftrightarrow>
      m1\<lparr>cm_Content := cm_Content m2, cm_Signature := cm_Signature m2\<rparr> = m2 \<and>
      content_floats (cm_Content m1) = content_floats (cm_Content m2)"
    unfolding content_floats_iff .
qed (rule content_floats_small, blast+)

theorem channel_signatures_cover_witness:
  "CanonicalMessage (Some ex_post) \<noteq> CanonicalMessage (Some (ex_post\<lparr>cm_Version := 2\<rparr>))"
proof -
  have p: "\<forall>p\<in>{ex_profile ''alice'', ex_profile ''alice''}. wf_ChannelProfile p" "\<forall>h\<in>{ex_head, ex_head}. wf_ChannelHead h"
    by (simp_all add: wf_ChannelProfile_def wf_ChannelHead_def ex_profile_def ex_head_def ascii_utf8_valid is_ascii_def)
  have m: "\<forall>m\<in>{ex_post, ex_post\<lparr>cm_Version := 2\<rparr>}. wf_ChannelMessage m"
    using ex_post_wf by (simp add: wf_ChannelMessage_def)
  have "ex_post\<lparr>cm_Content := cm_Content (ex_post\<lparr>cm_Version := 2\<rparr>), cm_Signature := cm_Signature (ex_post\<lparr>cm_Version := 2\<rparr>)\<rparr>
      \<noteq> ex_post\<lparr>cm_Version := 2\<rparr>"
    by (simp add: ex_post_def)
  then show ?thesis
    using channel_signatures_cover [OF p m, THEN conjunct2, THEN conjunct2, THEN conjunct1] by blast
qed

text \<open>
  Beyond what a float holds exactly, the canonical form of a message no longer tells sizes
  apart: the bytes of a file of 9007199254740992 bytes are those of one with a byte more.
\<close>

definition ex_sized :: "int64 \<Rightarrow> ChannelMessage" where
  "ex_sized s = ex_post\<lparr>cm_Content :=
     \<lparr>cc_Text = [], cc_Images = None,
      cc_Files = Some [\<lparr>cf_CID = [], cf_MediaID = [], cf_BlobID = [], cf_SHA256 = [], cf_URL = [], cf_Mime = [],
                         cf_Size = s, cf_Name = []\<rparr>]\<rparr>\<rparr>"

lemma canonical_size_collision:
  "CanonicalMessage (Some (ex_sized 9007199254740992)) = CanonicalMessage (Some (ex_sized 9007199254740993))"
proof -
  have w: "wf_ChannelMessage (ex_sized s)" for s
    using ex_post_wf(1) by (simp add: ex_sized_def wf_ChannelMessage_def wf_ChannelContent_def wf_ChannelFile_def elems_def ascii_utf8_valid is_ascii_def)
  show ?thesis
    unfolding CanonicalMessage_wf [OF w]
    by (simp add: ex_sized_def canonical_message_def canonical_content_def canonicalFile_def elems_def jint_def FormatInt_def
        f64_num_collision)
qed

end
