(* ===== verification/ChannelPaging.thy ===== *)
theory ChannelPaging
  imports ChannelRequests
begin

text \<open>
  Reading channels in pages: all messages of a channel below an id, newest first, and all its
  changes after a number, in order, as the reference that the pages are parts of.
\<close>

section \<open>Pages of a sorted list\<close>

lemma strict_page_up:
  fixes f :: "'a \<Rightarrow> 'b::linorder"
  assumes "sorted_wrt (<) (map f xs)" "0 < n" "n \<le> length xs"
  shows "filter (\<lambda>x. f (last (take n xs)) < f x) xs = drop n xs"
proof -
  define ys y zs where "ys = butlast (take n xs)" and "y = last (take n xs)" and "zs = drop n xs"
  have "take n xs \<noteq> []" using assms(2,3) by auto
  then have "take n xs = ys @ [y]" unfolding ys_def y_def by (rule append_butlast_last_id [symmetric])
  then have xs: "xs = ys @ y # zs" using append_take_drop_id [of n xs] by (simp add: zs_def)
  have "sorted_wrt (<) (map f ys @ f y # map f zs)" using assms(1) unfolding xs by simp
  then have "\<forall>x\<in>set ys. f x < f y" "\<forall>x\<in>set zs. f y < f x" by (auto simp: sorted_wrt_append)
  then have "filter (\<lambda>x. f y < f x) ys = []" "filter (\<lambda>x. f y < f x) zs = zs"
    by (auto simp: filter_empty_conv filter_id_conv)
  then have "filter (\<lambda>x. f y < f x) xs = zs" unfolding xs by simp
  then show ?thesis by (simp only: y_def zs_def)
qed

lemma strict_page_down:
  fixes f :: "'a \<Rightarrow> int"
  assumes "sorted_wrt (>) (map f xs)" "0 < n" "n \<le> length xs"
  shows "filter (\<lambda>x. f x < f (last (take n xs))) xs = drop n xs"
proof -
  have "sorted_wrt (<) (map (\<lambda>x. - f x) xs)" using assms(1) by (simp add: sorted_wrt_map)
  from strict_page_up [OF this assms(2,3)] show ?thesis by simp
qed

text \<open>The rows of one channel that satisfy a condition.\<close>

definition rows_of :: "int64 \<Rightarrow> ('r \<Rightarrow> bool) \<Rightarrow> (int64 \<times> 'r) list \<Rightarrow> 'r list" where
  "rows_of i P xs = [r. (c, r) \<leftarrow> xs, c = i \<and> P r]"

lemma rows_of_simps [simp]:
  "rows_of i P [] = []"
  "rows_of i P ((c, r) # xs) = (if c = i \<and> P r then r # rows_of i P xs else rows_of i P xs)"
  by (simp_all add: rows_of_def)

lemma set_rows_of: "set (rows_of i P xs) = {r. (i, r) \<in> set xs \<and> P r}"
  by (auto simp: rows_of_def)

lemma filter_rows_of: "filter Q (rows_of i P xs) = rows_of i (\<lambda>r. P r \<and> Q r) xs"
  by (induction xs) auto

lemma rows_of_cong: "(\<And>r. (i, r) \<in> set xs \<Longrightarrow> P r \<longleftrightarrow> Q r) \<Longrightarrow> rows_of i P xs = rows_of i Q xs"
  by (induction xs) auto

lemma distinct_rows_of:
  assumes "distinct (map (\<lambda>(c, r). (c, k r)) xs)"
  shows "distinct (map k (rows_of i P xs))"
  using assms by (induction xs) (auto simp: set_rows_of image_iff)

lemma distinct_sint: "distinct (map f xs) \<Longrightarrow> distinct (map (\<lambda>r. sint (f r :: int64)) xs)"
proof -
  assume d: "distinct (map f xs)"
  have "inj (sint :: int64 \<Rightarrow> int)" by (rule injI) (rule signed_word_eqI)
  then have "distinct (map sint (map f xs))" using d by (simp only: distinct_map inj_on_subset [OF _ subset_UNIV] conj_commute)
  then show ?thesis by (simp add: comp_def)
qed

section \<open>Changes\<close>

definition changes_after :: "int64 \<Rightarrow> int64 \<Rightarrow> tables \<Rightarrow> changeRow list" where
  "changes_after i a t = sort_key (\<lambda>r. sint (xr_Seq r)) (rows_of i (\<lambda>r. sint a < sint (xr_Seq r)) (t_changes t))"

lemma sql_changes_page: "sql_changes i a l t = take (nat (sint l)) (changes_after i a t)"
  by (simp add: sql_changes_def changes_after_def rows_of_def)

lemma strict_sort_key:
  "distinct (map f xs) \<Longrightarrow> sorted_wrt (<) (map f (sort_key f xs))"
  unfolding strict_sorted_iff by (simp add: distinct_map)

lemma changes_after_strict:
  assumes "tables_ok t"
  shows "sorted_wrt (<) (map (\<lambda>r. sint (xr_Seq r)) (changes_after i a t))"
proof -
  have "distinct (map xr_Seq (rows_of i (\<lambda>r. sint a < sint (xr_Seq r)) (t_changes t)))"
    using assms by (intro distinct_rows_of) (simp add: tables_ok_def schema_ok_def changes_ok_def)
  then show ?thesis unfolding changes_after_def by (intro strict_sort_key distinct_sint)
qed

lemma changes_after_next:
  assumes "tables_ok t" "0 < n" "n \<le> length (changes_after i a t)"
  shows "changes_after i (xr_Seq (last (take n (changes_after i a t)))) t = drop n (changes_after i a t)"
proof -
  let ?L = "changes_after i a t" and ?f = "\<lambda>r. sint (xr_Seq r)"
  let ?b = "xr_Seq (last (take n ?L))"
  have "take n ?L \<noteq> []" using assms(2,3) by auto
  then have "last (take n ?L) \<in> set ?L" by (meson in_set_takeD last_in_set)
  then have ab: "sint a < sint ?b" by (auto simp: changes_after_def set_rows_of)
  have "drop n ?L = filter (\<lambda>r. sint ?b < ?f r) ?L"
    by (rule strict_page_up [OF changes_after_strict [OF assms(1)] assms(2,3), symmetric])
  also have "\<dots> = sort_key ?f (rows_of i (\<lambda>r. sint a < ?f r \<and> sint ?b < ?f r) (t_changes t))"
    by (simp add: changes_after_def filter_sort filter_rows_of)
  also have "rows_of i (\<lambda>r. sint a < ?f r \<and> sint ?b < ?f r) (t_changes t) = rows_of i (\<lambda>r. sint ?b < ?f r) (t_changes t)"
    by (rule rows_of_cong) (use ab in auto)
  finally show ?thesis by (simp add: changes_after_def)
qed

section \<open>Messages\<close>

definition messages_before :: "int64 \<Rightarrow> int64 option \<Rightarrow> tables \<Rightarrow> messageRow list" where
  "messages_before i b t =
     rev (sort_key (\<lambda>r. sint (mr_MessageID r))
       (rows_of i (\<lambda>r. case b of None \<Rightarrow> True | Some x \<Rightarrow> sint (mr_MessageID r) < sint x) (t_messages t)))"

lemma sql_page_before: "sql_page i b l t = take (nat (sint l)) (messages_before i b t)"
  by (simp add: sql_page_def messages_before_def rows_of_def)

lemma messages_before_strict:
  assumes "tables_ok t"
  shows "sorted_wrt (>) (map (\<lambda>r. sint (mr_MessageID r)) (messages_before i b t))"
proof -
  let ?R = "rows_of i (\<lambda>r. case b of None \<Rightarrow> True | Some x \<Rightarrow> sint (mr_MessageID r) < sint x) (t_messages t)"
  have "distinct (map mr_MessageID ?R)"
    using assms by (intro distinct_rows_of) (simp add: tables_ok_def schema_ok_def messages_ok_def)
  from strict_sort_key [OF distinct_sint [OF this]] show ?thesis
    unfolding messages_before_def rev_map [symmetric] sorted_wrt_rev .
qed

lemma messages_before_next:
  assumes "tables_ok t" "0 < n" "n \<le> length (messages_before i b t)"
  shows "messages_before i (Some (mr_MessageID (last (take n (messages_before i b t))))) t = drop n (messages_before i b t)"
proof -
  let ?L = "messages_before i b t" and ?f = "\<lambda>r. sint (mr_MessageID r)"
  let ?x = "mr_MessageID (last (take n ?L))" and ?P = "\<lambda>r. case b of None \<Rightarrow> True | Some x \<Rightarrow> sint (mr_MessageID r) < sint x"
  have "take n ?L \<noteq> []" using assms(2,3) by auto
  then have "last (take n ?L) \<in> set ?L" by (meson in_set_takeD last_in_set)
  moreover have "?P r" if "r \<in> set ?L" for r using that by (auto simp: messages_before_def set_rows_of)
  ultimately have xb: "case b of None \<Rightarrow> True | Some y \<Rightarrow> sint ?x < sint y" by blast
  have "drop n ?L = filter (\<lambda>r. ?f r < sint ?x) ?L"
    by (rule strict_page_down [OF messages_before_strict [OF assms(1)] assms(2,3), symmetric])
  also have "\<dots> = rev (sort_key ?f (rows_of i (\<lambda>r. ?P r \<and> ?f r < sint ?x) (t_messages t)))"
    by (simp add: messages_before_def rev_filter [symmetric] filter_sort filter_rows_of)
  also have "rows_of i (\<lambda>r. ?P r \<and> ?f r < sint ?x) (t_messages t) = rows_of i (\<lambda>r. ?f r < sint ?x) (t_messages t)"
    by (rule rows_of_cong) (use xb in \<open>auto split: option.splits\<close>)
  finally show ?thesis by (simp add: messages_before_def)
qed

lemma rowToMessage_id: "rowToMessage cid r = Inr m \<Longrightarrow> cm_MessageID m = mr_MessageID r"
  by (auto simp: rowToMessage_def split: sum.splits if_splits)

lemma rows_to_messages_ids:
  "rows_to_messages cid rs = Inr ms \<Longrightarrow> map cm_MessageID ms = map mr_MessageID rs"
  by (induction rs arbitrary: ms) (auto split: sum.splits dest: rowToMessage_id)

end
