(* ===== verification/ChannelReadTheorems.thy ===== *)
theory ChannelReadTheorems
  imports ChannelExample ChannelPaging
begin

text \<open>
  What readers of public channels get: the profile, the head and the messages of the last push,
  and the history of a channel and of its changes in pages that fit together.
\<close>

section \<open>Reading back\<close>

lemma fold_put_other: "k \<notin> cm_MessageID ` set ms \<Longrightarrow> fold put_row ms M k = M k"
  by (induction ms arbitrary: M) (auto simp: put_row_def)

text \<open>Of several messages with an id, the row is that of the last one.\<close>

lemma fold_put_row:
  "cm_MessageID m \<notin> cm_MessageID ` set vs \<Longrightarrow> fold put_row (us @ m # vs) M (cm_MessageID m) = Some (message_row m)"
  by (simp add: fold_put_other) (simp add: put_row_def)

lemma rowToMessage_row:
  assumes "wf_ChannelContent (cm_Content m)"
  shows "rowToMessage (cm_ChannelID m) (message_row m) = Inr m"
proof -
  have "json_print (enc_ChannelContent (cm_Content m)) \<noteq> []"
    by (simp add: enc_ChannelContent_def)
  then show ?thesis using unmarshal_Content [OF assms]
    by (simp add: rowToMessage_def message_row_def contentJSON_def)
qed

lemma avatar_print:
  assumes "wf_ChannelImage img"
  shows "json_print (enc_ChannelImage img) \<noteq> []" "json_print (enc_ChannelImage img) \<noteq> ''{}''"
proof -
  show "json_print (enc_ChannelImage img) \<noteq> []" by (simp add: enc_ChannelImage_def)
  have "json_parse ''{}'' = Some (JObj [])" by code_simp
  moreover have "json_parse (json_print (enc_ChannelImage img)) = Some (enc_ChannelImage img)"
    using assms by (simp add: json_parse_print wf_enc_Image depth_enc_Image max_nesting_def)
  ultimately show "json_print (enc_ChannelImage img) \<noteq> ''{}''" by (auto simp: enc_ChannelImage_def)
qed

lemma read_avatar:
  assumes "wf_ChannelProfile p"
  shows "(if avatarJSON p \<noteq> [] \<and> avatarJSON p \<noteq> ''{}''
      then (case unmarshal zero_ChannelImage dec_ChannelImage (avatarJSON p) of Inl e \<Rightarrow> Inl e | Inr img \<Rightarrow> Inr (Some img))
      else Inr None) = Inr (pr_Avatar p)"
proof (cases "pr_Avatar p")
  case None
  then show ?thesis by (simp add: avatarJSON_def)
next
  case (Some img)
  then have w: "wf_ChannelImage img" using assms by (simp add: wf_ChannelProfile_def)
  show ?thesis using avatar_print [OF w] unmarshal_Image [OF w] Some by (simp add: avatarJSON_def)
qed

text \<open>
  C34. After a push whose database works, a reader gets the profile that was pushed, except that a
  channel that existed keeps its time of creation; the head, with the owner and the versions of the
  profile; and for each message id in the push the last message that was pushed with it (a push may
  repeat an id; the earlier ones are gone). Texts are valid UTF-8, as those of decoded requests are.
\<close>

theorem channel_read_back:
  assumes "autoincrement newid" "tables_ok (cn_tabs c)" "cn_faults c' = []"
    "Store_Push L U txt newid remote p h (map Some ms) changes c = Some (None, c')"
    "wf_ChannelProfile p"
  shows "Store_GetProfile (pr_ChannelID p) c' =
      (Inr (Some (case sql_channel (pr_ChannelID p) (cn_tabs c) of
         None \<Rightarrow> p | Some r \<Rightarrow> p\<lparr>pr_CreatedAt := cr_CreatedAt r\<rparr>)), c') \<and>
    Store_GetHead (pr_ChannelID p) c' =
      (Inr (Some (h\<lparr>hd_OwnerPeerID := pr_OwnerPeerID p, hd_OwnerVersion := pr_OwnerVersion p,
                    hd_ProfileVersion := pr_ProfileVersion p\<rparr>)), c') \<and>
    (\<forall>us m vs. ms = us @ m # vs \<longrightarrow> cm_MessageID m \<notin> cm_MessageID ` set vs \<longrightarrow> wf_ChannelMessage m \<longrightarrow>
       Store_GetMessage (pr_ChannelID p) (cm_MessageID m) c' = (Inr (Some m), c'))"
proof -
  let ?cid = "pr_ChannelID p"
  obtain i xs where ch: "channel_of ?cid (cn_tabs c') = Some (push_channel i p h ms xs (channel_of ?cid (cn_tabs c)))"
    using autoincrement.Store_Push_effect [OF assms(1) tables_ok_schema [OF assms(2)] assms(4)] by (auto simp: inj_map_eq_map)
  obtain ms' where k: "push_checked L U txt remote p h ms' (sql_channel ?cid (cn_tabs c))" "map Some ms = map Some ms'"
    using Store_Push_None [OF assms(4)] by metis
  then have ids: "hd_ChannelID h = ?cid" "\<forall>m\<in>set ms. cm_ChannelID m = ?cid"
    by (auto simp: push_checked_def inj_map_eq_map)
  obtain r where r: "sql_channel ?cid (cn_tabs c') = Some r"
      and rr: "r = pushed_row i (sql_channel ?cid (cn_tabs c)) p h"
      and msg: "(\<lambda>k. sql_message (cr_ID r) k (cn_tabs c')) = chan_messages (push_channel i p h ms xs (channel_of ?cid (cn_tabs c)))"
    using ch by (auto simp: channel_of_def push_channel_def push_onto_def Let_def chan_row_of [unfolded channel_of_def])
  have cid: "cr_ChannelID r = ?cid" using sql_channel_Some [OF r] by simp
  note q = query_ok [OF assms(3)]
  have row: "cr_AvatarJSON r = avatarJSON p"
    by (cases "sql_channel ?cid (cn_tabs c)") (simp_all add: rr pushed_row_def inserted_channel_def updated_channel_def)
  have "Store_GetProfile ?cid c' =
      (Inr (Some (case sql_channel ?cid (cn_tabs c) of None \<Rightarrow> p | Some r \<Rightarrow> p\<lparr>pr_CreatedAt := cr_CreatedAt r\<rparr>)), c')"
    using cid unfolding Store_GetProfile_def getChannelByChannelID_def q r prod.case sum.case option.case row read_avatar [OF assms(5)]
    by (cases "sql_channel ?cid (cn_tabs c)") (simp_all add: rr pushed_row_def inserted_channel_def updated_channel_def)
  moreover have "Store_GetHead ?cid c' =
      (Inr (Some (h\<lparr>hd_OwnerPeerID := pr_OwnerPeerID p, hd_OwnerVersion := pr_OwnerVersion p,
                    hd_ProfileVersion := pr_ProfileVersion p\<rparr>)), c')"
    using cid ids(1) unfolding Store_GetHead_def getChannelByChannelID_def q r prod.case sum.case option.case
    by (cases "sql_channel ?cid (cn_tabs c)") (simp_all add: rr pushed_row_def inserted_channel_def updated_channel_def)
  moreover have "Store_GetMessage ?cid (cm_MessageID m) c' = (Inr (Some m), c')"
    if m: "ms = us @ m # vs" "cm_MessageID m \<notin> cm_MessageID ` set vs" "wf_ChannelMessage m" for us m vs
  proof -
    have "sql_message (cr_ID r) (cm_MessageID m) (cn_tabs c') = Some (message_row m)"
      using fun_cong [OF msg, of "cm_MessageID m"] fold_put_row [OF m(2), of us] m(1) by (simp add: push_channel_def push_onto_def Let_def)
    moreover have "rowToMessage ?cid (message_row m) = Inr m"
      using rowToMessage_row [of m] m(1,3) ids(2) by (simp add: wf_ChannelMessage_def)
    ultimately show ?thesis by (simp add: Store_GetMessage_def getters q r cid)
  qed
  ultimately show ?thesis by blast
qed

theorem channel_read_back_witness:
  "Store_GetProfile ''c'' ex_conn = (Inr (Some (ex_profile ''alice'')), ex_conn) \<and>
   Store_GetMessage ''c'' 1 ex_conn = (Inr (Some ex_post), ex_conn)"
proof -
  have wf: "wf_ChannelProfile (ex_profile ''alice'')"
    by (simp add: wf_ChannelProfile_def ex_profile_def ascii_utf8_valid is_ascii_def)
  have start: "tables_ok (cn_tabs ex_start)" "cn_faults ex_conn = []" "sql_channel ''c'' (cn_tabs ex_start) = None"
    using tables_ok_empty by (simp_all add: ex_start_def ex_conn_def sql_channel_def) (simp add: empty_tables_def)
  have push: "Store_Push ex_keys ex_uuid (\<lambda>_. []) first_free_id ''alice'' (ex_profile ''alice'') ex_head (map Some [ex_post]) []
      ex_start = Some (None, ex_conn)"
    using ex_push [of "\<lambda>_. []"] by simp
  have c: "pr_ChannelID (ex_profile ''alice'') = ''c''" "cm_MessageID ex_post = 1" by (simp_all add: ex_profile_def ex_post_def)
  note readable = channel_read_back [OF first_free.autoincrement_axioms start(1,2) push wf, unfolded c(1)]
  have "Store_GetMessage ''c'' (cm_MessageID ex_post) ex_conn = (Inr (Some ex_post), ex_conn)"
    by (rule readable [THEN conjunct2, THEN conjunct2, rule_format, of "[]" ex_post "[]"]) (use ex_post_wf in simp_all)
  then show ?thesis using readable start(3) c(2) by simp
qed

section \<open>Pages\<close>

text \<open>
  C35. The pages of a synchronisation fit together: the changes after a number are the items of
  the page followed, if there are more, by the changes after the number that the page names as
  the next; a page that announces more is not empty and moves on.
\<close>

theorem sync_pages_complete:
  assumes "tables_ok (cn_tabs c)" "SyncChanges cid a limit c = (Inr (Some res), c')"
  shows "\<exists>r. sql_channel cid (cn_tabs c) = Some r \<and> sr_CurrentLastSeq res = cr_LastSeq r \<and> length (sr_Items res) \<le> 500 \<and>
    map (row_to_change cid) (changes_after (cr_ID r) a (cn_tabs c)) = sr_Items res @
      (if sr_HasMore res then map (row_to_change cid) (changes_after (cr_ID r) (sr_NextAfterSeq res) (cn_tabs c)) else []) \<and>
    (sr_HasMore res \<longrightarrow> sr_Items res \<noteq> [] \<and> sint a < sint (sr_NextAfterSeq res))"
proof -
  define l where "l = (if sint limit \<le> 0 \<or> 500 < sint limit then 50 else limit)"
  have l: "0 < sint l" "sint l \<le> 500" by (auto simp: l_def)
  have l1: "nat (sint (l + 1)) = Suc (nat (sint l))" using sint_succ [of l] l by simp
  obtain r c1 where g: "getChannelByChannelID cid c = (Inr (Some r), c1)"
    using assms(2) by (auto simp: SyncChanges_def Let_def split: prod.splits sum.splits option.splits)
  then have r: "sql_channel cid (cn_tabs c) = Some r" "cn_tabs c1 = cn_tabs c" by (auto simp: getters dest: query_Inr query_tabs)
  let ?L = "changes_after (cr_ID r) a (cn_tabs c)" and ?n = "nat (sint l)" and ?g = "row_to_change cid"
  obtain rows c2 where q: "query (sql_changes (cr_ID r) a (l + 1)) c1 = (Inr rows, c2)"
    using assms(2) g by (auto simp: SyncChanges_def Let_def l_def split: prod.splits sum.splits)
  have rows: "rows = take (Suc ?n) ?L" using query_Inr [OF q] r(2) by (simp add: sql_changes_page l1)
  have more: "sr_HasMore res \<longleftrightarrow> ?n < length ?L" and items: "sr_Items res = map ?g (take ?n ?L)"
      and cur: "sr_CurrentLastSeq res = cr_LastSeq r"
      and nxt: "sr_NextAfterSeq res = (if sr_Items res = [] then a else ch_Seq (last (sr_Items res)))"
    using assms(2) g q l unfolding SyncChanges_def Let_def l_def [symmetric]
    by (auto simp: rows take_map split: prod.splits option.splits if_splits)
  show ?thesis
  proof (cases "?n < length ?L")
    case False
    then show ?thesis using r more items cur l by simp
  next
    case True
    then have ne: "take ?n ?L \<noteq> []" using l by auto
    then have nx: "sr_NextAfterSeq res = xr_Seq (last (take ?n ?L))" by (simp add: nxt items last_map row_to_change_def)
    have "last (take ?n ?L) \<in> set ?L" using ne by (meson in_set_takeD last_in_set)
    then have "sint a < sint (sr_NextAfterSeq res)" unfolding nx by (auto simp: changes_after_def set_rows_of)
    moreover have "changes_after (cr_ID r) (sr_NextAfterSeq res) (cn_tabs c) = drop ?n ?L"
      unfolding nx by (rule changes_after_next [OF assms(1)]) (use True l in auto)
    moreover have "map ?g ?L = map ?g (take ?n ?L) @ map ?g (drop ?n ?L)"
      unfolding map_append [symmetric] append_take_drop_id by (rule refl)
    ultimately show ?thesis using r more items cur ne True l by auto
  qed
qed

theorem sync_pages_complete_witness:
  "\<exists>res. SyncChanges ''c'' 0 1 ex_conn = (Inr (Some res), ex_conn) \<and> length (sr_Items res) \<le> 500 \<and>
     map (row_to_change ''c'') (changes_after 1 0 ex_tables) = sr_Items res"
proof -
  have "sql_channel ''c'' (cn_tabs ex_conn) = Some ex_row" "cn_faults ex_conn = []" "cr_ID ex_row = 1" "cn_tabs ex_conn = ex_tables"
    by (simp_all add: sql_channel_def ex_conn_def ex_tables_def ex_row_def)
  moreover have "sql_changes 1 0 2 ex_tables = [message_change ex_post]"
    by (simp add: sql_changes_def ex_tables_def message_change_def)
  ultimately obtain res where res: "SyncChanges ''c'' 0 1 ex_conn = (Inr (Some res), ex_conn)" "\<not> sr_HasMore res"
    by (simp add: SyncChanges_def Let_def getters query_ok next_fault_ok)
  have "tables_ok (cn_tabs ex_conn)" using ex_tables_ok by (simp add: ex_conn_def)
  from sync_pages_complete [OF this res(1)] res \<open>cr_ID ex_row = 1\<close> \<open>sql_channel ''c'' (cn_tabs ex_conn) = Some ex_row\<close>
    \<open>cn_tabs ex_conn = ex_tables\<close>
  show ?thesis by auto
qed

text \<open>
  C36. The pages of the history fit together: a page is the newest messages below the id that
  the request names, and what lies below the id of its last message is exactly the rest.
\<close>

theorem list_pages_complete:
  assumes "tables_ok (cn_tabs c)" "Store_ListMessages cid b limit c = (Inr (Some out), c')"
  shows "\<exists>r. sql_channel cid (cn_tabs c) = Some r \<and> 0 < length out \<and> length out \<le> 500 \<and>
    rows_to_messages cid (take (length out) (messages_before (cr_ID r) b (cn_tabs c))) = Inr out \<and>
    messages_before (cr_ID r) (Some (cm_MessageID (last out))) (cn_tabs c)
      = drop (length out) (messages_before (cr_ID r) b (cn_tabs c))"
proof -
  define l where "l = (if sint limit \<le> 0 \<or> 500 < sint limit then 20 else limit)"
  have l: "0 < sint l" "sint l \<le> 500" by (auto simp: l_def)
  obtain r c1 where g: "getChannelByChannelID cid c = (Inr (Some r), c1)"
    using assms(2) by (auto simp: Store_ListMessages_def Let_def split: prod.splits sum.splits option.splits)
  then have r: "sql_channel cid (cn_tabs c) = Some r" "cn_tabs c1 = cn_tabs c" by (auto simp: getters dest: query_Inr query_tabs)
  have cid: "cr_ChannelID r = cid" using sql_channel_Some [OF r(1)] by simp
  let ?L = "messages_before (cr_ID r) b (cn_tabs c)" and ?n = "nat (sint l)"
  obtain rows c2 where q: "query (sql_page (cr_ID r) b l) c1 = (Inr rows, c2)"
    using assms(2) g by (auto simp: Store_ListMessages_def Let_def l_def split: prod.splits sum.splits)
  have rows: "rows = take ?n ?L" using query_Inr [OF q] r(2) by (simp add: sql_page_before)
  have out: "rows_to_messages cid rows = Inr out" "out \<noteq> []"
    using assms(2) g q cid unfolding Store_ListMessages_def Let_def l_def [symmetric]
    by (auto split: prod.splits sum.splits option.splits if_splits)
  have ids: "map cm_MessageID out = map mr_MessageID rows" by (rule rows_to_messages_ids [OF out(1)])
  then have len: "length out = length rows" using map_eq_imp_length_eq by metis
  then have rows': "rows = take (length out) ?L" and le: "length out \<le> length ?L" "length out \<le> ?n" by (auto simp: rows min_def)
  have "cm_MessageID (last out) = mr_MessageID (last rows)"
    using ids out(2) len by (metis last_map length_0_conv)
  then have "messages_before (cr_ID r) (Some (cm_MessageID (last out))) (cn_tabs c) = drop (length out) ?L"
    using messages_before_next [OF assms(1) _ le(1)] out(2) rows' by simp
  then show ?thesis using r out le l rows' by auto
qed

theorem list_pages_complete_witness:
  "Store_ListMessages ''c'' None 20 ex_conn = (Inr (Some [ex_post]), ex_conn) \<and>
   messages_before 1 (Some 1) ex_tables = drop 1 (messages_before 1 None ex_tables)"
proof -
  have r: "sql_channel ''c'' (cn_tabs ex_conn) = Some ex_row" "cn_faults ex_conn = []" "cr_ID ex_row = 1"
      "cn_tabs ex_conn = ex_tables" "cr_ChannelID ex_row = ''c''"
    by (simp_all add: sql_channel_def ex_conn_def ex_tables_def ex_row_def)
  have "sql_page 1 None 20 ex_tables = [message_row ex_post]"
    by (simp add: sql_page_def ex_tables_def)
  moreover have "rowToMessage ''c'' (message_row ex_post) = Inr ex_post"
    using rowToMessage_row [of ex_post] ex_post_wf by (simp add: wf_ChannelMessage_def)
  ultimately have s: "Store_ListMessages ''c'' None 20 ex_conn = (Inr (Some [ex_post]), ex_conn)"
    using r by (simp add: Store_ListMessages_def Let_def getters query_ok next_fault_ok)
  have "tables_ok (cn_tabs ex_conn)" using ex_tables_ok by (simp add: ex_conn_def)
  from list_pages_complete [OF this s] r s show ?thesis by simp
qed

end
