(* ===== verification/GoNet.thy ===== *)
theory GoNet
  imports GoJson
begin

text \<open>
  What the program uses of Go's packages \<open>net\<close>, \<open>path/filepath\<close> and \<open>strings\<close>: IP
  addresses in text, lexical file paths, and the trimming of white space. An IP address is the
  list of its sixteen bytes, as \<open>net.IP\<close> is after parsing.
\<close>

section \<open>IPv4 in text\<close>

text \<open>A decimal field: at most 255, without a leading zero.\<close>

definition ipv4_field :: "string \<Rightarrow> nat option" where
  "ipv4_field s =
     (if all_digits s \<and> (hd s = CHR ''0'' \<longrightarrow> length s = 1) \<and> digits_val s \<le> 255 then Some (digits_val s) else None)"

definition parseIPv4 :: "string \<Rightarrow> nat list option" where
  "parseIPv4 s = (let fs = split_on CHR ''.'' s in if length fs = 4 then those (map ipv4_field fs) else None)"

section \<open>IPv6 in text\<close>

text \<open>The leading hexadecimal digits of a text, and what follows them.\<close>

definition is_hex :: "char \<Rightarrow> bool" where
  "is_hex c \<longleftrightarrow> hex_val c \<noteq> None"

definition hex_num :: "string \<Rightarrow> nat" where
  "hex_num s = foldl (\<lambda>a c. 16 * a + the (hex_val c)) 0 s"

text \<open>
  The loop of \<open>netip.parseIPv6\<close>: the bytes so far, the place of the ellipsis, the rest of the
  text. A group is one to four digits; the last group may be an IPv4 address.
\<close>

lemma dropWhile_shorter: "dropWhile P s = c # r \<Longrightarrow> length r < length s"
  using length_dropWhile_le [of P s] by simp

function parse6_loop :: "nat list \<Rightarrow> nat option \<Rightarrow> string \<Rightarrow> (nat list \<times> nat option \<times> string) option" where
  "parse6_loop ip ell s =
     (if 16 \<le> length ip then Some (ip, ell, s)
      else
        (let ds = takeWhile is_hex s; r = dropWhile is_hex s
         in if ds = [] \<or> 4 < length ds then None
            else if r \<noteq> [] \<and> hd r = CHR ''.'' then
              (if ell = None \<and> length ip \<noteq> 12 then None
               else if 16 < length ip + 4 then None
               else (case parseIPv4 s of None \<Rightarrow> None | Some v4 \<Rightarrow> Some (ip @ v4, ell, [])))
            else
              (let ip' = ip @ [hex_num ds div 256, hex_num ds mod 256]
               in case r of
                    [] \<Rightarrow> Some (ip', ell, [])
                  | c # r1 \<Rightarrow>
                      if c \<noteq> CHR '':'' \<or> r1 = [] then None
                      else if hd r1 = CHR '':'' then
                        (if ell \<noteq> None then None
                         else if tl r1 = [] then Some (ip', Some (length ip'), [])
                         else parse6_loop ip' (Some (length ip')) (tl r1))
                      else parse6_loop ip' ell r1)))"
  by pat_completeness auto

termination
  by (relation "measure (\<lambda>(ip, ell, s). length s)") (auto dest: dropWhile_shorter [OF sym] dropWhile_shorter)

declare parse6_loop.simps [simp del]

text \<open>The end of \<open>netip.parseIPv6\<close>: zeros in the place of the ellipsis.\<close>

definition parse6_end :: "nat list \<Rightarrow> nat option \<Rightarrow> string \<Rightarrow> nat list option" where
  "parse6_end ip ell s =
     (if s \<noteq> [] then None
      else if length ip < 16 then
        (case ell of
           None \<Rightarrow> None
         | Some e \<Rightarrow> Some (take e ip @ replicate (16 - length ip) 0 @ drop e ip))
      else if ell \<noteq> None then None
      else Some ip)"

definition parseIPv6 :: "string \<Rightarrow> nat list option" where
  "parseIPv6 s =
     (if take 2 s = ''::'' then
        (if length s = 2 then Some (replicate 16 0)
         else (case parse6_loop [] (Some 0) (drop 2 s) of None \<Rightarrow> None | Some (ip, ell, r) \<Rightarrow> parse6_end ip ell r))
      else (case parse6_loop [] None s of None \<Rightarrow> None | Some (ip, ell, r) \<Rightarrow> parse6_end ip ell r))"

section \<open>IP addresses\<close>

type_synonym IP = "nat list"

definition v4InV6Prefix :: "nat list" where
  "v4InV6Prefix = [0, 0, 0, 0, 0, 0, 0, 0, 0, 0, 255, 255]"

text \<open>
  \<open>net.ParseIP\<close>: the first dot, colon or percent sign decides what the text is. An address
  with a zone, which follows a percent sign, is not accepted.
\<close>

definition ParseIP :: "string \<Rightarrow> IP option" where
  "ParseIP s =
     (case filter (\<lambda>c. c \<in> set ''.:%'') s of
        [] \<Rightarrow> None
      | c # _ \<Rightarrow>
          if c = CHR ''.'' then map_option (\<lambda>v4. v4InV6Prefix @ v4) (parseIPv4 s)
          else if c = CHR ''%'' \<or> CHR ''%'' \<in> set s then None
          else parseIPv6 s)"

definition To4 :: "IP \<Rightarrow> IP option" where
  "To4 ip = (if length ip = 4 then Some ip else if length ip = 16 \<and> take 12 ip = v4InV6Prefix then Some (drop 12 ip) else None)"

definition ipv4_string :: "nat list \<Rightarrow> string" where
  "ipv4_string ip = join_with CHR ''.'' (map fmt_nat ip)"

definition hex_digit :: "nat \<Rightarrow> char" where
  "hex_digit d = (if d < 10 then digit d else char_of (87 + d))"

fun fmt_hex :: "nat \<Rightarrow> string" where
  "fmt_hex n = (if n < 16 then [hex_digit n] else fmt_hex (n div 16) @ [hex_digit (n mod 16)])"

declare fmt_hex.simps [simp del]

fun groups6 :: "nat list \<Rightarrow> nat list" where
  "groups6 (a # b # bs) = (256 * a + b) # groups6 bs"
| "groups6 _ = []"

text \<open>The first of the longest runs of at least two groups that are zero, as start and end.\<close>

definition zero_run :: "nat list \<Rightarrow> nat \<Rightarrow> nat" where
  "zero_run gs i = length (takeWhile (\<lambda>g. g = 0) (drop i gs))"

definition best_run :: "nat list \<Rightarrow> (nat \<times> nat) option" where
  "best_run gs =
     foldl (\<lambda>b i. let l = zero_run gs i
                  in if 2 \<le> l \<and> (case b of None \<Rightarrow> 0 | Some (s, e) \<Rightarrow> e - s) < l then Some (i, i + l) else b)
       None [0..<8]"

definition ipv6_string :: "nat list \<Rightarrow> string" where
  "ipv6_string ip =
     (let gs = groups6 ip; j = (\<lambda>xs. join_with CHR '':'' (map fmt_hex xs))
      in case best_run gs of
           None \<Rightarrow> j gs
         | Some (s, e) \<Rightarrow> j (take s gs) @ ''::'' @ j (drop e gs))"

definition IP_String :: "IP \<Rightarrow> string" where
  "IP_String ip =
     (case To4 ip of Some v4 \<Rightarrow> ipv4_string v4 | None \<Rightarrow> ipv6_string ip)"

section \<open>File paths\<close>

text \<open>\<open>filepath.Clean\<close> where the separator is a slash.\<close>

fun clean_parts :: "bool \<Rightarrow> string list \<Rightarrow> string list \<Rightarrow> string list" where
  "clean_parts rooted out [] = rev out"
| "clean_parts rooted out (p # ps) =
     (if p = [] \<or> p = ''.'' then clean_parts rooted out ps
      else if p = ''..'' then
        (case out of
           [] \<Rightarrow> clean_parts rooted (if rooted then [] else [''..'']) ps
         | q # qs \<Rightarrow> clean_parts rooted (if q = ''..'' then ''..'' # out else qs) ps)
      else clean_parts rooted (p # out) ps)"

definition filepath_Clean :: "string \<Rightarrow> string" where
  "filepath_Clean p =
     (let rooted = (take 1 p = ''/''); ps = clean_parts rooted [] (split_on CHR ''/'' p);
          body = join_with CHR ''/'' ps
      in if rooted then CHR ''/'' # body else if body = [] then ''.'' else body)"

text \<open>\<open>filepath.Join\<close> of two elements, and \<open>filepath.Dir\<close>.\<close>

definition filepath_Join :: "string \<Rightarrow> string \<Rightarrow> string" where
  "filepath_Join a b =
     (case filter (\<lambda>s. s \<noteq> []) [a, b] of [] \<Rightarrow> [] | ps \<Rightarrow> filepath_Clean (join_with CHR ''/'' ps))"

definition filepath_Dir :: "string \<Rightarrow> string" where
  "filepath_Dir p = filepath_Clean (rev (dropWhile (\<lambda>c. c \<noteq> CHR ''/'') (rev p)))"

section \<open>White space\<close>

text \<open>\<open>strings.TrimSpace\<close>: the white space of Unicode, in UTF-8.\<close>

definition spaces :: "bytes list" where
  "spaces =
     map (\<lambda>n. utf8_encode n)
       ([0x09, 0x0A, 0x0B, 0x0C, 0x0D, 0x20, 0x85, 0xA0, 0x1680] @ [0x2000..<0x200B] @ [0x2028, 0x2029, 0x202F, 0x205F, 0x3000])"

function trim_left :: "bytes list \<Rightarrow> bytes \<Rightarrow> bytes" where
  "trim_left ps s =
     (case find (\<lambda>p. p \<noteq> [] \<and> take (length p) s = p) ps of
        None \<Rightarrow> s
      | Some p \<Rightarrow> trim_left ps (drop (length p) s))"
  by pat_completeness auto

termination
proof (relation "measure (\<lambda>(ps, s). length s)")
  fix ps s p
  assume "find (\<lambda>p. p \<noteq> [] \<and> take (length p) s = p) ps = Some p"
  then have "p \<noteq> []" "take (length p) s = p" by (auto simp: find_Some_iff)
  then have "0 < length p" "s \<noteq> []" by auto
  then show "((ps, drop (length p) s), ps, s) \<in> measure (\<lambda>(ps, s). length s)" by simp
qed simp

declare trim_left.simps [simp del]

definition TrimSpace :: "bytes \<Rightarrow> bytes" where
  "TrimSpace s = rev (trim_left (map rev spaces) (rev (trim_left spaces s)))"

end
