(* ===== verification/Config.thy ===== *)
theory Config
  imports GoNet Codec
begin

text \<open>
  \<open>internal/config/config.go\<close> and \<open>internal/netutil/public_ip.go\<close>: the configuration with its
  defaults, the addresses that a node announces, and how it learns its public address. Reading
  files and decoding YAML are arguments, as are the answers of the HTTP endpoints.
\<close>

section \<open>Configuration\<close>

record NodeConfig =
  nc_ListenAddrs :: "string list"
  nc_AnnounceAddrs :: "string list"
  nc_IdentityKeyPath :: string

record StoreConfig =
  sc_DataDir :: string
  sc_DefaultTTLSec :: int64
  sc_MaxTTLSec :: int64
  sc_MaxMessageSize :: int64
  sc_MaxMessagesPerRecipient :: int64
  sc_MaxBytesPerRecipient :: int64
  sc_FetchLimitMax :: int64

record Config =
  cfg_Node :: NodeConfig
  cfg_Store :: StoreConfig
  cfg_GC_IntervalSec :: int64
  cfg_GC_BatchSize :: int64
  cfg_PerSenderPerMinute :: int64
  cfg_PublicChannel_Enabled :: bool
  cfg_PublicChannel_DBPath :: string

definition DefaultListenAddrs :: "int64 \<Rightarrow> string list" where
  "DefaultListenAddrs port =
     [''/ip4/0.0.0.0/tcp/'' @ FormatInt port, ''/ip4/0.0.0.0/udp/'' @ FormatInt port @ ''/quic-v1'']"

definition Default :: Config where
  "Default =
     \<lparr>cfg_Node = \<lparr>nc_ListenAddrs = DefaultListenAddrs 4001, nc_AnnounceAddrs = [], nc_IdentityKeyPath = []\<rparr>,
      cfg_Store = \<lparr>sc_DataDir = ''./data'', sc_DefaultTTLSec = 2592000, sc_MaxTTLSec = 2592000,
        sc_MaxMessageSize = 262144, sc_MaxMessagesPerRecipient = 5000, sc_MaxBytesPerRecipient = 134217728,
        sc_FetchLimitMax = 500\<rparr>,
      cfg_GC_IntervalSec = 10, cfg_GC_BatchSize = 1000, cfg_PerSenderPerMinute = 100,
      cfg_PublicChannel_Enabled = True, cfg_PublicChannel_DBPath = []\<rparr>"

text \<open>\<open>yaml\<close> decodes a document over a configuration.\<close>

definition Load :: "(string \<Rightarrow> bytes res) \<Rightarrow> (bytes \<Rightarrow> Config \<Rightarrow> Config res) \<Rightarrow> string \<Rightarrow> Config res" where
  "Load readFile yaml path =
     (if path = [] then Inr Default
      else (case readFile path of Inl e \<Rightarrow> Inl e | Inr data \<Rightarrow> yaml data Default))"

section \<open>Announced addresses\<close>

definition announce_addr :: "(string \<Rightarrow> string) \<Rightarrow> string \<Rightarrow> string \<Rightarrow> string \<Rightarrow> string res" where
  "announce_addr quote protocol normalizedIP addr =
     (let parts = split_on CHR ''/'' addr
      in if length parts < 4 then Inl (FmtError (''unsupported listen addr: '' @ quote addr))
         else if parts ! 1 \<noteq> ''ip4'' \<and> parts ! 1 \<noteq> ''ip6''
         then Inl (FmtError (''unsupported listen addr protocol: '' @ quote addr))
         else Inr (join_with CHR ''/'' (parts[1 := protocol, 2 := normalizedIP])))"

fun announce_loop :: "(string \<Rightarrow> string) \<Rightarrow> string \<Rightarrow> string \<Rightarrow> string list \<Rightarrow> string list res" where
  "announce_loop quote protocol normalizedIP [] = Inr []"
| "announce_loop quote protocol normalizedIP (addr # addrs) =
     (case announce_addr quote protocol normalizedIP addr of
        Inl e \<Rightarrow> Inl e
      | Inr a \<Rightarrow>
          (case announce_loop quote protocol normalizedIP addrs of Inl e \<Rightarrow> Inl e | Inr as \<Rightarrow> Inr (a # as)))"

definition BuildAnnounceAddrs :: "(string \<Rightarrow> string) \<Rightarrow> string list \<Rightarrow> string \<Rightarrow> string list res" where
  "BuildAnnounceAddrs quote listenAddrs announceIP =
     (case ParseIP announceIP of
        None \<Rightarrow> Inl (FmtError (''invalid announce ip: '' @ quote announceIP))
      | Some parsedIP \<Rightarrow>
          (case To4 parsedIP of
             Some ipv4 \<Rightarrow> announce_loop quote ''ip4'' (IP_String ipv4) listenAddrs
           | None \<Rightarrow> announce_loop quote ''ip6'' (IP_String parsedIP) listenAddrs))"

section \<open>The public address\<close>

record http_response =
  hr_StatusCode :: nat
  hr_Status :: string
  hr_Body :: reader

definition defaultPublicIPEndpoints :: "string list" where
  "defaultPublicIPEndpoints =
     [''https://api.ipify.org'', ''https://checkip.amazonaws.com'', ''https://icanhazip.com'']"

text \<open>\<open>io.ReadAll\<close> of at most \<open>n\<close> bytes.\<close>

definition ReadAll_limited :: "nat \<Rightarrow> reader \<Rightarrow> bytes res" where
  "ReadAll_limited n r =
     (if n \<le> length (rd_data r) then Inr (take n (rd_data r))
      else if rd_end r = EOF then Inr (rd_data r) else Inl (rd_end r))"

text \<open>\<open>get\<close> is the request with the client: what the endpoint answers, or why there is no answer.\<close>

definition detectPublicIPFromEndpoint ::
  "(string \<Rightarrow> string) \<Rightarrow> (string \<Rightarrow> http_response res) \<Rightarrow> string \<Rightarrow> string res" where
  "detectPublicIPFromEndpoint quote get endpoint =
     (case get endpoint of
        Inl e \<Rightarrow> Inl e
      | Inr resp \<Rightarrow>
          if hr_StatusCode resp \<noteq> 200 then Inl (FmtError (''unexpected status: '' @ hr_Status resp))
          else (case ReadAll_limited 128 (hr_Body resp) of
                  Inl e \<Rightarrow> Inl e
                | Inr body \<Rightarrow>
                    (let ip = TrimSpace body
                     in case ParseIP ip of
                          None \<Rightarrow> Inl (FmtError (''invalid ip response: '' @ quote ip))
                        | Some parsedIP \<Rightarrow>
                            (case To4 parsedIP of
                               Some ipv4 \<Rightarrow> Inr (IP_String ipv4)
                             | None \<Rightarrow> Inr (IP_String parsedIP)))))"

fun join_str :: "string \<Rightarrow> string list \<Rightarrow> string" where
  "join_str sep [] = []"
| "join_str sep [p] = p"
| "join_str sep (p # q # ps) = p @ sep @ join_str sep (q # ps)"

fun detect_loop ::
  "(goerr \<Rightarrow> string) \<Rightarrow> (string \<Rightarrow> string) \<Rightarrow> (string \<Rightarrow> http_response res) \<Rightarrow> string list \<Rightarrow> string list \<Rightarrow> string res" where
  "detect_loop txt quote get [] errs = Inl (FmtError (''detect public ip failed: '' @ join_str ''; '' errs))"
| "detect_loop txt quote get (endpoint # endpoints) errs =
     (case detectPublicIPFromEndpoint quote get endpoint of
        Inr ip \<Rightarrow> Inr ip
      | Inl e \<Rightarrow> detect_loop txt quote get endpoints (errs @ [endpoint @ '': '' @ Error txt e]))"

definition DetectPublicIP ::
  "(goerr \<Rightarrow> string) \<Rightarrow> (string \<Rightarrow> string) \<Rightarrow> (string \<Rightarrow> http_response res) \<Rightarrow> string list \<Rightarrow> string res" where
  "DetectPublicIP txt quote get endpoints =
     detect_loop txt quote get (if endpoints = [] then defaultPublicIPEndpoints else endpoints) []"

end
