(* ===== verification/Wiring.thy ===== *)
theory Wiring
  imports Storage Shard GcWorker Server ChannelService
begin

text \<open>
  How the parts of a node are made and connected: the constructors of the Pebble store
  (\<open>internal/storage/pebble/db.go\<close>), of the services (\<open>internal/service\<close>), of the collector
  (\<open>internal/gc/worker.go\<close>), of the channel store and its service
  (\<open>internal/publicchannel\<close>) and of the two RPC servers (\<open>internal/p2p\<close>), with the table of
  stream handlers in which the servers register.

  What the Go objects share by reference (the database, the two limiters, the counters) is the
  state \<open>node\<close> of theory \<open>Service\<close>; the objects below hold the rest of their fields.
\<close>

section \<open>The Pebble store\<close>

text \<open>The readings of \<open>nowFunc\<close> in the order of its calls, and the locks of the recipients.\<close>

record 'db Store =
  store_db :: 'db
  store_nowFunc :: "nat \<Rightarrow> time"
  store_ackDeleteBatch :: nat
  store_recipientShards :: Manager

definition Open :: "(string \<Rightarrow> 'db res) \<Rightarrow> (nat \<Rightarrow> time) \<Rightarrow> string \<Rightarrow> 'db Store res" where
  "Open pebbleOpen timeNow path =
     (case pebbleOpen path of
        Inl err \<Rightarrow> Inl err
      | Inr db \<Rightarrow>
          Inr \<lparr>store_db = db, store_nowFunc = timeNow, store_ackDeleteBatch = 1000,
               store_recipientShards = New_Manager 256\<rparr>)"

definition Store_SetNowFunc :: "(nat \<Rightarrow> time) option \<Rightarrow> 'db Store \<Rightarrow> 'db Store" where
  "Store_SetNowFunc nowFunc s = (case nowFunc of None \<Rightarrow> s | Some f \<Rightarrow> s\<lparr>store_nowFunc := f\<rparr>)"

text \<open>A store as a value of the interfaces \<open>Storage\<close> and \<open>QuotaStorage\<close>.\<close>

definition store_methods :: "'db pebble \<Rightarrow> 'db Store \<Rightarrow> 'db storage" where
  "store_methods P s =
     \<lparr>i_StoreMessage = StoreMessage P, i_StoreMessageWithQuota = StoreMessageWithQuota P,
      i_FetchMessages = FetchMessages P, i_MarkDelivered = MarkDelivered P,
      i_AckMessages = AckMessages P (store_ackDeleteBatch s), i_DeleteExpired = DeleteExpired P\<rparr>"

text \<open>
  The store that is opened is the one the contract of the storage was shown for, whatever its
  clock, and locking a recipient always finds a mutex.
\<close>

lemma Open_methods:
  assumes "Open pebbleOpen timeNow path = Inr s"
  shows "store_methods P (Store_SetNowFunc f s) = pebble_store P" "pebbleOpen path = Inr (store_db s)"
  using assms
  by (auto simp: Open_def Store_SetNowFunc_def store_methods_def pebble_store_def defaultAckDeleteBatch_def
      split: sum.splits option.splits)

lemma Open_locks:
  assumes "Open pebbleOpen timeNow path = Inr s"
  shows "\<exists>i<256. lock_for (store_recipientShards s) recipientID = Mutex i"
proof -
  have "store_recipientShards s = New_Manager 256" using assms by (auto simp: Open_def split: sum.splits)
  then show ?thesis using lock_for_New [of 256 recipientID] by (auto simp: New_Manager_def)
qed

section \<open>The services\<close>

record StoreServiceObject =
  so_storeCfg :: StoreService
  so_verifier :: verifier

definition NewStoreService :: "verifier \<Rightarrow> int64 \<Rightarrow> int64 \<Rightarrow> int64 \<Rightarrow> int64 \<Rightarrow> int64 \<Rightarrow> StoreServiceObject" where
  "NewStoreService v defaultTTLSec maxTTLSec maxMessageSize maxMessagesPerRecipient maxBytesPerRecipient =
     \<lparr>so_storeCfg =
        \<lparr>ss_defaultTTLSec = defaultTTLSec, ss_maxTTLSec = maxTTLSec, ss_maxMessageSize = maxMessageSize,
         ss_maxMessagesPerRecipient = maxMessagesPerRecipient, ss_maxBytesPerRecipient = maxBytesPerRecipient\<rparr>,
      so_verifier = v\<rparr>"

record FetchService =
  fs_fetchLimitMax :: int64

definition NewFetchService :: "int64 \<Rightarrow> FetchService" where
  "NewFetchService fetchLimitMax = \<lparr>fs_fetchLimitMax = fetchLimitMax\<rparr>"

record AckService =
  as_verifier :: verifier

definition NewAckService :: "verifier \<Rightarrow> AckService" where
  "NewAckService v = \<lparr>as_verifier = v\<rparr>"

section \<open>The collector\<close>

record Worker =
  wk_interval :: int64
  wk_batchSize :: int64

definition NewWorker :: "int64 \<Rightarrow> int64 \<Rightarrow> Worker" where
  "NewWorker interval batchSize = \<lparr>wk_interval = interval, wk_batchSize = batchSize\<rparr>"

text \<open>
  \<open>time.NewTicker\<close> panics on an interval that is not positive, and a panic of the collector's
  goroutine ends the node.
\<close>

definition Worker_Run :: "'st storage \<Rightarrow> Worker \<Rightarrow> event list \<Rightarrow> 'st \<Rightarrow> Metrics \<Rightarrow> ('st \<times> Metrics) option" where
  "Worker_Run S w evs st metrics =
     (if sint (wk_interval w) \<le> 0 then None else Run S (wk_batchSize w) evs st metrics)"

section \<open>The servers\<close>

record Timeouts =
  to_Read :: int64
  to_Write :: int64
  to_Handler :: int64

record RPCServer =
  sv_frameLimits :: FrameLimits
  sv_timeouts :: Timeouts
  sv_storeSvc :: StoreServiceObject
  sv_fetchSvc :: FetchService
  sv_ackSvc :: AckService

definition NewServer :: "FrameLimits \<Rightarrow> Timeouts \<Rightarrow> StoreServiceObject \<Rightarrow> FetchService \<Rightarrow> AckService \<Rightarrow> RPCServer" where
  "NewServer fl to storeSvc fetchSvc ackSvc =
     \<lparr>sv_frameLimits = fl, sv_timeouts = to, sv_storeSvc = storeSvc, sv_fetchSvc = fetchSvc, sv_ackSvc = ackSvc\<rparr>"

text \<open>The service of the channels holds the channel store and nothing else, and that the database.\<close>

record PublicChannelServer =
  pv_frameLimits :: PublicChannelFrameLimits
  pv_timeouts :: Timeouts

definition NewPublicChannelServer :: "PublicChannelFrameLimits \<Rightarrow> Timeouts \<Rightarrow> PublicChannelServer" where
  "NewPublicChannelServer fl to = \<lparr>pv_frameLimits = fl, pv_timeouts = to\<rparr>"

section \<open>Stream handlers\<close>

text \<open>The handlers of a host by protocol; setting one replaces the handler that was there.\<close>

datatype handler = OfflineRPC RPCServer | ChannelRPC PublicChannelServer

type_synonym handlers = "string \<rightharpoonup> handler"

definition Register :: "RPCServer \<Rightarrow> handlers \<Rightarrow> handlers" where
  "Register s hs = hs(RPCProtocol \<mapsto> OfflineRPC s)"

definition channel_Register :: "PublicChannelServer \<Rightarrow> handlers \<Rightarrow> handlers" where
  "channel_Register s hs = hs(PublicChannelRPCProtocol \<mapsto> ChannelRPC s)"

lemma protocols_distinct [simp]: "RPCProtocol \<noteq> PublicChannelRPCProtocol" "PublicChannelRPCProtocol \<noteq> RPCProtocol"
  by (simp_all add: RPCProtocol_def PublicChannelRPCProtocol_def)

text \<open>A method of a server on a stream, with the objects that the server holds.\<close>

definition Server_HandleRPC ::
  "'st storage \<Rightarrow> (goerr \<Rightarrow> string) \<Rightarrow> (string \<Rightarrow> string) \<Rightarrow> RPCServer \<Rightarrow> call_env \<Rightarrow> call_env \<Rightarrow> rpc_stream \<Rightarrow> 'st node \<Rightarrow>
   (writer \<times> stream_end \<times> 'st node) option" where
  "Server_HandleRPC S txt quote s =
     HandleRPC S \<lparr>VerifyMessageEnvelope = VerifyMessageEnvelope (so_verifier (sv_storeSvc s)),
                  VerifyAck = VerifyAck (as_verifier (sv_ackSvc s))\<rparr>
       txt quote (so_storeCfg (sv_storeSvc s)) (fs_fetchLimitMax (sv_fetchSvc s)) (sv_frameLimits s)"

text \<open>
  A stream of a protocol: None when no handler is registered for it, otherwise what its handler
  does (None again when that does not return). The state is that of the offline store and the
  connection to the channel database.
\<close>

definition handle_stream ::
  "'st storage \<Rightarrow> ('pid, 'key) libp2p \<Rightarrow> 'u uuid \<Rightarrow> (goerr \<Rightarrow> string) \<Rightarrow> (string \<Rightarrow> string) \<Rightarrow> (tables \<Rightarrow> int64 option) \<Rightarrow>
   handlers \<Rightarrow> string \<Rightarrow> call_env \<Rightarrow> call_env \<Rightarrow> rpc_stream \<Rightarrow> 'st node \<times> conn \<Rightarrow>
   (writer \<times> stream_end \<times> 'st node \<times> conn) option option" where
  "handle_stream S L U txt quote newid hs protocol c c' stream st =
     (case st of (n, k) \<Rightarrow>
        (case hs protocol of
           None \<Rightarrow> None
         | Some (OfflineRPC s) \<Rightarrow>
             Some (case Server_HandleRPC S txt quote s c c' stream n of
                     None \<Rightarrow> None
                   | Some (w, e, n') \<Rightarrow> Some (w, e, n', k))
         | Some (ChannelRPC s) \<Rightarrow>
             Some (case channel_HandleRPC L U txt quote newid (pv_frameLimits s) stream k of
                     None \<Rightarrow> None
                   | Some (w, e, k') \<Rightarrow> Some (w, e, n, k'))))"

end
