(* ===== verification/App.thy ===== *)
theory App
  imports Config Wiring
begin

text \<open>
  \<open>internal/app/app.go\<close>, \<open>internal/p2p/identity.go\<close>, \<open>internal/p2p/host.go\<close> and
  \<open>internal/publicchannel/db.go\<close>: how a node is put together from its configuration, what it
  opens and closes, and the limits of frames. The operating system, the databases and libp2p
  are arguments: whether each call fails, and what it returns.
\<close>

section \<open>Limits\<close>

definition second :: int64 where "second = 1000000000"

definition protocolTimeouts :: Timeouts where
  "protocolTimeouts = \<lparr>to_Read = 15 * second, to_Write = 15 * second, to_Handler = 30 * second\<rparr>"

definition frameLimits :: "Config \<Rightarrow> FrameLimits" where
  "frameLimits cfg =
     (let smallFrame = 16 * 1024; messageOverhead = 64 * 1024; rpcEnvelopeOverhead = 4096;
          storeRequest = sc_MaxMessageSize (cfg_Store cfg) + messageOverhead;
          fetchResponse0 = sc_MaxMessageSize (cfg_Store cfg) * sc_FetchLimitMax (cfg_Store cfg) + messageOverhead;
          fetchResponse = (if sint fetchResponse0 < sint smallFrame then smallFrame else fetchResponse0);
          rpcReq0 = storeRequest + rpcEnvelopeOverhead;
          rpcReq = (if sint rpcReq0 < sint (smallFrame + rpcEnvelopeOverhead) then smallFrame + rpcEnvelopeOverhead else rpcReq0);
          rpcResp = fetchResponse + rpcEnvelopeOverhead
      in \<lparr>fl_RPCRequest = ucast (rpcReq :: int64), fl_RPCResponse = ucast (rpcResp :: int64)\<rparr>)"

definition publicChannelFrameLimits :: PublicChannelFrameLimits where
  "publicChannelFrameLimits =
     (let maxFrame = 8 * 1024 * 1024 in \<lparr>pfl_RPCRequest = maxFrame, pfl_RPCResponse = maxFrame\<rparr>)"

section \<open>The identity key\<close>

text \<open>
  Files by path, and what the next calls of the system do: an error of reading other than that
  the file does not exist, an error of making the directory, and an error of writing together
  with what it leaves in the file.
\<close>

record os =
  os_files :: "string \<rightharpoonup> bytes"
  os_readErr :: "goerr option"
  os_mkdirErr :: "string \<Rightarrow> goerr option"
  os_writeErr :: "(bytes \<times> goerr) option"

record 'k crypto =
  UnmarshalPrivateKey :: "bytes \<Rightarrow> 'k res"
  GenerateEd25519Key :: "'k res"
  MarshalPrivateKey :: "'k \<Rightarrow> bytes res"

definition create_key :: "'k crypto \<Rightarrow> string \<Rightarrow> os \<Rightarrow> 'k res \<times> os" where
  "create_key K path s =
     (case os_mkdirErr s (filepath_Dir path) of
        Some e \<Rightarrow> (Inl (WrapError ''create identity key dir: '' e), s)
      | None \<Rightarrow>
          (case GenerateEd25519Key K of
             Inl e \<Rightarrow> (Inl (WrapError ''generate private key: '' e), s)
           | Inr privKey \<Rightarrow>
               (case MarshalPrivateKey K privKey of
                  Inl e \<Rightarrow> (Inl (WrapError ''marshal private key: '' e), s)
                | Inr encoded \<Rightarrow>
                    (case os_writeErr s of
                       Some (partial, e) \<Rightarrow>
                         (Inl (WrapError ''write private key: '' e), s\<lparr>os_files := (os_files s)(path \<mapsto> partial)\<rparr>)
                     | None \<Rightarrow> (Inr privKey, s\<lparr>os_files := (os_files s)(path \<mapsto> encoded)\<rparr>)))))"

definition LoadOrCreateIdentityKey :: "'k crypto \<Rightarrow> string \<Rightarrow> os \<Rightarrow> 'k res \<times> os" where
  "LoadOrCreateIdentityKey K path s =
     (case os_readErr s of
        Some e \<Rightarrow> (Inl (WrapError ''read private key: '' e), s)
      | None \<Rightarrow>
          (case os_files s path of
             Some data \<Rightarrow>
               (case UnmarshalPrivateKey K data of
                  Inl e \<Rightarrow> (Inl (WrapError ''unmarshal private key: '' e), s)
                | Inr privKey \<Rightarrow> (Inr privKey, s))
           | None \<Rightarrow> create_key K path s))"

section \<open>The host\<close>

fun parseMultiaddrs :: "(string \<Rightarrow> 'ma res) \<Rightarrow> string list \<Rightarrow> 'ma list res" where
  "parseMultiaddrs newMultiaddr [] = Inr []"
| "parseMultiaddrs newMultiaddr (addr # addrs) =
     (case newMultiaddr addr of
        Inl e \<Rightarrow> Inl e
      | Inr ma \<Rightarrow> (case parseMultiaddrs newMultiaddr addrs of Inl e \<Rightarrow> Inl e | Inr mas \<Rightarrow> Inr (ma # mas)))"

text \<open>The options that a host is made with; without announced addresses it announces its own.\<close>

record ('ma, 'k) host_options =
  ho_listen :: "'ma list"
  ho_identity :: "'k option"
  ho_announce :: "'ma list option"

definition host_options ::
  "(string \<Rightarrow> 'ma res) \<Rightarrow> string list \<Rightarrow> string list \<Rightarrow> 'k option \<Rightarrow> ('ma, 'k) host_options res" where
  "host_options newMultiaddr listenAddrs announceAddrs identityKey =
     (case parseMultiaddrs newMultiaddr listenAddrs of
        Inl e \<Rightarrow> Inl e
      | Inr ls \<Rightarrow>
          if announceAddrs \<noteq> [] then
            (case parseMultiaddrs newMultiaddr announceAddrs of
               Inl e \<Rightarrow> Inl e
             | Inr as \<Rightarrow> Inr \<lparr>ho_listen = ls, ho_identity = identityKey, ho_announce = Some as\<rparr>)
          else Inr \<lparr>ho_listen = ls, ho_identity = identityKey, ho_announce = None\<rparr>)"

definition NewHost ::
  "(string \<Rightarrow> 'ma res) \<Rightarrow> (('ma, 'k) host_options \<Rightarrow> goerr option) \<Rightarrow> string list \<Rightarrow> string list \<Rightarrow> 'k option \<Rightarrow>
   ('ma, 'k) host_options res" where
  "NewHost newMultiaddr libp2pNew listenAddrs announceAddrs identityKey =
     (case host_options newMultiaddr listenAddrs announceAddrs identityKey of
        Inl e \<Rightarrow> Inl e
      | Inr opts \<Rightarrow> (case libp2pNew opts of Some e \<Rightarrow> Inl e | None \<Rightarrow> Inr opts))"

section \<open>The channel database\<close>

text \<open>
  The file of the database: the version in \<open>schema_meta\<close> and the tables, each missing in a new
  file. A migration that fails may have created the tables before. The errors are those of
  \<open>filepath.Abs\<close>, of \<open>sql.Open\<close>, of the migration, of the query and of the insertion of the version,
  and of closing the database after one of the last three, which is ignored. The result is the error,
  whether the database is open, and the file.
\<close>

record db_file =
  db_version :: "int64 option"
  db_tables :: "tables option"

record db_errs =
  de_abs :: "goerr option"
  de_open :: "goerr option"
  de_migrate :: "(bool \<times> goerr) option"
  de_version :: "goerr option"
  de_insert :: "goerr option"
  de_close :: "goerr option"

definition schemaVersion :: int64 where "schemaVersion = 1"

definition migrateSQL :: "db_file \<Rightarrow> db_file" where
  "migrateSQL f = f\<lparr>db_tables := Some (case db_tables f of None \<Rightarrow> empty_tables | Some t \<Rightarrow> t)\<rparr>"

definition channel_Open :: "db_errs \<Rightarrow> db_file \<Rightarrow> goerr option \<times> bool \<times> db_file" where
  "channel_Open de f =
     (case de_abs de of
        Some e \<Rightarrow> (Some (WrapError ''abs db path: '' e), False, f)
      | None \<Rightarrow>
     (case de_open de of
        Some e \<Rightarrow> (Some (WrapError ''open sqlite: '' e), False, f)
      | None \<Rightarrow>
     (case de_migrate de of
        Some (created, e) \<Rightarrow>
          (Some (WrapError ''migrate: '' e), de_close de \<noteq> None, if created then migrateSQL f else f)
      | None \<Rightarrow>
          (let f1 = migrateSQL f
           in case de_version de of
                Some e \<Rightarrow> (Some e, de_close de \<noteq> None, f1)
              | None \<Rightarrow>
                  (case db_version f1 of
                     Some v \<Rightarrow> (None, True, f1)
                   | None \<Rightarrow>
                       (case de_insert de of
                          Some e \<Rightarrow> (Some (WrapError ''set schema version: '' e), de_close de \<noteq> None, f1)
                        | None \<Rightarrow> (None, True, f1\<lparr>db_version := Some schemaVersion\<rparr>)))))))"

section \<open>The node\<close>

text \<open>
  What is open, whether the collector's context is still live, the files of the system, and the
  file of the channel database.
\<close>

record world =
  w_store :: bool
  w_host :: bool
  w_pcStore :: bool
  w_running :: bool
  w_os :: os
  w_db :: "string \<Rightarrow> db_file"

text \<open>What closing a part reports. A part whose closing reports an error counts as still open.\<close>

record close_errs =
  ce_host :: "goerr option"
  ce_pcStore :: "goerr option"
  ce_store :: "goerr option"

definition host_Close :: "goerr option \<Rightarrow> world \<Rightarrow> goerr option \<times> world" where
  "host_Close err w = (case err of Some e \<Rightarrow> (Some e, w) | None \<Rightarrow> (None, w\<lparr>w_host := False\<rparr>))"

definition channel_Close :: "goerr option \<Rightarrow> world \<Rightarrow> goerr option \<times> world" where
  "channel_Close dbErr w = (case dbErr of Some e \<Rightarrow> (Some e, w) | None \<Rightarrow> (None, w\<lparr>w_pcStore := False\<rparr>))"

definition Store_Close :: "goerr option \<Rightarrow> world \<Rightarrow> goerr option \<times> world" where
  "Store_Close dbErr w = (case dbErr of Some e \<Rightarrow> (Some e, w) | None \<Rightarrow> (None, w\<lparr>w_store := False\<rparr>))"

text \<open>\<open>ae_close\<close> is what closing reports when a start that failed gives up what it had opened.\<close>

record ('db, 'ma, 'k, 'pid, 'key) app_env =
  ae_mkdirErr :: "string \<Rightarrow> goerr option"
  ae_openPebble :: "string \<Rightarrow> 'db res"
  ae_timeNow :: "nat \<Rightarrow> time"
  ae_crypto :: "'k crypto"
  ae_libp2p :: "('pid, 'key) libp2p"
  ae_newMultiaddr :: "string \<Rightarrow> 'ma res"
  ae_libp2pNew :: "('ma, 'k) host_options \<Rightarrow> goerr option"
  ae_db :: db_errs
  ae_close :: close_errs
  ae_dbFaults :: "goerr option list"

text \<open>The node: its objects, and the state that its services share as it is at the start.\<close>

record ('db, 'ma, 'k) App =
  app_cfg :: Config
  app_node :: "'db node"
  app_host :: "('ma, 'k) host_options"
  app_store :: "'db Store"
  app_server :: RPCServer
  app_handlers :: handlers
  app_pcStore :: "conn option"
  app_cancel :: bool

definition identity_path :: "Config \<Rightarrow> string" where
  "identity_path cfg =
     (if nc_IdentityKeyPath (cfg_Node cfg) = [] then filepath_Join (sc_DataDir (cfg_Store cfg)) ''node_identity.key''
      else nc_IdentityKeyPath (cfg_Node cfg))"

definition db_path :: "Config \<Rightarrow> string" where
  "db_path cfg =
     (if cfg_PublicChannel_DBPath cfg = []
      then filepath_Join (filepath_Clean (sc_DataDir (cfg_Store cfg))) ''public_channels.db''
      else cfg_PublicChannel_DBPath cfg)"

definition make_server :: "('pid, 'key) libp2p \<Rightarrow> Config \<Rightarrow> RPCServer" where
  "make_server L cfg =
     (let c = cfg_Store cfg;
          v = NewVerifier L (sc_DefaultTTLSec c);
          storeSvc = NewStoreService v (sc_DefaultTTLSec c) (sc_MaxTTLSec c) (sc_MaxMessageSize c)
            (sc_MaxMessagesPerRecipient c) (sc_MaxBytesPerRecipient c)
      in NewServer (frameLimits cfg) protocolTimeouts storeSvc (NewFetchService (sc_FetchLimitMax c)) (NewAckService v))"

definition make_app :: "('pid, 'key) libp2p \<Rightarrow> Config \<Rightarrow> 'db Store \<Rightarrow> ('ma, 'k) host_options \<Rightarrow> ('db, 'ma, 'k) App" where
  "make_app L cfg store host =
     (let server = make_server L cfg
      in \<lparr>app_cfg = cfg,
          app_node = \<lparr>n_store = store_db store, n_remoteLimiter = New_Limiter (cfg_PerSenderPerMinute cfg),
            n_senderLimiter = New_Limiter (cfg_PerSenderPerMinute cfg), n_metrics = New_Metrics\<rparr>,
          app_host = host, app_store = store, app_server = server, app_handlers = Register server Map.empty,
          app_pcStore = None, app_cancel = False\<rparr>)"

text \<open>
  The channel store of a node that is otherwise complete: the tables of the file that was
  opened, and what the library will report for the calls to come.
\<close>

definition NewStore :: "goerr option list \<Rightarrow> db_file \<Rightarrow> conn" where
  "NewStore faults f =
     \<lparr>cn_tabs = (case db_tables f of None \<Rightarrow> empty_tables | Some t \<Rightarrow> t), cn_faults = faults\<rparr>"

definition add_channels ::
  "db_errs \<Rightarrow> close_errs \<Rightarrow> goerr option list \<Rightarrow> Config \<Rightarrow> ('db, 'ma, 'k) App \<Rightarrow> world \<Rightarrow>
   ('db, 'ma, 'k) App res \<times> world" where
  "add_channels errs ce faults cfg a w =
     (if \<not> cfg_PublicChannel_Enabled cfg then (Inr a, w)
      else (case channel_Open errs (w_db w (db_path cfg)) of
              (err, opened, f) \<Rightarrow>
                (let w1 = w\<lparr>w_db := (w_db w)(db_path cfg := f), w_pcStore := opened\<rparr>
                 in case err of
                      Some e \<Rightarrow>
                        (Inl (WrapError ''open public channel db: '' e),
                         snd (host_Close (ce_host ce) (snd (Store_Close (ce_store ce) w1))))
                    | None \<Rightarrow>
                        (Inr (a\<lparr>app_handlers := channel_Register
                                   (NewPublicChannelServer publicChannelFrameLimits protocolTimeouts) (app_handlers a),
                                 app_pcStore := Some (NewStore faults f)\<rparr>),
                         w1))))"

definition New ::
  "('db, 'ma, 'k, 'pid, 'key) app_env \<Rightarrow> Config \<Rightarrow> world \<Rightarrow> ('db, 'ma, 'k) App res \<times> world" where
  "New E cfg w =
     (case ae_mkdirErr E (sc_DataDir (cfg_Store cfg)) of
        Some e \<Rightarrow> (Inl e, w)
      | None \<Rightarrow>
     (case Open (ae_openPebble E) (ae_timeNow E) (filepath_Clean (sc_DataDir (cfg_Store cfg))) of
        Inl e \<Rightarrow> (Inl (WrapError ''open pebble: '' e), w)
      | Inr store \<Rightarrow>
     (case LoadOrCreateIdentityKey (ae_crypto E) (identity_path cfg) (w_os w) of
        (Inl e, s) \<Rightarrow>
          (Inl (WrapError ''load node identity: '' e),
           snd (Store_Close (ce_store (ae_close E)) (w\<lparr>w_store := True, w_os := s\<rparr>)))
      | (Inr identityKey, s) \<Rightarrow>
          (case NewHost (ae_newMultiaddr E) (ae_libp2pNew E) (nc_ListenAddrs (cfg_Node cfg))
                  (nc_AnnounceAddrs (cfg_Node cfg)) (Some identityKey) of
             Inl e \<Rightarrow>
               (Inl (WrapError ''create host: '' e),
                snd (Store_Close (ce_store (ae_close E)) (w\<lparr>w_store := True, w_os := s\<rparr>)))
           | Inr host \<Rightarrow>
               add_channels (ae_db E) (ae_close E) (ae_dbFaults E) cfg (make_app (ae_libp2p E) cfg store host)
                 (w\<lparr>w_store := True, w_host := True, w_os := s\<rparr>)))))"

text \<open>
  \<open>Start\<close> keeps the cancellation of the collector's context and starts its goroutine, which
  runs the worker on the events it receives.
\<close>

definition Start :: "('db, 'ma, 'k) App \<Rightarrow> world \<Rightarrow> ('db, 'ma, 'k) App \<times> world" where
  "Start a w = (a\<lparr>app_cancel := True\<rparr>, w\<lparr>w_running := True\<rparr>)"

definition worker :: "('db, 'ma, 'k) App \<Rightarrow> Worker" where
  "worker a = NewWorker (cfg_GC_IntervalSec (app_cfg a) * second) (cfg_GC_BatchSize (app_cfg a))"

definition collector ::
  "'db pebble \<Rightarrow> ('db, 'ma, 'k) App \<Rightarrow> event list \<Rightarrow> 'db \<Rightarrow> Metrics \<Rightarrow> ('db \<times> Metrics) option" where
  "collector P a = Worker_Run (store_methods P (app_store a)) (worker a)"

text \<open>Closing cancels the collector and then stops at the first error: the host, the channel store, the store.\<close>

definition Close :: "close_errs \<Rightarrow> ('db, 'ma, 'k) App \<Rightarrow> world \<Rightarrow> goerr option \<times> world" where
  "Close ce a w =
     (let w0 = (if app_cancel a then w\<lparr>w_running := False\<rparr> else w)
      in case host_Close (ce_host ce) w0 of
           (Some e, w1) \<Rightarrow> (Some e, w1)
         | (None, w1) \<Rightarrow>
             (case (if app_pcStore a = None then (None, w1) else channel_Close (ce_pcStore ce) w1) of
                (Some e, w2) \<Rightarrow> (Some e, w2)
              | (None, w2) \<Rightarrow> Store_Close (ce_store ce) w2))"

definition Host :: "('db, 'ma, 'k) App \<Rightarrow> ('ma, 'k) host_options" where
  "Host a = app_host a"

end
