(* ===== verification/NetFacts.thy ===== *)
theory NetFacts
  imports GoNet
begin

text \<open>
  IP addresses in text read back: what \<open>IP.String\<close> prints is parsed as the same address, and
  what is parsed has sixteen bytes.
\<close>

section \<open>Fields\<close>

lemma hd_fmt_nat: "hd (fmt_nat n) = CHR ''0'' \<Longrightarrow> length (fmt_nat n) = 1"
proof (induction n rule: fmt_nat.induct)
  case (1 n)
  show ?case
  proof (cases "n < 10")
    case True
    then show ?thesis by (simp add: fmt_nat.simps [of n])
  next
    case False
    have step: "fmt_nat n = fmt_nat (n div 10) @ [digit (n mod 10)]" using False by (simp add: fmt_nat.simps [of n])
    then have "hd (fmt_nat (n div 10)) = CHR ''0''" using 1(2) by simp
    then have "length (fmt_nat (n div 10)) = 1" using 1(1) [OF False] by simp
    then have "fmt_nat (n div 10) = [CHR ''0'']" using \<open>hd (fmt_nat (n div 10)) = CHR ''0''\<close>
      by (cases "fmt_nat (n div 10)") auto
    then have "digits_val (fmt_nat (n div 10)) = 0" by (simp add: digits_val_def digit_val_def)
    then have "n div 10 = 0" by (simp only: digits_val_fmt_nat)
    then show ?thesis using False by simp
  qed
qed

lemma ipv4_field_fmt: "n \<le> 255 \<Longrightarrow> ipv4_field (fmt_nat n) = Some n"
  using hd_fmt_nat [of n] by (simp add: ipv4_field_def digits_val_fmt_nat)

lemma ipv4_field_le: "ipv4_field s = Some n \<Longrightarrow> n \<le> 255"
  by (auto simp: ipv4_field_def split: if_splits)

lemma split_join:
  "ps \<noteq> [] \<Longrightarrow> \<forall>p\<in>set ps. c \<notin> set p \<Longrightarrow> split_on c (join_with c ps) = ps"
proof (induction c ps rule: join_with.induct)
  case (2 c p)
  then show ?case by (simp add: split_on_no_sep)
qed simp_all

lemma those_map_Some: "(\<And>x. x \<in> set xs \<Longrightarrow> f x = Some x) \<Longrightarrow> those (map f xs) = Some xs"
  by (induction xs) auto

lemma those_Some: "those ys = Some xs \<Longrightarrow> ys = map Some xs"
  by (induction ys arbitrary: xs) (auto split: option.splits)

lemma fmt_nat_chars: "c \<in> set (fmt_nat n) \<Longrightarrow> is_digit c"
  using fmt_nat_digits [of n] by (auto simp: list_all_iff)

lemma parse_ipv4_string:
  assumes "length v = 4" "\<forall>b\<in>set v. b \<le> 255"
  shows "parseIPv4 (ipv4_string v) = Some v"
proof -
  have "\<forall>p\<in>set (map fmt_nat v). CHR ''.'' \<notin> set p" using fmt_nat_chars is_digit_not_special by fastforce
  then have "split_on CHR ''.'' (ipv4_string v) = map fmt_nat v"
    unfolding ipv4_string_def using assms(1) by (intro split_join) auto
  moreover have "those (map (\<lambda>b. ipv4_field (fmt_nat b)) v) = Some v"
    using assms(2) by (intro those_map_Some) (simp add: ipv4_field_fmt)
  ultimately show ?thesis using assms(1) by (simp add: parseIPv4_def Let_def comp_def)
qed

lemma parseIPv4_bytes: "parseIPv4 s = Some v \<Longrightarrow> length v = 4 \<and> (\<forall>b\<in>set v. b \<le> 255)"
proof -
  assume "parseIPv4 s = Some v"
  then have l: "length (split_on CHR ''.'' s) = 4" and m: "map ipv4_field (split_on CHR ''.'' s) = map Some v"
    by (auto simp: parseIPv4_def Let_def split: if_splits dest: those_Some)
  have "length v = 4" using arg_cong [OF m, of length] l by simp
  moreover have "b \<le> 255" if "b \<in> set v" for b
  proof -
    have "Some b \<in> set (map ipv4_field (split_on CHR ''.'' s))" unfolding m using that by simp
    then show ?thesis by (auto dest: ipv4_field_le [OF sym])
  qed
  ultimately show ?thesis by blast
qed

section \<open>Groups\<close>

lemma hex_val_digit: "d < 16 \<Longrightarrow> hex_val (hex_digit d) = Some d"
proof -
  have "\<forall>d\<in>set [0..<16]. hex_val (hex_digit d) = Some d" by code_simp
  then show "d < 16 \<Longrightarrow> hex_val (hex_digit d) = Some d" by simp
qed

lemma hex_val_less: "hex_val c = Some d \<Longrightarrow> d < 16"
  by (auto simp: hex_val_def is_digit_alt less_eq_char_def split: if_splits)

lemma hex_num_snoc: "hex_num (s @ [c]) = 16 * hex_num s + the (hex_val c)"
  by (simp add: hex_num_def)

lemma hex_num_less: "\<forall>c\<in>set s. is_hex c \<Longrightarrow> hex_num s < 16 ^ length s"
proof (induction s rule: rev_induct)
  case (snoc c s)
  then obtain d where d: "hex_val c = Some d" "d < 16" by (auto simp: is_hex_def dest: hex_val_less)
  have "hex_num s < 16 ^ length s" using snoc by simp
  then have "16 * hex_num s + d < 16 * 16 ^ length s" using d(2) by linarith
  then show ?case by (simp add: hex_num_snoc d(1))
qed (simp add: hex_num_def)

lemma fmt_hex_hex: "c \<in> set (fmt_hex n) \<Longrightarrow> is_hex c"
  by (induction n rule: fmt_hex.induct) (subst (asm) (2) fmt_hex.simps, auto simp: is_hex_def hex_val_digit split: if_splits)

lemma fmt_hex_nonempty [simp]: "fmt_hex n \<noteq> []"
  by (subst fmt_hex.simps) simp

lemma hex_num_fmt [simp]: "hex_num (fmt_hex n) = n"
proof (induction n rule: fmt_hex.induct)
  case (1 n)
  show ?case
  proof (cases "n < 16")
    case True
    then show ?thesis by (simp add: fmt_hex.simps [of n] hex_num_def hex_val_digit)
  next
    case False
    then show ?thesis using 1 by (simp add: fmt_hex.simps [of n] hex_num_snoc hex_val_digit)
  qed
qed

lemma length_fmt_hex: "n < 16 ^ k \<Longrightarrow> 0 < k \<Longrightarrow> length (fmt_hex n) \<le> k"
proof (induction k arbitrary: n)
  case (Suc k)
  show ?case
  proof (cases "n < 16")
    case True
    then show ?thesis by (simp add: fmt_hex.simps [of n])
  next
    case False
    then have "0 < k" using Suc.prems by (cases k) auto
    moreover have "n div 16 < 16 ^ k" using Suc.prems(1) by (simp add: less_mult_imp_div_less mult.commute)
    ultimately show ?thesis using Suc.IH [of "n div 16"] False by (simp add: fmt_hex.simps [of n])
  qed
qed simp

definition bytes6 :: "nat list \<Rightarrow> nat list" where
  "bytes6 gs = concat (map (\<lambda>g. [g div 256, g mod 256]) gs)"

lemma bytes6_simps [simp]: "bytes6 [] = []" "bytes6 (g # gs) = g div 256 # g mod 256 # bytes6 gs"
  "bytes6 (gs @ hs) = bytes6 gs @ bytes6 hs" "length (bytes6 gs) = 2 * length gs"
  by (simp_all add: bytes6_def) (induction gs; simp)

lemma bytes6_zeros: "bytes6 (replicate n 0) = replicate (2 * n) 0"
  by (induction n) simp_all

lemma bytes6_groups6: "even (length ip) \<Longrightarrow> \<forall>b\<in>set ip. b \<le> 255 \<Longrightarrow> bytes6 (groups6 ip) = ip"
  by (induction ip rule: groups6.induct) auto

lemma groups6_less: "\<forall>b\<in>set ip. b \<le> 255 \<Longrightarrow> g \<in> set (groups6 ip) \<Longrightarrow> g < 65536"
  by (induction ip rule: groups6.induct) auto

lemma length_groups6: "length (groups6 ip) = length ip div 2"
  by (induction ip rule: groups6.induct) auto

lemma hex_val_colon [simp]: "hex_val CHR '':'' = None"
  by code_simp

lemma colon_not_hex: "\<not> is_hex CHR '':''"
  by (simp add: is_hex_def)

lemma take_fmt_hex:
  assumes "r = [] \<or> hd r = CHR '':''"
  shows "takeWhile is_hex (fmt_hex g @ r) = fmt_hex g" "dropWhile is_hex (fmt_hex g @ r) = r"
proof -
  have "takeWhile is_hex r = []" "dropWhile is_hex r = r" using assms colon_not_hex by (cases r; auto)+
  then show "takeWhile is_hex (fmt_hex g @ r) = fmt_hex g" "dropWhile is_hex (fmt_hex g @ r) = r"
    using fmt_hex_hex by (simp_all add: takeWhile_append dropWhile_append)
qed

section \<open>Parsing\<close>

lemma length_group: "g < 65536 \<Longrightarrow> length (fmt_hex g) \<le> 4"
  using length_fmt_hex [of g 4] by simp

lemma loop_last:
  assumes "length ip < 16" "g < 65536"
  shows "parse6_loop ip ell (fmt_hex g) = Some (ip @ [g div 256, g mod 256], ell, [])"
proof -
  have "takeWhile is_hex (fmt_hex g) = fmt_hex g" "dropWhile is_hex (fmt_hex g) = []"
    using take_fmt_hex [of "[]" g] by (simp_all only: append_Nil2 simp_thms)
  note tw = this
  show ?thesis using assms length_group [of g] by (subst parse6_loop.simps) (simp add: Let_def tw)
qed

lemma loop_more:
  assumes "length ip < 16" "g < 65536" "r \<noteq> []" "hd r \<noteq> CHR '':''"
  shows "parse6_loop ip ell (fmt_hex g @ CHR '':'' # r) = parse6_loop (ip @ [g div 256, g mod 256]) ell r"
  using assms take_fmt_hex [of "CHR '':'' # r" g] length_group [of g]
  by (subst parse6_loop.simps) (simp add: Let_def)

lemma loop_ellipsis:
  assumes "length ip < 16" "g < 65536"
  shows "parse6_loop ip None (fmt_hex g @ CHR '':'' # CHR '':'' # r) =
    (if r = [] then Some (ip @ [g div 256, g mod 256], Some (length ip + 2), [])
     else parse6_loop (ip @ [g div 256, g mod 256]) (Some (length ip + 2)) r)"
  using assms take_fmt_hex [of "CHR '':'' # CHR '':'' # r" g] length_group [of g]
  by (subst parse6_loop.simps) (simp add: Let_def)

definition join6 :: "nat list \<Rightarrow> string" where
  "join6 gs = join_with CHR '':'' (map fmt_hex gs)"

lemma join6_simps: "join6 [] = []" "join6 [g] = fmt_hex g" "join6 (g # h # gs) = fmt_hex g @ CHR '':'' # join6 (h # gs)"
  by (simp_all add: join6_def)

lemma join6_hd: "gs \<noteq> [] \<Longrightarrow> join6 gs \<noteq> [] \<and> hd (join6 gs) \<noteq> CHR '':''"
proof -
  assume "gs \<noteq> []"
  then obtain g hs where "gs = g # hs" by (cases gs) auto
  moreover have "hd (fmt_hex g) \<noteq> CHR '':''" using fmt_hex_hex [of "hd (fmt_hex g)" g] colon_not_hex by (metis fmt_hex_nonempty list.set_sel(1))
  ultimately show ?thesis by (cases hs) (simp_all add: join6_simps)
qed

lemma loop_groups:
  "gs \<noteq> [] \<Longrightarrow> \<forall>g\<in>set gs. g < 65536 \<Longrightarrow> length ip + 2 * length gs \<le> 16 \<Longrightarrow>
   parse6_loop ip ell (join6 gs) = Some (ip @ bytes6 gs, ell, [])"
proof (induction gs arbitrary: ip)
  case (Cons g gs)
  show ?case
  proof (cases gs)
    case Nil
    then show ?thesis using Cons.prems by (simp add: join6_simps loop_last)
  next
    case (Cons h hs)
    have "parse6_loop ip ell (join6 (g # gs)) = parse6_loop (ip @ [g div 256, g mod 256]) ell (join6 gs)"
      using Cons.prems join6_hd [of gs] Cons by (simp add: join6_simps loop_more)
    then show ?thesis using Cons.IH [of "ip @ [g div 256, g mod 256]"] Cons.prems Cons by simp
  qed
qed simp

lemma loop_gap:
  "gs \<noteq> [] \<Longrightarrow> \<forall>g\<in>set gs. g < 65536 \<Longrightarrow> \<forall>g\<in>set hs. g < 65536 \<Longrightarrow> length ip + 2 * length gs + 2 * length hs \<le> 16 \<Longrightarrow>
   parse6_loop ip None (join6 gs @ ''::'' @ join6 hs) = Some (ip @ bytes6 gs @ bytes6 hs, Some (length ip + 2 * length gs), [])"
proof (induction gs arbitrary: ip)
  case (Cons g gs)
  let ?ip = "ip @ [g div 256, g mod 256]"
  show ?case
  proof (cases gs)
    case Nil
    have "parse6_loop ip None (join6 (g # gs) @ ''::'' @ join6 hs) =
        (if join6 hs = [] then Some (?ip, Some (length ip + 2), []) else parse6_loop ?ip (Some (length ip + 2)) (join6 hs))"
      using Nil Cons.prems by (simp add: join6_simps loop_ellipsis)
    then show ?thesis using Nil Cons.prems join6_hd [of hs] loop_groups [of hs ?ip] by (cases "hs = []") (simp_all add: join6_simps)
  next
    case (Cons h ks)
    have "parse6_loop ip None (join6 (g # gs) @ ''::'' @ join6 hs) = parse6_loop ?ip None (join6 gs @ ''::'' @ join6 hs)"
      using Cons.prems join6_hd [of gs] Cons by (simp add: join6_simps loop_more)
    then show ?thesis using Cons.IH [of ?ip] Cons.prems Cons by simp
  qed
qed simp

section \<open>The run of zeros\<close>

lemma best_run_zeros:
  assumes "best_run gs = Some (s, e)"
  shows "s + 2 \<le> e \<and> e \<le> length gs \<and> gs = take s gs @ replicate (e - s) 0 @ drop e gs"
proof -
  let ?ok = "\<lambda>b. case b of None \<Rightarrow> True | Some (s, e) \<Rightarrow> s + 2 \<le> e \<and> e = s + zero_run gs s"
  let ?f = "\<lambda>b i. let l = zero_run gs i in if 2 \<le> l \<and> (case b of None \<Rightarrow> 0 | Some (s, e) \<Rightarrow> e - s) < l then Some (i, i + l) else b"
  have "?ok (foldl ?f b is)" if "?ok b" for b "is"
    using that by (induction "is" arbitrary: b) (auto simp: Let_def)
  then have "?ok (foldl ?f None [0..<8])" by simp
  then have e: "s + 2 \<le> e" "e = s + zero_run gs s" using assms by (simp_all add: best_run_def)
  have le: "zero_run gs s \<le> length gs - s" unfolding zero_run_def using length_takeWhile_le [of _ "drop s gs"] by simp
  have "\<forall>g\<in>set (takeWhile (\<lambda>g. g = 0) (drop s gs)). g = 0" by (auto dest: set_takeWhileD)
  from replicate_length_same [OF this]
  have "takeWhile (\<lambda>g. g = 0) (drop s gs) = replicate (zero_run gs s) 0" unfolding zero_run_def by (rule sym)
  then have "drop s gs = replicate (e - s) 0 @ dropWhile (\<lambda>g. g = 0) (drop s gs)" using e takeWhile_dropWhile_id by (metis add_diff_cancel_left')
  moreover have "dropWhile (\<lambda>g. g = 0) (drop s gs) = drop e gs"
    using e by (simp add: dropWhile_eq_drop zero_run_def add.commute)
  ultimately show ?thesis using e le append_take_drop_id [of s gs] by auto
qed

section \<open>Addresses read back\<close>

lemma parse_ipv6_string:
  assumes "length ip = 16" "\<forall>b\<in>set ip. b \<le> 255"
  shows "parseIPv6 (ipv6_string ip) = Some ip"
proof -
  let ?gs = "groups6 ip"
  have len: "length ?gs = 8" and small: "\<forall>g\<in>set ?gs. g < 65536" and orig: "bytes6 ?gs = ip"
    using assms groups6_less bytes6_groups6 by (auto simp: length_groups6)
  have ne: "?gs \<noteq> []" using len by auto
  have colon: "take 2 (join6 gs @ r) \<noteq> ''::''" if "gs \<noteq> []" for gs r
    using join6_hd [OF that] by (cases "join6 gs") auto
  show ?thesis
  proof (cases "best_run ?gs")
    case None
    then have str: "ipv6_string ip = join6 ?gs" by (simp add: ipv6_string_def join6_def Let_def)
    have "parse6_loop [] None (join6 ?gs) = Some (ip, None, [])" using loop_groups [OF ne small, of "[]"] len orig by simp
    then show ?thesis using colon [OF ne, of "[]"] assms(1) by (simp add: parseIPv6_def str parse6_end_def)
  next
    case (Some se)
    then obtain s e where run: "best_run ?gs = Some (s, e)" by (cases se) auto
    note z = best_run_zeros [OF run]
    let ?a = "take s ?gs" and ?b = "drop e ?gs"
    have sub: "\<forall>g\<in>set ?a. g < 65536" "\<forall>g\<in>set ?b. g < 65536" using small by (meson in_set_takeD in_set_dropD)+
    have la: "length ?a = s" "length ?b = 8 - e" using z len by auto
    have ip: "ip = bytes6 ?a @ replicate (2 * (e - s)) 0 @ bytes6 ?b"
    proof -
      have "bytes6 ?gs = bytes6 (?a @ replicate (e - s) 0 @ ?b)" using z by simp
      then show ?thesis using orig by (simp add: bytes6_zeros)
    qed
    have str: "ipv6_string ip = join6 ?a @ ''::'' @ join6 ?b" by (simp add: ipv6_string_def join6_def Let_def run)
    have fin: "parse6_end (bytes6 ?a @ bytes6 ?b) (Some (2 * s)) [] = Some ip"
      using z len la by (subst (3) ip) (auto simp: parse6_end_def)
    show ?thesis
    proof (cases "?a = []")
      case True
      have "parse6_loop [] (Some 0) (join6 ?b) = Some (bytes6 ?b, Some 0, [])" if "?b \<noteq> []"
        using loop_groups [of ?b "[]"] that sub(2) la by simp
      moreover have "join6 ?b = [] \<longleftrightarrow> ?b = []" using join6_hd [of ?b] by (auto simp: join6_simps)
      moreover have "s = 0" using True la len by auto
      moreover have "ip = replicate 16 0" if "?b = []"
      proof -
        have "ip = replicate (2 * (e - s)) 0" using ip True that by simp
        then show ?thesis using assms(1) by (metis length_replicate)
      qed
      moreover have "ipv6_string ip = ''::'' @ join6 ?b" using str True by (simp add: join6_simps)
      ultimately show ?thesis using fin True unfolding parseIPv6_def by (cases "?b = []") simp_all
    next
      case False
      have "s + 2 \<le> e" "e \<le> 8" using z len by simp_all
      then have le16: "2 * s + 2 * (8 - e) \<le> 16" by linarith
      have "parse6_loop [] None (join6 ?a @ ''::'' @ join6 ?b) = Some (bytes6 ?a @ bytes6 ?b, Some (2 * s), [])"
        using loop_gap [OF False sub, of "[]"] la le16 by simp
      then show ?thesis using fin colon [OF False, of "''::'' @ join6 ?b"] by (simp add: parseIPv6_def str)
    qed
  qed
qed

lemma ipv4_string_chars: "c \<in> set (ipv4_string v) \<Longrightarrow> is_digit c \<or> c = CHR ''.''"
proof -
  have "set (join_with d ps) \<subseteq> insert d (\<Union>p\<in>set ps. set p)" for d :: char and ps
    by (induction d ps rule: join_with.induct) auto
  then show "c \<in> set (ipv4_string v) \<Longrightarrow> is_digit c \<or> c = CHR ''.''"
    unfolding ipv4_string_def using fmt_nat_chars by fastforce
qed

lemma join6_chars: "c \<in> set (join6 gs) \<Longrightarrow> is_hex c \<or> c = CHR '':''"
  by (induction gs rule: induct_list012) (auto simp: join6_simps dest: fmt_hex_hex)

lemma ipv6_string_chars: "c \<in> set (ipv6_string ip) \<Longrightarrow> is_hex c \<or> c = CHR '':''"
  by (auto simp: ipv6_string_def Let_def join6_def [symmetric] dest: join6_chars split: option.splits)

lemma IP_String_no_slash: "CHR ''/'' \<notin> set (IP_String ip)"
proof -
  have "hex_val CHR ''/'' = None" "\<not> is_digit CHR ''/''" by code_simp+
  then show ?thesis
    using ipv4_string_chars ipv6_string_chars by (fastforce simp: IP_String_def is_hex_def split: option.splits)
qed

lemma parse_To4:
  assumes "length v = 4" "\<forall>b\<in>set v. b \<le> 255"
  shows "ParseIP (ipv4_string v) = Some (v4InV6Prefix @ v)"
proof -
  obtain a b c d where v: "v = [a, b, c, d]" using assms(1) by (auto simp: length_Suc_conv eval_nat_numeral)
  have "filter (\<lambda>c. c \<in> set ''.:%'') (fmt_nat n) = []" for n
    using fmt_nat_chars by (fastforce simp: filter_empty_conv is_digit_alt)
  then have "filter (\<lambda>c. c \<in> set ''.:%'') (ipv4_string v) = ''...''" by (simp add: ipv4_string_def v)
  then show ?thesis using parse_ipv4_string [OF assms] unfolding ParseIP_def by simp
qed

lemma first_colon:
  assumes "CHR '':'' \<in> set s" "CHR ''.'' \<notin> set s" "CHR ''%'' \<notin> set s"
  shows "\<exists>cs. filter (\<lambda>c. c \<in> set ''.:%'') s = CHR '':'' # cs"
  using assms by (induction s) auto

lemma parse_not_To4:
  assumes "length ip = 16" "\<forall>b\<in>set ip. b \<le> 255"
  shows "ParseIP (ipv6_string ip) = Some ip"
proof -
  let ?s = "ipv6_string ip"
  have no: "hex_val CHR ''.'' = None" "hex_val CHR ''%'' = None" by code_simp+
  then have dot: "CHR ''.'' \<notin> set ?s" "CHR ''%'' \<notin> set ?s" using ipv6_string_chars by (fastforce simp: is_hex_def)+
  have colon: "CHR '':'' \<in> set ?s"
  proof (cases "best_run (groups6 ip)")
    case None
    have "length (groups6 ip) = 8" using assms(1) by (simp add: length_groups6)
    then obtain g h gs where "groups6 ip = g # h # gs" by (auto simp: length_Suc_conv eval_nat_numeral)
    with None show ?thesis by (simp add: ipv6_string_def Let_def)
  next
    case (Some se)
    then show ?thesis by (cases se) (simp add: ipv6_string_def Let_def)
  qed
  obtain cs where "filter (\<lambda>c. c \<in> set ''.:%'') ?s = CHR '':'' # cs" using first_colon [OF colon dot] by blast
  then show ?thesis using dot(2) parse_ipv6_string [OF assms] unfolding ParseIP_def by simp
qed

text \<open>What is printed is read as the same address.\<close>

lemma ParseIP_String:
  assumes "length ip = 16" "\<forall>b\<in>set ip. b \<le> 255"
  shows "ParseIP (case To4 ip of Some v4 \<Rightarrow> IP_String v4 | None \<Rightarrow> IP_String ip) = Some ip"
proof (cases "To4 ip")
  case None
  then show ?thesis using parse_not_To4 [OF assms] by (simp add: IP_String_def)
next
  case (Some v)
  then have v: "v = drop 12 ip" "take 12 ip = v4InV6Prefix" using assms(1) by (auto simp: To4_def split: if_splits)
  then have "length v = 4" "\<forall>b\<in>set v. b \<le> 255" "v4InV6Prefix @ v = ip"
    using assms by (auto dest: in_set_dropD) (metis append_take_drop_id)
  then show ?thesis using parse_To4 [of v] Some by (simp add: IP_String_def To4_def)
qed

section \<open>What is parsed\<close>

lemma group_bytes:
  assumes "length ds \<le> 4" "ds = takeWhile is_hex s"
  shows "hex_num ds div 256 \<le> 255" "hex_num ds mod 256 \<le> 255"
proof -
  have "hex_num ds < 16 ^ length ds" unfolding assms(2) by (rule hex_num_less) (auto dest: set_takeWhileD)
  also have "(16::nat) ^ length ds \<le> 16 ^ 4" using assms(1) by (intro power_increasing) auto
  finally show "hex_num ds div 256 \<le> 255" by simp
  show "hex_num ds mod 256 \<le> 255" using pos_mod_bound [of 256 "int (hex_num ds)"] by simp
qed

lemma parse6_loop_bytes:
  "parse6_loop ip ell s = Some (ip', ell', s') \<Longrightarrow> \<forall>b\<in>set ip. b \<le> 255 \<Longrightarrow> even (length ip) \<Longrightarrow> length ip \<le> 16 \<Longrightarrow>
   (\<forall>e. ell = Some e \<longrightarrow> e \<le> length ip) \<Longrightarrow>
   (\<forall>b\<in>set ip'. b \<le> 255) \<and> length ip' \<le> 16 \<and> (\<forall>e. ell' = Some e \<longrightarrow> e \<le> length ip')"
proof (induction ip ell s rule: parse6_loop.induct)
  case (1 ip ell s)
  let ?ds = "takeWhile is_hex s" and ?r = "dropWhile is_hex s"
  let ?ip = "ip @ [hex_num ?ds div 256, hex_num ?ds mod 256]"
  note eq = 1(3) [unfolded parse6_loop.simps [of ip ell s] Let_def]
  show ?case
  proof (cases "16 \<le> length ip")
    case True
    then show ?thesis using eq 1(4,6,7) by simp
  next
    case False
    have "length ip \<noteq> 15" using 1(5) by auto
    then have room: "length ip + 2 \<le> 16" using False by linarith
    have ok: "?ds \<noteq> []" "length ?ds \<le> 4" using eq False by (auto split: if_splits)
    have b: "\<forall>b\<in>set ?ip. b \<le> 255" using 1(4) group_bytes [OF ok(2) refl] by auto
    show ?thesis
    proof (cases "?r \<noteq> [] \<and> hd ?r = CHR ''.''")
      case True
      then obtain v where "parseIPv4 s = Some v" "ip' = ip @ v" "ell' = ell" "length ip + 4 \<le> 16"
        using eq ok False by (auto split: if_splits option.splits)
      then show ?thesis using parseIPv4_bytes [of s v] 1(4,7) by auto
    next
      case dot: False
      show ?thesis
      proof (cases ?r)
        case Nil
        then show ?thesis using eq [unfolded Nil list.case] ok False b room 1(7) by auto
      next
        case (Cons c r1)
        then have c: "c = CHR '':''" "r1 \<noteq> []" using eq ok False dot by (auto split: if_splits)
        have inv: "even (length ?ip)" "length ?ip \<le> 16" using 1(5) room by simp_all
        have g: "\<not> (?ds = [] \<or> 4 < length ?ds)" using ok by simp
        have cg: "\<not> (c \<noteq> CHR '':'' \<or> r1 = [])" using c by simp
        note eq1 = eq [unfolded if_not_P [OF False] if_not_P [OF g] Cons if_not_P [OF dot [unfolded Cons]] list.case if_not_P [OF cg]]
        show ?thesis
        proof (cases "hd r1 = CHR '':''")
          case True
          have "ell = None" using eq1 True by (auto split: if_splits)
          then have n: "\<not> ell \<noteq> None" by simp
          note eq2 = eq1 [unfolded if_P [OF True] if_not_P [OF n]]
          show ?thesis
          proof (cases "tl r1 = []")
            case True
            then show ?thesis using eq2 b inv(2) by auto
          next
            case tl: False
            then have "parse6_loop ?ip (Some (length ?ip)) (tl r1) = Some (ip', ell', s')" using eq2 by simp
            from 1(1) [OF False refl refl g dot refl Cons cg True n tl this b inv] show ?thesis by simp
          qed
        next
          case ell: False
          then have "parse6_loop ?ip ell r1 = Some (ip', ell', s')" using eq1 by simp
          note step = 1(2) [OF False refl refl g dot refl Cons cg ell this b inv]
          have "\<forall>e. ell = Some e \<longrightarrow> e \<le> length ?ip" using 1(7) by auto
          then show ?thesis by (rule step)
        qed
      qed
    qed
  qed
qed

lemma parse6_end_bytes:
  "parse6_end ip ell s = Some ip' \<Longrightarrow> \<forall>b\<in>set ip. b \<le> 255 \<Longrightarrow> length ip \<le> 16 \<Longrightarrow> (\<forall>e. ell = Some e \<longrightarrow> e \<le> length ip) \<Longrightarrow>
   length ip' = 16 \<and> (\<forall>b\<in>set ip'. b \<le> 255)"
  by (auto simp: parse6_end_def split: if_splits option.splits) (blast dest: in_set_takeD in_set_dropD)+

lemma ParseIP_bytes:
  assumes "ParseIP s = Some ip"
  shows "length ip = 16 \<and> (\<forall>b\<in>set ip. b \<le> 255)"
proof -
  have six: "length ip = 16 \<and> (\<forall>b\<in>set ip. b \<le> 255)" if p6: "parseIPv6 s = Some ip" for s
  proof (cases "take 2 s = ''::'' \<and> length s = 2")
    case True
    then show ?thesis using p6 by (simp add: parseIPv6_def) auto
  next
    case False
    then obtain ell0 r0 bs ell r where l: "parse6_loop [] ell0 r0 = Some (bs, ell, r)" "ell0 = None \<or> ell0 = Some 0"
        and e: "parse6_end bs ell r = Some ip"
      using p6 by (auto simp: parseIPv6_def split: if_splits option.splits prod.splits)
    show ?thesis by (rule parse6_end_bytes [OF e]) (use parse6_loop_bytes [OF l(1)] l(2) in auto)
  qed
  have four: "length (v4InV6Prefix @ v) = 16 \<and> (\<forall>b\<in>set (v4InV6Prefix @ v). b \<le> 255)" if "parseIPv4 s = Some v" for v
    using parseIPv4_bytes [OF that] by (auto simp: v4InV6Prefix_def)
  show ?thesis
  proof (cases "filter (\<lambda>c. c \<in> set ''.:%'') s")
    case Nil
    then show ?thesis using assms unfolding ParseIP_def by simp
  next
    case (Cons c cs)
    then show ?thesis using assms six four unfolding ParseIP_def by (auto split: if_splits)
  qed
qed

end
