(* ===== verification/AppFacts.thy ===== *)
theory AppFacts
  imports App NetFacts
begin

text \<open>
  Facts on the wiring of a node: the size of a fetch response in bytes, the limits that the
  configuration gives, and the identity key.
\<close>

section \<open>Lengths of JSON texts\<close>

lemma length_join_with: "length (join_with c ps) \<le> sum_list (map (\<lambda>p. length p + 1) ps)"
  by (induction c ps rule: join_with.induct) auto

lemma length_esc_ascii: "length (esc_ascii c) \<le> 6"
  by (simp add: esc_ascii_def)

lemma length_esc_rune: "length (esc_rune r) \<le> 6 * length r"
  by (simp add: esc_rune_def)

lemma length_json_escape: "length (json_escape s) \<le> 6 * length s"
proof (induction s rule: json_escape.induct)
  case (2 c cs)
  let ?n = "utf8_size (c # cs)"
  consider "is_ascii c" | "\<not> is_ascii c" "?n = 0" | "\<not> is_ascii c" "?n \<noteq> 0" by blast
  then show ?case
  proof cases
    case 1
    then show ?thesis using "2.IH"(1) length_esc_ascii [of c] by (simp add: json_escape.simps)
  next
    case 2
    then show ?thesis using "2.IH"(2) by (simp add: json_escape.simps)
  next
    case 3
    have "length (json_escape (c # cs)) = length (esc_rune (take ?n (c # cs))) + length (json_escape (drop ?n (c # cs)))"
      using 3 by (simp add: json_escape.simps)
    also have "\<dots> \<le> 6 * length (take ?n (c # cs)) + 6 * length (drop ?n (c # cs))"
      using 3 "2.IH"(3) by (intro add_mono length_esc_rune) auto
    also have "\<dots> = 6 * length (take ?n (c # cs) @ drop ?n (c # cs))" by (simp only: length_append distrib_left)
    also have "\<dots> = 6 * length (c # cs)" by (simp only: append_take_drop_id)
    finally show ?thesis .
  qed
qed (simp add: json_escape.simps)

lemma length_quote: "length (json_quote s) \<le> 6 * length s + 2"
  using length_json_escape [of s] by (simp add: json_quote_def)

lemma length_juint: "length (json_print (juint w)) \<le> 20"
proof -
  have "unat w < 2 ^ 64" by (rule unat_less_2_64)
  then have "unat w < 10 ^ 20" by simp
  then show ?thesis using length_fmt_nat_le [of "unat w" 20] by (simp add: juint_def FormatUint_def)
qed

lemma length_jint: "length (json_print (jint w)) \<le> 20"
proof -
  have r: "- (2 ^ 63) \<le> sint w" "sint w < 2 ^ 63" by (rule sint_range64)+
  then have "nat (sint w) < 10 ^ 19" "nat (- sint w) < 10 ^ 19" by simp_all
  then show ?thesis using length_fmt_nat_le [of "nat (sint w)" 19] length_fmt_nat_le [of "nat (- sint w)" 19]
    by (simp add: jint_def FormatInt_def fmt_int_def)
qed

section \<open>The size of a fetch response\<close>

lemma length_StoredMessage:
  assumes "sm_Message x = Some m"
  shows "length (json_print (enc_StoredMessage x)) \<le> 113 + length (marshal_Envelope m)"
  using length_juint [of "StoreSeq x"] length_jint [of "ReceivedAt x"] length_jint [of "ExpireAt x"]
  by (simp add: enc_StoredMessage_def assms marshal_Envelope_def json_quote_def json_escape.simps is_ascii_def esc_ascii_def)

lemma sum_list_le_length: "(\<And>x. x \<in> set xs \<Longrightarrow> f x \<le> (b::nat)) \<Longrightarrow> sum_list (map f xs) \<le> length xs * b"
  by (induction xs) (auto intro!: add_mono)

lemma length_items:
  assumes "\<forall>x\<in>set xs. \<exists>m. sm_Message x = Some m \<and> length (marshal_Envelope m) \<le> b"
  shows "length (json_print (JArr (map enc_StoredMessage xs))) \<le> length xs * (114 + b) + 2"
proof -
  have "length (json_print (enc_StoredMessage x)) + 1 \<le> 114 + b" if "x \<in> set xs" for x
    using assms that length_StoredMessage [of x] by fastforce
  then have "sum_list (map (\<lambda>x. length (json_print (enc_StoredMessage x)) + 1) xs) \<le> length xs * (114 + b)"
    by (rule sum_list_le_length)
  moreover have "length (join_with CHR '','' (map json_print (map enc_StoredMessage xs)))
      \<le> sum_list (map (\<lambda>x. length (json_print (enc_StoredMessage x)) + 1) xs)"
    using length_join_with [of "CHR '',''" "map json_print (map enc_StoredMessage xs)"] by (simp add: comp_def)
  ultimately show ?thesis by simp
qed

lemma length_fetch_response:
  assumes "fresp_OK r" "fresp_ErrorCode r = []" "fresp_ErrorMessage r = []"
    "\<forall>x\<in>set (fresp_Items r). \<exists>m. sm_Message x = Some m \<and> length (marshal_Envelope m) \<le> b"
  shows "length (json_print (enc_RPCResponse (writeRPCFromFetch i r))) \<le> length (fresp_Items r) * (114 + b) + 6 * length i + 200"
proof -
  have "length (json_print (enc_FetchResponse r)) \<le> length (json_print (JArr (map enc_StoredMessage (fresp_Items r)))) + 100"
    by (simp add: enc_FetchResponse_def assms(1-3) json_quote_def json_escape.simps is_ascii_def esc_ascii_def)
  moreover have "length (json_print (enc_RPCResponse (writeRPCFromFetch i r))) \<le>
      length (json_print (enc_FetchResponse r)) + length (json_quote i) + 50"
    by (simp add: enc_RPCResponse_def writeRPCFromFetch_def rpcErrorString_def assms(1) json_quote_def json_escape.simps
        is_ascii_def esc_ascii_def)
  ultimately show ?thesis using length_items [OF assms(4)] length_quote [of i] by linarith
qed

section \<open>The limit of responses\<close>

lemma sint_word_small: "- (2 ^ 63) \<le> k \<Longrightarrow> k < 2 ^ 63 \<Longrightarrow> sint (word_of_int k :: int64) = k"
  unfolding sint_sbintrunc' by (simp add: signed_take_bit_int_eq_self)

lemma len32: "LENGTH(32) = 32" by simp

lemma unat_ucast_small: "0 \<le> k \<Longrightarrow> k < 2 ^ 32 \<Longrightarrow> unat (ucast (word_of_int k :: int64) :: uint32) = nat k"
proof -
  assume k: "0 \<le> k" "k < 2 ^ 32"
  define n where "n = nat k"
  have n: "n < 2 ^ 32" using k by (simp add: n_def nat_less_iff)
  have "word_of_int k = (of_nat n :: int64)" unfolding n_def by (rule word_of_int_nat [OF k(1)])
  moreover have "unat (of_nat n :: int64) = n" using n by (simp add: unsigned_of_nat take_bit_nat_eq_self)
  ultimately have "unat (ucast (word_of_int k :: int64) :: uint32) = take_bit 32 n" by (simp only: unsigned_ucast_eq len32)
  then show ?thesis using n unfolding n_def by (simp only: take_bit_nat_eq_self)
qed


lemma response_limit:
  assumes "0 \<le> sint (sc_MaxMessageSize (cfg_Store cfg))" "0 \<le> sint (sc_FetchLimitMax (cfg_Store cfg))"
    "sint (sc_MaxMessageSize (cfg_Store cfg)) * sint (sc_FetchLimitMax (cfg_Store cfg)) + 69632 < 2 ^ 32"
  shows "unat (fl_RPCResponse (frameLimits cfg)) =
    nat (sint (sc_MaxMessageSize (cfg_Store cfg)) * sint (sc_FetchLimitMax (cfg_Store cfg)) + 69632)"
proof -
  let ?m = "sc_MaxMessageSize (cfg_Store cfg)" and ?f = "sc_FetchLimitMax (cfg_Store cfg)"
  let ?k = "sint ?m * sint ?f"
  have nonneg: "0 \<le> ?k" using assms(1,2) by simp
  have w: "?m * ?f + 64 * 1024 = word_of_int (?k + 65536)" by simp
  have s: "sint (word_of_int (?k + 65536) :: int64) = ?k + 65536" using nonneg assms(3) by (intro sint_word_small) auto
  have "fl_RPCResponse (frameLimits cfg) = ucast (word_of_int (?k + 65536) + 4096 :: int64)"
    using nonneg unfolding frameLimits_def Let_def w s by simp
  also have "(word_of_int (?k + 65536) + 4096 :: int64) = word_of_int (?k + 69632)"
    by simp
  finally show ?thesis using nonneg assms(3) unat_ucast_small [of "?k + 69632"] by simp
qed

end
