(* ===== verification/Command.thy ===== *)
theory Command
  imports App
begin

text \<open>
  \<open>cmd/stored/main.go\<close>: the command line as the package \<open>flag\<close> reads it, the addresses a node
  starts with, and the life of the process from its arguments to its exit code. Log lines are
  left out.
\<close>

section \<open>Integers on the command line\<close>

text \<open>
  \<open>strconv.ParseInt\<close> with base 0: the prefix of the text chooses the base, and underscores may
  stand between digits. None is an error of syntax or of range.
\<close>

definition lower :: "char \<Rightarrow> char" where
  "lower c = (if CHR ''A'' \<le> c \<and> c \<le> CHR ''Z'' then char_of ((of_char c :: nat) + 32) else c)"

definition digit_value :: "char \<Rightarrow> nat option" where
  "digit_value c =
     (if is_digit c then Some (of_char c - 48)
      else if CHR ''a'' \<le> lower c \<and> lower c \<le> CHR ''z'' then Some (of_char (lower c) - 97 + 10)
      else None)"

text \<open>The base, and the text after its prefix.\<close>

definition int_base :: "string \<Rightarrow> nat \<times> string" where
  "int_base s =
     (case s of
        [] \<Rightarrow> (10, s)
      | z # r \<Rightarrow>
          if z \<noteq> CHR ''0'' then (10, s)
          else (case r of
                  [] \<Rightarrow> (8, r)
                | c # t \<Rightarrow>
                    if t \<noteq> [] \<and> lower c = CHR ''b'' then (2, t)
                    else if t \<noteq> [] \<and> lower c = CHR ''o'' then (8, t)
                    else if t \<noteq> [] \<and> lower c = CHR ''x'' then (16, t)
                    else (8, r)))"

fun parse_digits :: "nat \<Rightarrow> nat \<Rightarrow> string \<Rightarrow> nat option" where
  "parse_digits base n [] = Some n"
| "parse_digits base n (c # cs) =
     (if c = CHR ''_'' then parse_digits base n cs
      else (case digit_value c of
              None \<Rightarrow> None
            | Some d \<Rightarrow>
                if base \<le> d \<or> 2 ^ 64 \<le> n * base + d then None else parse_digits base (n * base + d) cs))"

datatype saw = SawStart | SawDigit | SawUnderscore | SawOther

fun underscores_ok :: "bool \<Rightarrow> saw \<Rightarrow> string \<Rightarrow> bool" where
  "underscores_ok hex saw [] = (saw \<noteq> SawUnderscore)"
| "underscores_ok hex saw (c # cs) =
     (if is_digit c \<or> hex \<and> CHR ''a'' \<le> lower c \<and> lower c \<le> CHR ''f'' then underscores_ok hex SawDigit cs
      else if c = CHR ''_'' then saw = SawDigit \<and> underscores_ok hex SawUnderscore cs
      else saw \<noteq> SawUnderscore \<and> underscores_ok hex SawOther cs)"

definition underscoreOK :: "string \<Rightarrow> bool" where
  "underscoreOK s =
     (case s of
        z # c # t \<Rightarrow>
          (if z = CHR ''0'' \<and> lower c \<in> {CHR ''b'', CHR ''o'', CHR ''x''}
           then underscores_ok (lower c = CHR ''x'') SawDigit t
           else underscores_ok False SawStart s)
      | _ \<Rightarrow> underscores_ok False SawStart s)"

definition parse_uint :: "string \<Rightarrow> nat option" where
  "parse_uint s =
     (if s = [] then None
      else (case int_base s of (base, t) \<Rightarrow>
        (case parse_digits base 0 t of
           None \<Rightarrow> None
         | Some n \<Rightarrow> if CHR ''_'' \<in> set t \<and> \<not> underscoreOK s then None else Some n)))"

definition parse_int :: "string \<Rightarrow> int64 option" where
  "parse_int s =
     (case strip_sign s of (neg, body) \<Rightarrow>
        (case parse_uint body of
           None \<Rightarrow> None
         | Some n \<Rightarrow>
             if neg then (if 2 ^ 63 < n then None else Some (word_of_int (- int n)))
             else (if 2 ^ 63 \<le> n then None else Some (word_of_int (int n)))))"

section \<open>Flags\<close>

text \<open>The variables that the flags set.\<close>

record flags =
  fl_configPath :: string
  fl_port :: int64
  fl_announceIP :: string

definition no_flags :: flags where
  "no_flags = \<lparr>fl_configPath = [], fl_port = 0, fl_announceIP = []\<rparr>"

text \<open>The process ends with code 0 when help is asked for, and with code 2 on an error.\<close>

definition set_flag :: "string \<Rightarrow> string \<Rightarrow> flags \<Rightarrow> int + flags" where
  "set_flag name val f =
     (if name = ''config'' then Inr (f\<lparr>fl_configPath := val\<rparr>)
      else if name = ''port'' then
        (case parse_int val of None \<Rightarrow> Inl 2 | Some n \<Rightarrow> Inr (f\<lparr>fl_port := n\<rparr>))
      else Inr (f\<lparr>fl_announceIP := val\<rparr>))"

text \<open>A name up to its first equals sign, which is not its first character, and the value after that.\<close>

definition split_flag :: "string \<Rightarrow> string \<times> string option" where
  "split_flag name =
     (let n = hd name # takeWhile (\<lambda>c. c \<noteq> CHR ''='') (tl name)
      in (n, if length n < length name then Some (drop (Suc (length n)) name) else None))"

text \<open>
  \<open>flag.Parse\<close>: one flag after the other, up to the first argument that is not a flag or the
  argument \<open>--\<close>; what follows is ignored by the program.
\<close>

fun parse_flags :: "string list \<Rightarrow> flags \<Rightarrow> int + flags" where
  "parse_flags [] f = Inr f"
| "parse_flags (s # args) f =
     (if length s < 2 \<or> hd s \<noteq> CHR ''-'' then Inr f
      else if s = ''--'' then Inr f
      else
        (let name = (if s ! 1 = CHR ''-'' then drop 2 s else drop 1 s)
         in if hd name = CHR ''-'' \<or> hd name = CHR ''='' then Inl 2
            else
              (case split_flag name of (n, val) \<Rightarrow>
                 if n \<notin> {''config'', ''port'', ''announce-ip''}
                 then Inl (if n = ''help'' \<or> n = ''h'' then 0 else 2)
                 else
                   (case val of
                      Some v \<Rightarrow> (case set_flag n v f of Inl code \<Rightarrow> Inl code | Inr f' \<Rightarrow> parse_flags args f')
                    | None \<Rightarrow>
                        (case args of
                           [] \<Rightarrow> Inl 2
                         | v # rest \<Rightarrow> (case set_flag n v f of Inl code \<Rightarrow> Inl code | Inr f' \<Rightarrow> parse_flags rest f'))))))"

section \<open>Addresses at start\<close>

text \<open>
  The port and the announced address of the command line override the configuration; without
  either the public address is detected, and a failure to detect it is not fatal.
\<close>

definition start_addrs ::
  "(goerr \<Rightarrow> string) \<Rightarrow> (string \<Rightarrow> string) \<Rightarrow> (string \<Rightarrow> http_response res) \<Rightarrow> int64 \<Rightarrow> string \<Rightarrow> NodeConfig \<Rightarrow>
   NodeConfig res" where
  "start_addrs txt quote get port announceIP node =
     (let node1 = (if 0 < sint port then node\<lparr>nc_ListenAddrs := DefaultListenAddrs port\<rparr> else node);
          announce = (\<lambda>ip. case BuildAnnounceAddrs quote (nc_ListenAddrs node1) ip of
                             Inl e \<Rightarrow> Inl e | Inr as \<Rightarrow> Inr (node1\<lparr>nc_AnnounceAddrs := as\<rparr>))
      in if announceIP \<noteq> [] then announce announceIP
         else if nc_AnnounceAddrs node1 = [] then
           (case DetectPublicIP txt quote get [] of Inl e \<Rightarrow> Inr node1 | Inr ip \<Rightarrow> announce ip)
         else Inr node1)"

section \<open>The process\<close>

text \<open>What the process finds: files, the YAML decoder, the HTTP client, and what a node needs.\<close>

record ('db, 'ma, 'k, 'pid, 'key) main_env =
  me_readFile :: "string \<Rightarrow> bytes res"
  me_yaml :: "bytes \<Rightarrow> Config \<Rightarrow> Config res"
  me_errText :: "goerr \<Rightarrow> string"
  me_quote :: "string \<Rightarrow> string"
  me_get :: "string \<Rightarrow> http_response res"
  me_app :: "('db, 'ma, 'k, 'pid, 'key) app_env"

text \<open>Up to the wait for a signal: an exit code, or a running node.\<close>

definition main_start ::
  "('db, 'ma, 'k, 'pid, 'key) main_env \<Rightarrow> string list \<Rightarrow> world \<Rightarrow> (int + ('db, 'ma, 'k) App) \<times> world" where
  "main_start E args w =
     (case parse_flags args no_flags of
        Inl code \<Rightarrow> (Inl code, w)
      | Inr f \<Rightarrow>
     (case Load (me_readFile E) (me_yaml E) (fl_configPath f) of
        Inl err \<Rightarrow> (Inl 1, w)
      | Inr cfg \<Rightarrow>
     (case start_addrs (me_errText E) (me_quote E) (me_get E) (fl_port f) (fl_announceIP f) (cfg_Node cfg) of
        Inl err \<Rightarrow> (Inl 1, w)
      | Inr node \<Rightarrow>
     (case New (me_app E) (cfg\<lparr>cfg_Node := node\<rparr>) w of
        (Inl err, w1) \<Rightarrow> (Inl 1, w1)
      | (Inr a, w1) \<Rightarrow> (case Start a w1 of (a', w2) \<Rightarrow> (Inr a', w2))))))"

text \<open>
  A running node ends by a signal, and then closes with the error ignored, or by the panic of
  the collector, which needs an interval that is not positive and closes nothing.
\<close>

datatype ending = Signal close_errs | CollectorPanic

definition main_end :: "('db, 'ma, 'k) App \<Rightarrow> ending \<Rightarrow> world \<Rightarrow> (int \<times> world) option" where
  "main_end a en w =
     (case en of
        Signal ce \<Rightarrow> Some (0, snd (Close ce a w))
      | CollectorPanic \<Rightarrow> if sint (wk_interval (worker a)) \<le> 0 then Some (2, w) else None)"

definition main ::
  "('db, 'ma, 'k, 'pid, 'key) main_env \<Rightarrow> string list \<Rightarrow> ending \<Rightarrow> world \<Rightarrow> (int \<times> world) option" where
  "main E args en w =
     (case main_start E args w of
        (Inl code, w') \<Rightarrow> Some (code, w')
      | (Inr a, w') \<Rightarrow> main_end a en w')"

section \<open>Reading flags back\<close>

lemma digit_value_digit: "is_digit c \<Longrightarrow> digit_value c = Some (digit_val c) \<and> digit_val c < 10 \<and> c \<noteq> CHR ''_''"
  by (auto simp: digit_value_def digit_val_def is_digit_alt)

lemma parse_digits_decimal:
  "list_all is_digit s \<Longrightarrow> foldl (\<lambda>a c. 10 * a + digit_val c) n s < 2 ^ 64 \<Longrightarrow>
   parse_digits 10 n s = Some (foldl (\<lambda>a c. 10 * a + digit_val c) n s)"
proof (induction s arbitrary: n)
  case (Cons c s)
  have grow: "m \<le> foldl (\<lambda>a c. 10 * a + digit_val c) m s" for m :: nat and s
  proof (induction s arbitrary: m)
    case (Cons a s)
    have "m \<le> 10 * m + digit_val a" by simp
    also have "\<dots> \<le> foldl (\<lambda>a c. 10 * a + digit_val c) (10 * m + digit_val a) s" by (rule Cons)
    finally show ?case by simp
  qed simp
  have "10 * n + digit_val c < 2 ^ 64" using grow [of "10 * n + digit_val c" s] Cons.prems(2) by simp
  then show ?case using Cons digit_value_digit [of c] by (simp add: mult.commute)
qed simp

lemma fmt_nat_head: "0 < n \<Longrightarrow> hd (fmt_nat n) \<noteq> CHR ''0''"
proof (induction n rule: fmt_nat.induct)
  case (1 n)
  show ?case
  proof (cases "n < 10")
    case True
    then show ?thesis using 1(2) digit_inj [of n 0] by (subst fmt_nat.simps) (simp add: digit_0)
  next
    case False
    then show ?thesis using 1(1) by (subst fmt_nat.simps) (simp add: hd_append)
  qed
qed

lemma parse_uint_fmt_nat:
  assumes "n < 2 ^ 64"
  shows "parse_uint (fmt_nat n) = Some n"
proof (cases "n = 0")
  case True
  have "fmt_nat 0 = ''0''" by (simp add: fmt_nat.simps digit_0)
  then show ?thesis using True by (simp add: parse_uint_def int_base_def)
next
  case False
  obtain c cs where c: "fmt_nat n = c # cs" by (cases "fmt_nat n") auto
  then have "c \<noteq> CHR ''0''" using fmt_nat_head [of n] False by simp
  then have base: "int_base (fmt_nat n) = (10, fmt_nat n)" by (simp add: c int_base_def)
  have "CHR ''_'' \<notin> set (fmt_nat n)"
    using fmt_nat_digits [of n] digit_value_digit by (force simp: list_all_iff)
  moreover have "parse_digits 10 0 (fmt_nat n) = Some n"
    using parse_digits_decimal [of "fmt_nat n" 0] fmt_nat_digits digits_val_fmt_nat [of n] assms by (simp add: digits_val_def)
  ultimately show ?thesis by (simp add: parse_uint_def base)
qed

lemma parse_int_FormatInt: "parse_int (FormatInt n) = Some n"
proof (cases "sint n < 0")
  case True
  let ?m = "nat (- sint n)"
  have m: "?m \<le> 2 ^ 63" using sint_range64 [of n] by simp
  have "parse_uint (fmt_nat ?m) = Some ?m" by (rule parse_uint_fmt_nat) (rule le_less_trans [OF m], simp)
  then show ?thesis using True m by (simp add: parse_int_def strip_sign_def FormatInt_def fmt_int_def)
next
  case False
  let ?m = "nat (sint n)"
  have m: "?m < 2 ^ 63" using sint_range64 [of n] by simp
  have p: "parse_uint (fmt_nat ?m) = Some ?m" by (rule parse_uint_fmt_nat) (rule less_trans [OF m], simp)
  obtain c cs where c: "fmt_nat ?m = c # cs" by (cases "fmt_nat ?m") auto
  have "is_digit c" using fmt_nat_digits [of ?m] c by simp
  then have "c \<noteq> CHR ''-'' \<and> c \<noteq> CHR ''+''" using is_digit_not_special by blast
  then show ?thesis using False m p c by (simp add: parse_int_def strip_sign_def FormatInt_def fmt_int_def)
qed

text \<open>Flags with their values in the next argument are read as they were meant.\<close>

lemma flags_read:
  "parse_flags [''-config'', path, ''--port'', FormatInt n, ''-announce-ip='' @ ip] f =
     Inr \<lparr>fl_configPath = path, fl_port = n, fl_announceIP = ip\<rparr>"
  by (simp add: split_flag_def set_flag_def parse_int_FormatInt Let_def)

text \<open>Reading the flags ends the process only with code 0 or 2.\<close>

lemma set_flag_code: "set_flag n v f = Inl code \<Longrightarrow> code = 2"
  by (auto simp: set_flag_def split: if_splits option.splits)

lemma parse_flags_cons:
  assumes "parse_flags (s # args) f = Inl code"
  shows "code = 0 \<or> code = 2 \<or> (\<exists>f'. parse_flags args f' = Inl code) \<or>
    (\<exists>v rest f'. args = v # rest \<and> parse_flags rest f' = Inl code)"
proof -
  define name where "name = (if s ! 1 = CHR ''-'' then drop 2 s else drop 1 s)"
  obtain n val where nv: "split_flag name = (n, val)" by fastforce
  show ?thesis
  proof (cases "length s < 2 \<or> hd s \<noteq> CHR ''-'' \<or> s = ''--'' \<or> hd name = CHR ''-'' \<or> hd name = CHR ''='' \<or>
      n \<notin> {''config'', ''port'', ''announce-ip''}")
    case True
    then show ?thesis using assms nv by (auto simp: name_def Let_def split: if_splits)
  next
    case False
    then have no: "\<not> (length s < 2 \<or> hd s \<noteq> CHR ''-'')" "s \<noteq> ''--''" "\<not> (hd name = CHR ''-'' \<or> hd name = CHR ''='')"
      "\<not> n \<notin> {''config'', ''port'', ''announce-ip''}" by auto
    show ?thesis
      using assms unfolding parse_flags.simps Let_def if_not_P [OF no(1)] if_not_P [OF no(2)] name_def [symmetric]
        if_not_P [OF no(3)] nv prod.case if_not_P [OF no(4)]
      by (auto dest: set_flag_code split: option.splits list.splits sum.splits)
  qed
qed

lemma parse_flags_code: "parse_flags args f = Inl code \<Longrightarrow> code = 0 \<or> code = 2"
proof (induction "length args" arbitrary: args f rule: less_induct)
  case less
  show ?case
  proof (cases args)
    case Nil
    then show ?thesis using less.prems by simp
  next
    case (Cons s args')
    have shorter: "code = 0 \<or> code = 2" if "length as < length args" "parse_flags as f' = Inl code" for as f'
      by (rule less.hyps [OF that])
    have "length args' < length args" using Cons by simp
    moreover have "length rest < length args" if "args' = v # rest" for v rest using Cons that by simp
    ultimately show ?thesis using parse_flags_cons [OF less.prems [unfolded Cons]] shorter by blast
  qed
qed

end
