(* ===== verification/AppTheorems.thy ===== *)
theory AppTheorems
  imports AppFacts Command ServiceTheorems
begin

text \<open>
  What holds of a node as it is put together: responses fit their frames, nothing stays open
  after a failed start, the identity is kept, and the announced addresses are what they should be.
\<close>

section \<open>Limits\<close>

text \<open>What a successful fetch over mailboxes puts into its response.\<close>

lemma handleFetchRPC_items:
  assumes db: "pebble_db P view" and rep: "repr M (view (n_store n))" and r: "plain remote"
    and h: "handleFetchRPC (pebble_store P) txt mx c c' remote q n = (resp, n')" and ok: "rresp_OK resp"
  obtains items hasMore where
    "resp = writeRPCFromFetch (rpc_RequestID q)
       \<lparr>fresp_OK = True, fresp_Items = items, fresp_HasMore = hasMore, fresp_ErrorCode = [], fresp_ErrorMessage = []\<rparr>"
    "int (length items) \<le> sint mx" "\<forall>x\<in>set items. mb_msgs (M remote) (StoreSeq x) = Some x"
proof -
  obtain req where req: "unmarshal_raw zero_FetchRequest dec_FetchRequest (rpc_Body q) = Inr req"
    using h ok by (auto simp: handleFetchRPC_def writeRPCFromFetch_def split: sum.splits)
  obtain fr n1 where f: "Fetch_Handle (pebble_store P) txt mx c remote (Some req) n = (fr, n1)" by fastforce
  have resp: "resp = writeRPCFromFetch (rpc_RequestID q) fr" using h req f by (auto simp: handleFetchRPC_def)
  then have fok: "fresp_OK fr" using ok by (simp add: writeRPCFromFetch_def)
  obtain rq where rq: "Some req = Some rq" "remote = freq_RecipientID rq" "0 < sint (freq_Limit rq)" "sint (freq_Limit rq) \<le> sint mx"
      "i_FetchMessages (pebble_store P) (c_ctx c) (c_now c) (n_store n) (freq_RecipientID rq) (freq_AfterSeq rq) (freq_Limit rq)
        = Inr (fresp_Items fr, fresp_HasMore fr)"
    by (rule Fetch_Handle_OK [OF f fok])
  have "FetchMessages P (c_ctx c) (c_now c) (n_store n) remote (freq_AfterSeq rq) (freq_Limit rq) = Inr (fresp_Items fr, fresp_HasMore fr)"
    using rq(2,5) by (simp add: pebble_store_def)
  note char = mb_fetch_char [OF repr_ok [OF rep] rq(3) pebble_db.fetch_refines [OF db rep r rq(3) this]]
  have "fr = \<lparr>fresp_OK = True, fresp_Items = fresp_Items fr, fresp_HasMore = fresp_HasMore fr, fresp_ErrorCode = [],
      fresp_ErrorMessage = []\<rparr>"
    using f fok by (auto simp: Fetch_Handle_def fetch_error_def Let_def split: option.splits if_splits sum.splits)
  moreover have "int (length (fresp_Items fr)) \<le> sint mx" using char(3) rq(4) by linarith
  moreover have "\<forall>x\<in>set (fresp_Items fr). mb_msgs (M remote) (StoreSeq x) = Some x"
    using char(2) by (auto simp: fetchable_def)
  ultimately show thesis using that resp by metis
qed

text \<open>
  C37. The response to a fetch fits its frame. If a configuration lets at most 500 messages be fetched
  at once and its limits do not overflow 32 bits, as in the default one, and the store represents
  mailboxes whose messages are within the configured size, as those are that a node has stored (C1),
  then a fetch request with a request id of at most 2000 bytes that succeeds is answered in full: the
  stream gets one frame with the response, within the configured limit, and is closed, not reset.
  (Nothing bounds request ids but the frame of the request.)
\<close>

theorem fetch_response_fits:
  assumes "pebble_db P view" "repr M (view (n_store n))" "plain (str_remote stream)"
    "\<forall>r k sm. mb_msgs (M r) k = Some sm \<longrightarrow>
       (\<exists>m. sm_Message sm = Some m \<and> messageSize m \<le> sint (sc_MaxMessageSize (cfg_Store cfg)))"
    "0 \<le> sint (sc_MaxMessageSize (cfg_Store cfg))" "sint (sc_FetchLimitMax (cfg_Store cfg)) \<le> 500"
    "sint (sc_MaxMessageSize (cfg_Store cfg)) * sint (sc_FetchLimitMax (cfg_Store cfg)) + 69632 < 2 ^ 32"
    "str_readDeadline stream = None" "ReadFrame (str_in stream) (fl_RPCRequest (frameLimits cfg)) = (Inr frame, rest)"
    "unmarshal zero_RPCRequest dec_RPCRequest frame = Inr q" "rpc_RequestID q \<noteq> []" "length (rpc_RequestID q) \<le> 2000"
    "rpc_Method q = MethodOfflineFetch"
    "handleFetchRPC (pebble_store P) txt (sc_FetchLimitMax (cfg_Store cfg)) c c' (str_remote stream) q n = (resp, n')"
    "rresp_OK resp" "str_writeDeadline stream = None" "wr_errs (str_out stream) = []"
    "p = json_print (enc_RPCResponse resp)"
  shows "length p \<le> unat (fl_RPCResponse (frameLimits cfg)) \<and>
    (\<exists>w. HandleRPC (pebble_store P) V txt quote scfg (sc_FetchLimitMax (cfg_Store cfg)) (frameLimits cfg) c c' stream n
        = Some (w, Closed, n') \<and>
      wr_out w = wr_out (str_out stream) @ PutUint32 (of_nat (length p)) @ p)"
proof -
  define M0 where "M0 = nat (sint (sc_MaxMessageSize (cfg_Store cfg)))"
  define F where "F = nat (sint (sc_FetchLimitMax (cfg_Store cfg)))"
  obtain items hasMore where resp: "resp = writeRPCFromFetch (rpc_RequestID q)
       \<lparr>fresp_OK = True, fresp_Items = items, fresp_HasMore = hasMore, fresp_ErrorCode = [], fresp_ErrorMessage = []\<rparr>"
      and items: "int (length items) \<le> sint (sc_FetchLimitMax (cfg_Store cfg))"
        "\<forall>x\<in>set items. mb_msgs (M (str_remote stream)) (StoreSeq x) = Some x"
    by (rule handleFetchRPC_items [OF assms(1-3,14,15)])
  let ?r = "\<lparr>fresp_OK = True, fresp_Items = items, fresp_HasMore = hasMore, fresp_ErrorCode = [], fresp_ErrorMessage = []\<rparr>"
  have pos: "0 \<le> sint (sc_FetchLimitMax (cfg_Store cfg))" using items(1) by linarith
  have mf: "sint (sc_MaxMessageSize (cfg_Store cfg)) = int M0" "sint (sc_FetchLimitMax (cfg_Store cfg)) = int F"
    using assms(5) pos by (simp_all add: M0_def F_def)
  have limit: "unat (fl_RPCResponse (frameLimits cfg)) = M0 * F + 69632"
    using response_limit [OF assms(5) pos assms(7)] unfolding mf by (simp add: nat_add_distrib flip: of_nat_mult)
  have n: "length items \<le> F" "F \<le> 500" "M0 * F + 69632 < 2 ^ 32"
    using assms(6,7) items(1) unfolding mf by (simp_all flip: of_nat_mult)
  have "\<forall>x\<in>set items. \<exists>m. sm_Message x = Some m \<and> length (marshal_Envelope m) \<le> M0"
    using items(2) assms(4) by (fastforce simp: messageSize_def mf)
  then have "length p \<le> length items * (114 + M0) + 6 * length (rpc_RequestID q) + 200"
    using length_fetch_response [of ?r M0 "rpc_RequestID q"] unfolding assms(18) resp by simp
  also have "\<dots> \<le> F * (114 + M0) + 6 * 2000 + 200" using n(1) assms(12) by (intro add_mono mult_le_mono) auto
  also have "\<dots> \<le> M0 * F + 69632" using n(2) by (simp add: algebra_simps)
  finally have le: "length p \<le> M0 * F + 69632" .
  have "p \<noteq> []" unfolding assms(18) by (simp add: enc_RPCResponse_def)
  moreover have "length p < 2 ^ 32" using le n(3) by linarith
  moreover have "(of_nat (length p) :: uint32) \<le> fl_RPCResponse (frameLimits cfg)"
    using le n(3) limit by (simp add: word_le_nat_alt unsigned_of_nat take_bit_nat_eq_self)
  ultimately have "writeRPC (frameLimits cfg) stream resp =
      ((str_out stream)\<lparr>wr_out := wr_out (str_out stream) @ PutUint32 (of_nat (length p)) @ p\<rparr>, Closed)"
    using WriteFrame_ok [OF assms(17), of p] assms(16) by (simp add: writeRPC_def WriteJSON_def assms(18))
  moreover have "MethodOfflineFetch \<noteq> MethodOfflineStore" by (simp add: MethodOfflineStore_def MethodOfflineFetch_def)
  ultimately show ?thesis using le limit assms(8-11,13,14) by (simp add: HandleRPC_def rpc_dispatch_def)
qed

text \<open>Bob fetches his message from a node with the default configuration.\<close>

definition ex_fetch_body :: json where
  "ex_fetch_body = JObj [(''version'', jint 1), (''recipient_id'', JStr ''bob''), (''limit'', jint 10)]"

definition ex_fetch_frame :: bytes where
  "ex_fetch_frame = json_print (JObj [(''request_id'', JStr ''1''), (''method'', JStr MethodOfflineFetch), (''body'', ex_fetch_body)])"

definition ex_fetch_rpc :: RPCRequest where
  "ex_fetch_rpc = \<lparr>rpc_RequestID = ''1'', rpc_Method = MethodOfflineFetch, rpc_Body = Some ex_fetch_body\<rparr>"

definition ex_fetch_stream :: rpc_stream where
  "ex_fetch_stream = \<lparr>str_remote = ''bob'', str_readDeadline = None,
     str_in = \<lparr>rd_data = PutUint32 (of_nat (length ex_fetch_frame)) @ ex_fetch_frame, rd_end = EOF\<rparr>, str_writeDeadline = None,
     str_out = \<lparr>wr_out = [], wr_errs = []\<rparr>\<rparr>"

lemma ex_fetch_decoded: "unmarshal zero_RPCRequest dec_RPCRequest ex_fetch_frame = Inr ex_fetch_rpc"
proof -
  let ?j = "JObj [(''request_id'', JStr ''1''), (''method'', JStr MethodOfflineFetch), (''body'', ex_fetch_body)]"
  have "wf_json ?j" "json_depth ?j \<le> max_nesting"
    by (simp_all add: ex_fetch_body_def MethodOfflineFetch_def ascii_utf8_valid is_ascii_def max_nesting_def)
  then have "json_parse ex_fetch_frame = Some ?j" unfolding ex_fetch_frame_def by (rule json_parse_print)
  moreover have "fold_key ''request_id'' = ''REQUEST_ID''" "fold_key ''method'' = ''METHOD''" "fold_key ''body'' = ''BODY''"
    by code_simp+
  ultimately show ?thesis
    by (simp add: ex_fetch_rpc_def unmarshal_def dec_RPCRequest_def field_RPCRequest_def zero_RPCRequest_def key_is_def json_simps)
qed

lemma ex_fetch_read:
  "ReadFrame (str_in ex_fetch_stream) (fl_RPCRequest (frameLimits Default)) = (Inr ex_fetch_frame, \<lparr>rd_data = [], rd_end = EOF\<rparr>)"
proof -
  have "length ex_fetch_frame < 1000" "ex_fetch_frame \<noteq> []"
    unfolding ex_fetch_frame_def ex_fetch_body_def by code_simp+
  moreover from this have "(of_nat (length ex_fetch_frame) :: uint32) \<le> fl_RPCRequest (frameLimits Default)"
    by (simp add: frameLimits_def Default_def Let_def word_le_nat_alt unat_of_nat take_bit_nat_eq_self)
  ultimately show ?thesis
    using ReadFrame_frame [of ex_fetch_frame "fl_RPCRequest (frameLimits Default)" "[]" EOF] by (simp add: ex_fetch_stream_def)
qed

lemma ex_fetch_answered:
  assumes "repr ex_pending (map_of d)"
  shows "\<exists>n'. handleFetchRPC (pebble_store mem_pebble) txt 500 ex_call ex_call ''bob'' ex_fetch_rpc (ex_node d) =
    (writeRPCFromFetch ''1''
       \<lparr>fresp_OK = True, fresp_Items = [ex_stored], fresp_HasMore = False, fresp_ErrorCode = [], fresp_ErrorMessage = []\<rparr>, n')"
proof -
  have "FetchMessages mem_pebble None 100 d ''bob'' 0 10 = Inr ([ex_stored], False)"
    using mem.fetch_eq [OF assms plain_bob, of 10 100 0]
    by (simp add: mb_fetch_def ex_pending_seqs Let_def live_def ex_stored_def)
  moreover have "fold_key ''after_seq'' = ''AFTER_SEQ''" "fold_key ''limit'' = ''LIMIT''" by code_simp+
  then have "unmarshal_raw zero_FetchRequest dec_FetchRequest (Some ex_fetch_body) = Inr ex_fetch"
    by (simp add: ex_fetch_body_def unmarshal_raw_def dec_FetchRequest_def field_FetchRequest_def zero_FetchRequest_def
        key_is_def ex_fetch_def json_simps)
  ultimately show ?thesis
    by (simp add: handleFetchRPC_def ex_fetch_rpc_def Fetch_Handle_def validateFetchRequest_def ex_fetch_def ex_call_def
        ex_node_def pebble_store_def Let_def)
qed

theorem fetch_response_fits_witness:
  "\<exists>d w n'. repr ex_pending (map_of d) \<and>
     HandleRPC (pebble_store mem_pebble) (NewVerifier ex_libp2p 60) (\<lambda>_. []) (\<lambda>x. x) ex_cfg 500 (frameLimits Default) ex_call ex_call
       ex_fetch_stream (ex_node d) = Some (w, Closed, n') \<and>
     (let p = json_print (enc_RPCResponse (writeRPCFromFetch ''1''
        \<lparr>fresp_OK = True, fresp_Items = [ex_stored], fresp_HasMore = False, fresp_ErrorCode = [], fresp_ErrorMessage = []\<rparr>))
      in wr_out w = PutUint32 (of_nat (length p)) @ p)"
proof -
  obtain d where d: "repr ex_pending (map_of d)" using repr_pending by blast
  let ?resp = "writeRPCFromFetch ''1''
     \<lparr>fresp_OK = True, fresp_Items = [ex_stored], fresp_HasMore = False, fresp_ErrorCode = [], fresp_ErrorMessage = []\<rparr>"
  obtain n' where h: "handleFetchRPC (pebble_store mem_pebble) (\<lambda>_. []) 500 ex_call ex_call ''bob'' ex_fetch_rpc (ex_node d) = (?resp, n')"
    using ex_fetch_answered [OF d] by blast
  have rep: "repr ex_pending (map_of (n_store (ex_node d)))" using d by (simp add: ex_node_def)
  have cfg: "sc_MaxMessageSize (cfg_Store Default) = 262144" "sc_FetchLimitMax (cfg_Store Default) = 500"
    by (simp_all add: Default_def)
  have stream: "str_remote ex_fetch_stream = ''bob''" "str_readDeadline ex_fetch_stream = None"
      "str_writeDeadline ex_fetch_stream = None" "str_out ex_fetch_stream = \<lparr>wr_out = [], wr_errs = []\<rparr>"
    by (simp_all add: ex_fetch_stream_def)
  have "messageSize ex_env \<le> 262144" unfolding messageSize_def ex_env_def by code_simp
  then have sizes: "\<forall>r k sm. mb_msgs (ex_pending r) k = Some sm \<longrightarrow>
      (\<exists>m. sm_Message sm = Some m \<and> messageSize m \<le> sint (sc_MaxMessageSize (cfg_Store Default)))"
    by (auto simp: cfg ex_pending_def ex_none_def empty_mailbox_def ex_stored_def split: if_splits)
  have rpc: "rpc_RequestID ex_fetch_rpc = ''1''" "rpc_Method ex_fetch_rpc = MethodOfflineFetch" by (simp_all add: ex_fetch_rpc_def)
  have h': "handleFetchRPC (pebble_store mem_pebble) (\<lambda>_. []) (sc_FetchLimitMax (cfg_Store Default)) ex_call ex_call
      (str_remote ex_fetch_stream) ex_fetch_rpc (ex_node d) = (?resp, n')"
    using h by (simp add: cfg stream)
  have "\<exists>w. HandleRPC (pebble_store mem_pebble) (NewVerifier ex_libp2p 60) (\<lambda>_. []) (\<lambda>x. x) ex_cfg
      (sc_FetchLimitMax (cfg_Store Default)) (frameLimits Default) ex_call ex_call ex_fetch_stream (ex_node d) = Some (w, Closed, n') \<and>
      wr_out w = wr_out (str_out ex_fetch_stream) @
        PutUint32 (of_nat (length (json_print (enc_RPCResponse ?resp)))) @ json_print (enc_RPCResponse ?resp)"
    by (rule conjunct2 [OF fetch_response_fits [OF mem_db rep _ sizes _ _ _ _ ex_fetch_read ex_fetch_decoded _ _ _ h' _ _ _ refl]])
      (simp_all add: cfg stream rpc writeRPCFromFetch_def)
  then show ?thesis using d by (simp add: cfg stream Let_def) blast
qed

text \<open>
  Beyond that the limits are cut to 32 bits: with messages of 8 MiB and 512 messages at once, the
  response frame is limited to 69632 bytes, less than one message.
\<close>

lemma response_limit_truncated:
  "fl_RPCResponse (frameLimits (Default\<lparr>cfg_Store := (cfg_Store Default)\<lparr>sc_MaxMessageSize := 8388608, sc_FetchLimitMax := 512\<rparr>\<rparr>)) = 69632"
  by (simp add: frameLimits_def Default_def Let_def)

text \<open>An interval of zero, which the configuration allows, panics when the collector starts.\<close>

lemma zero_interval_panics: "cfg_GC_IntervalSec (app_cfg a) = 0 \<Longrightarrow> collector P a evs st m = None"
  by (simp add: collector_def worker_def NewWorker_def Worker_Run_def)

section \<open>Start and end\<close>

lemma closing [simp]:
  "w_store (snd (Store_Close e w)) \<longleftrightarrow> w_store w \<and> e \<noteq> None" "w_host (snd (Store_Close e w)) = w_host w"
  "w_pcStore (snd (Store_Close e w)) = w_pcStore w" "w_running (snd (Store_Close e w)) = w_running w"
  "w_host (snd (host_Close e w)) \<longleftrightarrow> w_host w \<and> e \<noteq> None" "w_store (snd (host_Close e w)) = w_store w"
  "w_pcStore (snd (host_Close e w)) = w_pcStore w" "w_running (snd (host_Close e w)) = w_running w"
  by (simp_all add: Store_Close_def host_Close_def split: option.split)











definition ex_crypto :: "string crypto" where
  "ex_crypto = \<lparr>UnmarshalPrivateKey = Inr, GenerateEd25519Key = Inr ''key'', MarshalPrivateKey = Inr\<rparr>"

definition ex_os :: os where
  "ex_os = \<lparr>os_files = Map.empty, os_readErr = None, os_mkdirErr = (\<lambda>_. None), os_writeErr = None\<rparr>"






text \<open>
  C39. A node keeps its identity: once a call has returned a key, the file holds it, and any
  later call that can read the file returns the same key and changes nothing; no other file is
  ever written.
\<close>

theorem identity_stable:
  assumes "\<forall>k b. MarshalPrivateKey K k = Inr b \<longrightarrow> UnmarshalPrivateKey K b = Inr k"
    "LoadOrCreateIdentityKey K path s = (Inr k, s')" "os_files s2 path = os_files s' path" "os_readErr s2 = None"
  shows "LoadOrCreateIdentityKey (K\<lparr>GenerateEd25519Key := g\<rparr>) path s2 = (Inr k, s2) \<and>
    (\<forall>q. q \<noteq> path \<longrightarrow> os_files s' q = os_files s q) \<and>
    (os_files s path \<noteq> None \<longrightarrow> s' = s)"
proof (cases "os_files s path")
  case (Some data)
  then have "UnmarshalPrivateKey K data = Inr k" "s' = s"
    using assms(2) by (auto simp: LoadOrCreateIdentityKey_def split: option.splits sum.splits)
  then show ?thesis using Some assms(3,4) by (simp add: LoadOrCreateIdentityKey_def)
next
  case None
  then obtain b where "MarshalPrivateKey K k = Inr b" "s' = s\<lparr>os_files := (os_files s)(path \<mapsto> b)\<rparr>"
    using assms(2) by (auto simp: LoadOrCreateIdentityKey_def create_key_def split: option.splits sum.splits)
  then show ?thesis using None assms(1,3,4) by (simp add: LoadOrCreateIdentityKey_def)
qed

theorem identity_stable_witness:
  "\<exists>s'. LoadOrCreateIdentityKey ex_crypto ''k'' ex_os = (Inr ''key'', s') \<and>
     LoadOrCreateIdentityKey (ex_crypto\<lparr>GenerateEd25519Key := Inr ''other''\<rparr>) ''k'' s' = (Inr ''key'', s')"
proof -
  obtain s' where s': "LoadOrCreateIdentityKey ex_crypto ''k'' ex_os = (Inr ''key'', s')" "os_readErr s' = None"
    by (simp add: LoadOrCreateIdentityKey_def create_key_def ex_crypto_def ex_os_def)
  have "\<forall>k b. MarshalPrivateKey ex_crypto k = Inr b \<longrightarrow> UnmarshalPrivateKey ex_crypto b = Inr k" by (simp add: ex_crypto_def)
  then show ?thesis using identity_stable [OF _ s'(1) refl s'(2)] s'(1) by blast
qed

section \<open>Addresses\<close>

lemma announce_loop_nth:
  "announce_loop quote p t ls = Inr as \<Longrightarrow>
   length as = length ls \<and> (\<forall>i<length ls. announce_addr quote p t (ls ! i) = Inr (as ! i))"
  by (induction ls arbitrary: as) (auto simp: nth_Cons split: sum.splits nat.splits)

lemma announce_addr_parts:
  assumes "announce_addr quote p t addr = Inr a" "CHR ''/'' \<notin> set p" "CHR ''/'' \<notin> set t"
  shows "split_on CHR ''/'' a = (split_on CHR ''/'' addr)[1 := p, 2 := t]"
proof -
  have parts: "\<forall>q\<in>set (split_on c s). c \<notin> set q" for c and s :: string
    by (induction s) (auto split: list.splits)
  have "a = join_with CHR ''/'' ((split_on CHR ''/'' addr)[1 := p, 2 := t])"
    using assms(1) by (auto simp: announce_addr_def Let_def split: if_splits)
  moreover have "\<forall>q\<in>set ((split_on CHR ''/'' addr)[1 := p, 2 := t]). CHR ''/'' \<notin> set q"
    using parts [of "CHR ''/''" addr] assms(2,3) by (auto dest!: set_update_subset_insert [THEN subsetD])
  ultimately show ?thesis by (simp add: split_join)
qed

text \<open>
  C40. The announced addresses are the listen addresses with the protocol and the address of
  the announced IP in their place: every other part is kept, and the address that is announced
  reads back as the IP address that was given.
\<close>

theorem announce_addrs_exact:
  assumes "BuildAnnounceAddrs quote ls ip = Inr as"
  shows "\<exists>n p t. ParseIP ip = Some n \<and> ParseIP t = Some n \<and> p = (if To4 n = None then ''ip6'' else ''ip4'') \<and>
    length as = length ls \<and>
    (\<forall>i<length ls. split_on CHR ''/'' (as ! i) = (split_on CHR ''/'' (ls ! i))[1 := p, 2 := t])"
proof -
  obtain n where n: "ParseIP ip = Some n" using assms by (auto simp: BuildAnnounceAddrs_def split: option.splits)
  define p where "p = (if To4 n = None then ''ip6'' else ''ip4'')"
  define t where "t = (case To4 n of Some v4 \<Rightarrow> IP_String v4 | None \<Rightarrow> IP_String n)"
  have l: "announce_loop quote p t ls = Inr as"
    using assms n by (auto simp: BuildAnnounceAddrs_def p_def t_def split: option.splits)
  have "ParseIP t = Some n" unfolding t_def using ParseIP_bytes [OF n] by (intro ParseIP_String) auto
  moreover have "CHR ''/'' \<notin> set t" "CHR ''/'' \<notin> set p"
    using IP_String_no_slash by (auto simp: t_def p_def split: option.splits)
  ultimately show ?thesis using n announce_loop_nth [OF l] announce_addr_parts p_def by blast
qed

theorem announce_addrs_exact_witness:
  "\<exists>t. BuildAnnounceAddrs (\<lambda>s. s) [''/ip4/0.0.0.0/tcp/9001''] ''203.0.113.10'' = Inr [''/ip4/203.0.113.10/tcp/9001''] \<and>
     ParseIP t = ParseIP ''203.0.113.10'' \<and> split_on CHR ''/'' ''/ip4/203.0.113.10/tcp/9001'' ! 2 = t"
proof -
  have b: "BuildAnnounceAddrs (\<lambda>s. s) [''/ip4/0.0.0.0/tcp/9001''] ''203.0.113.10'' = Inr [''/ip4/203.0.113.10/tcp/9001'']"
    by code_simp
  have five: "length (split_on CHR ''/'' ''/ip4/0.0.0.0/tcp/9001'') = 5" by code_simp
  obtain n p t where n: "ParseIP ''203.0.113.10'' = Some n" "ParseIP t = Some n"
      and sp: "\<forall>i<length [''/ip4/0.0.0.0/tcp/9001'']. split_on CHR ''/'' ([''/ip4/203.0.113.10/tcp/9001''] ! i) =
        (split_on CHR ''/'' ([''/ip4/0.0.0.0/tcp/9001''] ! i))[1 := p, 2 := t]"
    using announce_addrs_exact [OF b] by blast
  have "split_on CHR ''/'' ''/ip4/203.0.113.10/tcp/9001'' = (split_on CHR ''/'' ''/ip4/0.0.0.0/tcp/9001'')[1 := p, 2 := t]"
    using sp [rule_format, of 0, unfolded nth_Cons_0] by (simp only: length_Cons zero_less_Suc)
  then have "split_on CHR ''/'' ''/ip4/203.0.113.10/tcp/9001'' ! 2 = t" using five by (simp del: split_on.simps)
  with b n show ?thesis by metis
qed

end
