(* ===== verification/Slash.thy ===== *)
theory Slash
  imports LoopEnds Example
begin

text \<open>
  Recipient ids that contain a slash. \<open>validateStoreRequest\<close> (\<open>service/validate.go\<close>) accepts any
  recipient that is not empty, and the keys of \<open>pebble/keys.go\<close> separate their parts by slashes. A
  message for \<open>bob/x\<close> therefore lies among the keys of \<open>bob\<close>, who fetches it and whose
  acknowledgements fail on it. The other theorems on mailboxes exclude such recipients.
\<close>

section \<open>Keys\<close>

lemma dupKey_collides: "dupKey (r @ ''/'' @ x) m = dupKey r (x @ ''/'' @ m)"
  by (simp add: dupKey_def)

lemma slash_not_plain: "\<not> plain (r @ ''/'' @ x)"
  by (simp add: plain_def)

text \<open>No store that represents mailboxes holds a message of such a recipient.\<close>

lemma repr_plain:
  assumes "repr M m" "msgKey r s \<in> dom m"
  shows "plain r"
proof (rule ccontr)
  assume slash: "\<not> plain r"
  obtain l where l: "wf_lkey l" "msgKey r s = enc_key l"
    using assms unfolding repr_def by (blast elim: holds_keyE)
  then obtain r' s' where "plain r'" "msgKey r s = msgKey r' s'" by (cases l) (auto simp: key_defs)
  then show False using parseMsgKey_slash [OF slash, of s] parseMsgKey_msgKey [of r' s'] by simp
qed

text \<open>A key of \<open>r/x\<close> comes after all keys of \<open>r\<close> and within the range of its scans, if \<open>x\<close> starts with a letter.\<close>

lemma slash_key_in_range:
  assumes "CHR ''9'' < c" "c < CHR 0xFF"
  shows "msgKey r a \<le> msgKey (r @ ''/'' @ c # x) s" "msgKey (r @ ''/'' @ c # x) s < prefixUpperBound (msgPrefix r)"
    "msgPrefix r \<le> msgKey (r @ ''/'' @ c # x) s"
proof -
  have key: "msgKey (r @ ''/'' @ c # x) s = msgPrefix r @ c # x @ ''/'' @ fmt020u s"
    by (simp add: msgKey_def msgPrefix_def)
  obtain d ds where d: "fmt020u a = d # ds" "is_digit d"
    using length_fmt020u [of a] fmt020u_digits [of a] by (cases "fmt020u a") auto
  have "d \<le> CHR ''9''" using d(2) by (auto simp: is_digit_alt less_eq_char_def)
  then have "d < c" using assms(1) by (rule le_less_trans)
  then show "msgKey r a \<le> msgKey (r @ ''/'' @ c # x) s" unfolding key by (simp add: msgKey_def d)
  show "msgKey (r @ ''/'' @ c # x) s < prefixUpperBound (msgPrefix r)"
    unfolding key using assms(2) by (simp add: prefixUpperBound_def)
  show "msgPrefix r \<le> msgKey (r @ ''/'' @ c # x) s" unfolding key by (rule prefix_le) simp
qed

section \<open>Scans\<close>

text \<open>A fetch that reports no more has returned every unexpired message it came across.\<close>

lemma fetch_loop_complete:
  assumes "fetch_loop now limit es items = Inr (out, False)" "(k, v) \<in> set es" "unmarshal_StoredMessage v = Inr sm"
    "sint now < sint (ExpireAt sm)"
  shows "sm \<in> set out"
  using assms
proof (induction now limit es items rule: fetch_loop.induct)
  case (2 now limit k' v' es items)
  have keeps: "set acc \<subseteq> set out'" if "fetch_loop now limit es' acc = Inr (out', more)" for es' acc out' more
    using that
    by (induction now limit es' acc rule: fetch_loop.induct) (auto split: sum.splits if_splits)
  obtain st where st: "unmarshal_StoredMessage v' = Inr st" using "2.prems"(1) by (auto split: sum.splits)
  show ?case
  proof (cases "sint (ExpireAt st) \<le> sint now")
    case True
    then show ?thesis using "2.prems" "2.IH"(1) [OF st True] st by auto
  next
    case False
    then have lim: "\<not> sint limit \<le> int (length items)" using "2.prems"(1) st by (auto split: if_splits)
    then have go: "fetch_loop now limit es (items @ [st]) = Inr (out, False)" using "2.prems"(1) st False by simp
    show ?thesis
    proof (cases "(k, v) \<in> set es")
      case True
      then show ?thesis using "2.IH"(2) [OF st False lim go] "2.prems" by blast
    next
      case False
      then have "sm = st" using "2.prems"(2,3) st by auto
      then show ?thesis using keeps [OF go] by simp
    qed
  qed
qed simp

text \<open>A scan that comes to a key that is no message key fails, unless it stops before.\<close>

lemma ack_scan_blocked:
  assumes "(k0, v0) \<in> set es" "parseMsgKey k0 = Inl e0" "\<forall>(k, v)\<in>set es. \<forall>p n. parseMsgKey k = Inr (p, n) \<longrightarrow> n \<le> a"
    "aa_inBatch acc + length es \<le> cap"
  shows "fst (ack_scan ctx r a cap i es acc) \<noteq> None"
  using assms
proof (induction ctx r a cap i es acc rule: ack_scan.induct)
  case (2 ctx r a cap i k v es acc)
  show ?case
  proof (cases "ctx i = None \<and> (\<exists>p n sm. parseMsgKey k = Inr (p, n) \<and> unmarshal_StoredMessage v = Inr sm)")
    case False
    then show ?thesis
      using "2.prems"(3) by (auto split: option.splits sum.splits simp: not_less [symmetric])
  next
    case True
    then obtain p n sm where ok: "ctx i = None" "parseMsgKey k = Inr (p, n)" "unmarshal_StoredMessage v = Inr sm" by blast
    have n: "\<not> a < n" using "2.prems"(3) ok(2) by (auto simp: not_less)
    have there: "(k0, v0) \<in> set es" using "2.prems"(1,2) ok(2) by auto
    let ?acc = "ack_add r k n sm acc"
    obtain y ys where "es = y # ys" using there by (cases es) auto
    then have more: "\<not> cap \<le> aa_inBatch ?acc" and fits: "aa_inBatch ?acc + length es \<le> cap"
      using "2.prems"(4) by (simp_all add: ack_add_def)
    have "fst (ack_scan ctx r a cap (Suc i) es ?acc) \<noteq> None"
      by (rule "2.IH" [OF ok(1,2) refl n ok(3) refl more there "2.prems"(2) _ fits]) (use "2.prems"(3) in auto)
    then show ?thesis using ok n more by (simp add: Let_def)
  qed
qed simp

context pebble_ok
begin

text \<open>What a store that was not a duplicate has put into the database, for any recipient.\<close>

lemma store_puts:
  assumes res: "storeMessageWithQuota P ctx now d (Some msg) mm mbytes q = Some (Inr (n, ex, False), d')"
    and env: "sm_Message msg = Some env"
  shows "view d' (msgKey (RecipientID env) n) = Some (marshal_StoredMessage (stamp msg env n now))"
    "ex = ExpireAt (stamp msg env n now)"
proof -
  obtain d1 where new: "store_new P now d1 msg env mm mbytes q = (Inr (n, ex, False), d')"
    using res env by (auto simp: storeMessageWithQuota_def split: option.splits sum.splits prod.splits)
  then obtain prev where prev: "lastSeq P d1 (RecipientID env) = Inr prev"
    by (auto simp: store_new_def split: sum.splits)
  let ?m = "stamp msg env (prev + 1) now"
  have com: "db_Commit P d1 (store_batch (RecipientID env) (MsgID env) ?m) = (None, d')"
    and n: "n = prev + 1" "ex = ExpireAt ?m"
    using new prev by (auto simp: store_new_def Let_def split: sum.splits prod.splits option.splits)
  show "ex = ExpireAt (stamp msg env n now)" using n by simp
  have "view d' = apply_batch (store_batch (RecipientID env) (MsgID env) ?m) (view d1)" using Commit_done [OF com] .
  then show "view d' (msgKey (RecipientID env) n) = Some (marshal_StoredMessage (stamp msg env n now))"
    using n by (simp add: store_batch_def key_defs)
qed

lemma fetch_sees:
  assumes f: "FetchMessages P None now d r after limit = Inr (items, False)" and limit: "0 < sint limit"
    and key: "view d k = Some v" "msgKey r (after + 1) \<le> k" "k < prefixUpperBound (msgPrefix r)"
    and sm: "unmarshal_StoredMessage v = Inr sm" "sint now < sint (ExpireAt sm)"
  shows "sm \<in> set items"
proof -
  let ?es = "entries (view d) (msgKey r (after + 1)) (prefixUpperBound (msgPrefix r))"
  have "fetch_loop now limit ?es [] = Inr (items, False)"
    using f limit by (auto simp: FetchMessages_def Iter_eq split: sum.splits if_splits)
  moreover have "(k, v) \<in> set ?es"
    using key finite_view [of d] by (auto simp: entries_def image_iff)
  ultimately show ?thesis by (rule fetch_loop_complete [OF _ _ sm])
qed

text \<open>An acknowledgement that would have to pass over a key that is no message key changes nothing.\<close>

lemma ack_blocked:
  assumes key: "k0 \<in> range_keys r (view d)" "parseMsgKey k0 = Inl e0"
    and all: "\<forall>k\<in>range_keys r (view d). \<forall>p n. parseMsgKey k = Inr (p, n) \<longrightarrow> n \<le> a"
    and few: "card (range_keys r (view d)) \<le> cap"
  shows "\<exists>u c err. AckMessages P cap ctx d r a = Some (u, c, err, d) \<and> (err = None \<longrightarrow> c = 0)"
proof -
  let ?es = "entries (view d) (msgPrefix r) (prefixUpperBound (msgPrefix r))"
  have set: "set ?es = (\<lambda>k. (k, the (view d k))) ` range_keys r (view d)"
    using finite_view [of d] by (auto simp: entries_def range_keys_def)
  have len: "length ?es = card (range_keys r (view d))"
    using finite_view [of d] by (simp add: entries_def range_keys_def)
  have loop: "\<exists>u' c' err. ack_loop P ctx r a cap au i d u 0 = Some (u', c', err, d) \<and> (err = None \<longrightarrow> c' = 0)" for au i u
  proof -
    let ?acc = "\<lparr>aa_batch = [], aa_until = u, aa_inBatch = 0, aa_count = 0\<rparr>"
    obtain err broke i' acc where scan: "ack_scan ctx r a cap i ?es ?acc = (err, broke, i', acc)" by (metis prod_cases4)
    have "fst (ack_scan ctx r a cap i ?es ?acc) \<noteq> None"
      by (rule ack_scan_blocked [of k0 "the (view d k0)", OF _ key(2)]) (use set key(1) all few len in auto)
    then obtain e where "err = Some e" using scan by auto
    then show ?thesis by (subst ack_loop.simps) (simp add: Iter_eq scan)
  qed
  show ?thesis
    by (auto simp: AckMessages_def loop split: option.split sum.split)
qed

end

section \<open>The consequences\<close>

text \<open>
  C19. A message stored for a recipient \<open>r/x\<close>, which \<open>validateStoreRequest\<close> accepts, goes to \<open>r\<close>
  as well and gets in its way, when \<open>x\<close> starts with a letter, in any store and without faults: every
  fetch of \<open>r\<close> that leaves nothing out returns it while it has not expired; an acknowledgement of \<open>r\<close>
  that covers all of its messages deletes none, as long as they fit into one batch; and the duplicate
  marker of the message is that of the message \<open>x/m\<close> of \<open>r\<close>.
\<close>

theorem slash_recipient_overlaps:
  assumes "pebble_ok P view" "sm_Message msg = Some env" "wf_Envelope env" "RecipientID env = r @ ''/'' @ c # x"
    "CHR ''9'' < c" "c < CHR 0xFF"
    "storeMessageWithQuota P ctx now d (Some msg) mm mbytes q = Some (Inr (n, ex, False), d')"
  shows "(\<forall>t after limit items. 0 < sint limit \<longrightarrow> sint t < sint ex \<longrightarrow>
       FetchMessages P None t d' r after limit = Inr (items, False) \<longrightarrow>
       (\<exists>sm\<in>set items. sm_Message sm = Some env \<and> StoreSeq sm = n)) \<and>
    (\<forall>poll a cap. (\<forall>k\<in>range_keys r (view d'). \<forall>p s. parseMsgKey k = Inr (p, s) \<longrightarrow> s \<le> a) \<longrightarrow>
       card (range_keys r (view d')) \<le> cap \<longrightarrow>
       (\<exists>u k err. AckMessages P cap poll d' r a = Some (u, k, err, d') \<and> (err = None \<longrightarrow> k = 0))) \<and>
    dupKey (RecipientID env) (MsgID env) = dupKey r (c # x @ ''/'' @ MsgID env)"
proof -
  let ?sm = "stamp msg env n now" and ?k = "msgKey (r @ ''/'' @ c # x) n"
  note put = pebble_ok.store_puts [OF assms(1,7,2), unfolded assms(4)]
  note range = slash_key_in_range [OF assms(5,6), where r = r and x = x and s = n]
  have un: "unmarshal_StoredMessage (marshal_StoredMessage ?sm) = Inr ?sm"
    using assms(2,3) by (intro json_simps) (simp add: wf_StoredMessage_def stamp_def)
  have "\<exists>sm\<in>set items. sm_Message sm = Some env \<and> StoreSeq sm = n"
    if "0 < sint limit" "sint t < sint ex" "FetchMessages P None t d' r after limit = Inr (items, False)" for t "after" limit items
  proof -
    have "?sm \<in> set items"
      using pebble_ok.fetch_sees [OF assms(1) that(3,1) put(1) range(1,2) un] that(2) put(2) by simp
    then show ?thesis using assms(2) by (intro bexI [of _ ?sm]) (simp_all add: stamp_def)
  qed
  moreover have "?k \<in> range_keys r (view d')" using put(1) range(2,3) by (simp add: range_keys_def domIff)
  then have "\<exists>u k err. AckMessages P cap poll d' r a = Some (u, k, err, d') \<and> (err = None \<longrightarrow> k = 0)"
    if "\<forall>k\<in>range_keys r (view d'). \<forall>p s. parseMsgKey k = Inr (p, s) \<longrightarrow> s \<le> a" "card (range_keys r (view d')) \<le> cap" for poll a cap
    using pebble_ok.ack_blocked [OF assms(1) _ parseMsgKey_slash [OF slash_not_plain] that] by blast
  ultimately show ?thesis using dupKey_collides [of r "c # x"] assms(4) by simp
qed

text \<open>Alice leaves a message for \<open>bob/x\<close>, and Bob gets it.\<close>

definition slash_env :: OfflineMessageEnvelope where
  "slash_env = ex_env\<lparr>RecipientID := ''bob/x''\<rparr>"

lemma slash_stored:
  obtains d' where "storeMessageWithQuota mem_pebble None 100 [] (Some (ex_msg\<lparr>sm_Message := Some slash_env\<rparr>)) 0 0 False
      = Some (Inr (1, 150, False), d')"
    "range_keys ''bob'' (map_of d') = {msgKey ''bob/x'' 1}"
proof -
  let ?m = "ex_msg\<lparr>sm_Message := Some slash_env\<rparr>"
  let ?b = "store_batch ''bob/x'' ''m1'' (stamp ?m slash_env 1 100)"
  have env: "RecipientID slash_env = ''bob/x''" "MsgID slash_env = ''m1''" "EffectiveTTL (Some slash_env) 0 = 50"
    by (simp_all add: slash_env_def ex_env_def EffectiveTTL_def)
  have get: "db_Get mem_pebble [] k = Inl ErrNotFound" for k by (simp add: mem_pebble_def)
  have com: "db_Commit mem_pebble [] ?b = (None, foldl mem_apply [] ?b)" by (simp add: mem_pebble_def)
  have st: "storeMessageWithQuota mem_pebble None 100 [] (Some ?m) 0 0 False = Some (Inr (1, 150, False), foldl mem_apply [] ?b)"
    using com by (simp add: storeMessageWithQuota_def dup_check.simps get store_new_def lastSeq_def env stamp_def Let_def)
  have view: "map_of (foldl mem_apply [] ?b) = apply_batch ?b Map.empty" using mem_batch_view [of "[]" ?b] by simp
  have dom: "dom (apply_batch ?b Map.empty) = {msgKey ''bob/x'' 1, dupKey ''bob/x'' ''m1'', expKey 150 ''bob/x'' 1, seqKey ''bob/x''}"
    by (auto simp: store_batch_def stamp_def env)
  have msg: "prefix ''msg/bob/'' k" if "k \<in> range_keys ''bob'' m" for k m
    using that unfolding range_keys_def prefixUpperBound_def by (auto simp: msgPrefix_def intro: prefix_range)
  have "msgKey ''bob/x'' 1 \<in> range_keys ''bob'' (apply_batch ?b Map.empty)"
    using slash_key_in_range(2,3) [where c = "CHR ''x''" and r = "''bob''" and x = "[]" and s = 1] dom by (simp add: range_keys_def less_char_def)
  moreover have "k = msgKey ''bob/x'' 1" if "k \<in> range_keys ''bob'' (apply_batch ?b Map.empty)" for k
  proof -
    have "k \<in> dom (apply_batch ?b Map.empty)" using that by (simp add: range_keys_def)
    then show ?thesis using msg [OF that] unfolding dom by (auto simp: key_defs)
  qed
  ultimately have "range_keys ''bob'' (map_of (foldl mem_apply [] ?b)) = {msgKey ''bob/x'' 1}" unfolding view by blast
  with st show thesis by (rule that)
qed

theorem slash_recipient_overlaps_witness:
  "\<exists>d' items. storeMessageWithQuota mem_pebble None 100 [] (Some (ex_msg\<lparr>sm_Message := Some slash_env\<rparr>)) 0 0 False
      = Some (Inr (1, 150, False), d') \<and>
    FetchMessages mem_pebble None 120 d' ''bob'' 0 10 = Inr (items, False) \<and>
    (\<exists>sm\<in>set items. sm_Message sm = Some slash_env) \<and>
    (\<exists>u k err. AckMessages mem_pebble 1000 (\<lambda>_. None) d' ''bob'' 1 = Some (u, k, err, d') \<and> (err = None \<longrightarrow> k = 0))"
proof -
  let ?m = "ex_msg\<lparr>sm_Message := Some slash_env\<rparr>"
  obtain d' where st: "storeMessageWithQuota mem_pebble None 100 [] (Some ?m) 0 0 False = Some (Inr (1, 150, False), d')"
      and keys: "range_keys ''bob'' (map_of d') = {msgKey ''bob/x'' 1}"
    by (rule slash_stored)
  have env: "sm_Message ?m = Some slash_env" "wf_Envelope slash_env" "RecipientID slash_env = ''bob'' @ ''/'' @ CHR ''x'' # []"
    using ex_env_ok(1) ascii_utf8_valid [of "''bob/x''"] by (simp_all add: slash_env_def wf_Envelope_def is_ascii_def)
  have c: "CHR ''9'' < CHR ''x''" "CHR ''x'' < CHR 0xFF" by (simp_all add: less_char_def)
  note all = slash_recipient_overlaps [OF mem.pebble_ok_axioms env c st]
  have put: "map_of d' (msgKey ''bob/x'' 1) = Some (marshal_StoredMessage (stamp ?m slash_env 1 100))"
    using mem.store_puts(1) [OF st env(1)] env(3) by simp
  have wf: "wf_StoredMessage (stamp ?m slash_env 1 100)" using env(2) by (simp add: wf_StoredMessage_def stamp_def)
  have "{k \<in> dom (map_of d'). msgKey ''bob'' 1 \<le> k \<and> k < prefixUpperBound (msgPrefix ''bob'')} = {msgKey ''bob/x'' 1}"
  proof -
    have "msgPrefix ''bob'' \<le> k" if "msgKey ''bob'' 1 \<le> k" for k using msgPrefix_le_msgKey that by (rule order_trans)
    then have "{k \<in> dom (map_of d'). msgKey ''bob'' 1 \<le> k \<and> k < prefixUpperBound (msgPrefix ''bob'')} \<subseteq> {msgKey ''bob/x'' 1}"
      unfolding keys [symmetric] range_keys_def by blast
    moreover have "msgKey ''bob'' 1 \<le> msgKey ''bob/x'' 1 \<and> msgKey ''bob/x'' 1 < prefixUpperBound (msgPrefix ''bob'')"
      using slash_key_in_range(1,2) [OF c, where r = "''bob''" and x = "[]" and s = 1] by simp
    ultimately show ?thesis using put by blast
  qed
  then have "entries (map_of d') (msgKey ''bob'' 1) (prefixUpperBound (msgPrefix ''bob''))
      = [(msgKey ''bob/x'' 1, marshal_StoredMessage (stamp ?m slash_env 1 100))]"
    using put by (simp add: entries_def)
  then have f: "FetchMessages mem_pebble None 120 d' ''bob'' 0 10 = Inr ([stamp ?m slash_env 1 100], False)"
    using json_simps wf by (simp add: FetchMessages_def mem.Iter_eq stamp_def slash_env_def ex_env_def EffectiveTTL_def)
  moreover have "\<exists>sm\<in>set [stamp ?m slash_env 1 100]. sm_Message sm = Some slash_env \<and> StoreSeq sm = 1"
    by (rule all [THEN conjunct1, rule_format, OF _ _ f]) simp_all
  moreover have "\<exists>u k err. AckMessages mem_pebble 1000 (\<lambda>_. None) d' ''bob'' 1 = Some (u, k, err, d') \<and> (err = None \<longrightarrow> k = 0)"
    by (rule all [THEN conjunct2, THEN conjunct1, rule_format]) (simp_all add: keys parseMsgKey_slash plain_def)
  ultimately show ?thesis using st by blast
qed

end
