(* ===== verification/Spec2Isabelle.thy ===== *)
theory Spec2Isabelle
  imports NodeTheorems RetentionTheorems ProtocolTheorems ServiceTheorems ChannelTheorems ChannelReadTheorems
    AppTheorems Slash
begin

text \<open>
  A verification development for the store node of meshchat: a libp2p service that keeps
  end-to-end encrypted messages for recipients who are offline, and public channels for anyone to
  read. All paths are below \<open>src/internal\<close> unless they say otherwise.

  \<^bold>\<open>The program.\<close> A peer opens a stream, sends one frame with a JSON request and gets one frame
  with a JSON response (\<open>p2p/codec.go\<close>, \<open>p2p/protocols.go\<close>). Requests to store, fetch and
  acknowledge messages go to three services (\<open>service\<close>), which validate them (\<open>validate.go\<close>),
  check signatures (\<open>auth\<close>) and rates (\<open>ratelimit\<close>), and use a store over the ordered key-value
  database Pebble (\<open>storage/pebble\<close>), whose keys spell out recipient and number (\<open>keys.go\<close>) and
  whose operations take a lock per recipient (\<open>shard\<close>). A collector removes what has expired
  (\<open>gc\<close>). Public channels are a second protocol (\<open>p2p/public_channel_server.go\<close>) over a service
  and a store in SQLite (\<open>publicchannel\<close>). \<open>app\<close>, \<open>config\<close>, \<open>netutil\<close> and \<open>src/cmd/stored\<close> put a
  node together.

  \<^bold>\<open>Values.\<close> Prelude holds the types: strings and byte slices are lists of 8-bit characters,
  \<open>int\<close>, \<open>int64\<close> and \<open>uint64\<close> are 64-bit words whose additions wrap where Go's do, read by
  \<^const>\<open>sint\<close> and \<^const>\<open>unat\<close>; errors are a datatype, fallible functions return a sum or an
  optional error; a pointer is an option, a slice that may be nil an optional list. An outer
  \<open>None\<close> of a result is a panic, or a loop that does not end where a
  \<open>partial_function\<close> is involved. Records carry the fields of the Go structs with a prefix.

  \<^bold>\<open>The theories and what they model.\<close>
  \<^item> GoLib, GoJson, GoNet: what the program uses of Go's library. Decimal formatting and parsing,
    splitting and joining; \<open>encoding/json\<close> with escapes, UTF-8 repair, nesting limit, case folded
    field names and the decoding of structs, pointers, slices and numbers, as a lexer and a stack
    machine; \<open>net.ParseIP\<close> and \<open>IP.String\<close>, \<open>filepath\<close>, \<open>strings.TrimSpace\<close>. NetFacts proves that
    a printed IP address reads back.
  \<^item> Protocol (\<open>protocol/types.go\<close>, \<open>rpc.go\<close>, \<open>errors.go\<close>, \<open>storage/model.go\<close>): the wire types with
    their encoders and decoders, error codes and error texts. Codec (\<open>p2p/codec.go\<close>): frames over
    readers that end or fail and writers that fail.
  \<^item> Keys (\<open>pebble/keys.go\<close>), Pebble: the key formats and their parsers, and the database as a
    record of operations with the contract of the locale \<open>pebble_ok\<close>: reads, range iteration in key order
    and atomic batches, any of which may fail; \<open>mem_pebble\<close> is an instance.
  \<^item> Mailbox: the abstract store, a mailbox per recipient with its messages by number, its counter
    and its two frontiers, and the representation \<open>repr\<close> of mailboxes in a database.
  \<^item> MessageStore (\<open>store.go\<close>), MessageFetch (\<open>fetch.go\<close>), MessageAck (\<open>ack.go\<close>), MessageGC (\<open>gc.go\<close>):
    every operation of the Pebble store, and the lemma that it implements an operation on
    mailboxes. Storage (\<open>storage/storage.go\<close>, \<open>pebble/db.go\<close>): the interface as a record, its
    contract as the locales \<open>mailbox_storage\<close> and \<open>live_storage\<close>, which the Pebble store
    interprets. GcWorker (\<open>gc/worker.go\<close>) is a client of that contract. LoopEnds: the loops of
    acknowledging and collecting end on every database, with any faults. Interleaving: the operations
    as the steps of concurrent requests, with StorageTheorems and RetentionTheorems. Slash: what the
    store does for recipients whose id contains a slash.
  \<^item> Decoded: what the decoders produce from any bytes has valid texts throughout.
  \<^item> Shard, Ratelimit, Metrics, Auth: the sharded locks as a step relation of threads, the limiter,
    the counters, the canonical bytes and the verifier. Service (\<open>service\<close>) and Server
    (\<open>p2p/protocols.go\<close>): the handlers with the calls they make, over any storage that meets its
    contract; ServiceTheorems and ProtocolTheorems hold their properties. Node: the steps of the
    running offline node, labelled with the frames received: handlers, the two halves of a fetch, the two
    halves of a collection, and the clock, in any order; NodeTheorems.
    Polling: a recipient that fetches and acknowledges until nothing comes, over any storage that meets its contract.
  \<^item> ChannelTypes, ChannelCanonical (\<open>publicchannel/types.go\<close>, \<open>canonical.go\<close>, \<open>verify.go\<close>,
    \<open>uuid.go\<close>): the types of channels and their signed bytes; numbers inside a content go through
    64-bit floats, which are modelled with their rounding and shortest decimal form. ChannelStore
    (\<open>store.go\<close>, \<open>schema.go\<close>): three tables as lists of rows, each SQL statement as a function on
    them, each operation as the sequence of statements it runs, where any call of the database may fail. ChannelFacts,
    ChannelPush: the invariant of the tables, the lookups, and the channel as row, messages and
    changes that a push refines; \<open>schema_ok\<close> is what the schema enforces, \<open>within_head\<close> what pushes one
    after the other keep besides. ChannelService (\<open>service.go\<close>, \<open>rpc.go\<close>,
    \<open>p2p/public_channel_server.go\<close>): requests and responses. ChannelRequests, ChannelPaging: how
    channels develop, and pages. ChannelTheorems, ChannelReadTheorems: their properties;
    ChannelExample: a concrete channel. ChannelOverlap: pushes that overlap, as a step relation of checks and
    transactions.
  \<^item> Config (\<open>config/config.go\<close>, \<open>netutil/public_ip.go\<close>), Wiring (\<open>pebble/db.go\<close> and the constructors of
    the services, the collector and the servers, with the table of stream handlers), App
    (\<open>app/app.go\<close>, \<open>p2p/identity.go\<close>, \<open>p2p/host.go\<close>, \<open>publicchannel/db.go\<close>): how a node is configured,
    put together, started and closed. Command (\<open>src/cmd/stored/main.go\<close>): the process, with the
    flags as the package \<open>flag\<close> parses them and integers as \<open>strconv.ParseInt\<close> does. AppFacts,
    AppTheorems.

  \<^bold>\<open>Recipients with a slash.\<close> \<open>service/validate.go\<close> accepts every recipient id that is not empty, but
  the keys and the scans of the store are only right for ids without a slash, the predicate \<open>plain\<close>.
  The theorems on mailboxes say what holds while no message is stored for another recipient: C1, C2,
  C3, C5 and C22 ask it of the messages that are stored, the others of the store they start
  from, since no database with a message for such a recipient is in \<open>repr\<close> with any
  mailboxes (repr_plain in Slash). C14 and C19 say what happens otherwise: the collector stops, and the message gets into the
  mailbox of another recipient.

  \<^bold>\<open>What the theorems show.\<close> C1 is about the whole offline node: whatever frames arrive, save store
  requests for recipients with a slash, and however handlers, collector and failures interleave,
  mailboxes change only as senders and recipients have asked for with their signatures, within the
  stated bounds on clock and counters. C2 to C13: the Pebble store implements mailboxes; each
  operation does on mailboxes what it should, on every branch; acknowledging and collecting always
  end, with faults and without, and are complete if there are no faults (C9, C12); a message is stored
  once however the other operations interleave (C5); and a gap stops delivery (C13). C15 to C18, on the
  protocol: keys and JSON read back exactly; whatever is decoded is well formed; signatures
  cover what they should. C20: the sharded locks never panic, exclude, and never stay locked behind a
  thread that left; C21: the decision of the rate limiter on each request. C22 to C26, on the services,
  say what a response guarantees, for the store that is behind it. C27 to C36, on channels, say who can
  change a channel, that a push is an update of one channel, that nothing disappears, what the signed
  bytes determine (sizes only as floats, C33), what readers get, that a channel can be taken over, and
  what still holds, and what does not, when pushes overlap. C37 to C40 are on the frame of a fetch's
  response (for request ids of at most 2000 bytes), on the life of the process from its arguments to its
  exit code and what it serves between, with what stays open when something fails to close, on the
  identity key and on announced addresses.

  \<^bold>\<open>Bounds.\<close> No model of the code runs on fuel; the client of Polling makes a given number of rounds, and C26
  says how many are enough. Loops that the type of their data does not bound are
  \<open>partial_function\<close>s (the batches of acknowledging, the rounds of the collector), with theorems
  that they return; all others are structural or have a termination proof.

  \<^bold>\<open>Parameters.\<close> The Pebble library, libp2p's keys and peer ids, the uuid library, the ids that
  SQLite gives to rows, YAML, HTTP answers, the clock, contexts and the file system are arguments,
  with what the code relies on as assumptions of locales or hypotheses. The texts of library
  errors and the quoting of \<open>%q\<close> are arguments too, since no decision depends on them.

  \<^bold>\<open>Not modelled.\<close> Logging, which no state depends on; stream deadlines beyond their setting
  failing; the panic of \<open>make\<close> for a limit of the collector beyond memory; failures of \<open>json.Marshal\<close>, which
  do not occur for the types that are marshalled; the errors that adding to a batch may return,
  which are those of its commit here; the reuse of elements beyond the length of a slice that is
  decoded into twice by a JSON object that repeats a key; a failed SQL transaction that committed nevertheless.
\<close>

end
